(* ===== verification/Prelude.thy ===== *)
theory Prelude
  imports Main
begin

text \<open>
  Shared vocabulary of the development.

  A Rust \<open>str\<close> is modelled by its UTF-8 bytes: \<open>string\<close> is a list of 8-bit
  characters, \<open>length\<close> is \<open>str::len\<close> and positions are byte offsets.
  \<open>utf8_chars\<close> recovers the \<open>chars()\<close> view, one chunk of bytes for each code point,
  and the Unicode white-space operations (\<open>trim\<close>, \<open>split_whitespace\<close>) work on it.
  The rest are the string, result and list operations of the Rust standard library
  that several components use, with the lemmas they share.
\<close>

named_theorems byte_simps \<open>facts on bytes and byte strings\<close>
named_theorems res_simps \<open>evaluation of the result monad\<close>

type_synonym bytes = string

section \<open>Results\<close>

text \<open>\<open>Result<T, E>\<close> is \<open>'e + 'a\<close> with \<open>Inl\<close> for the error; \<open>res_bind\<close> is the
  question mark operator.\<close>

definition res_bind :: "'e + 'a \<Rightarrow> ('a \<Rightarrow> 'e + 'b) \<Rightarrow> 'e + 'b" where
  "res_bind m f = (case m of Inl e \<Rightarrow> Inl e | Inr x \<Rightarrow> f x)"

lemma res_bind_simps [simp, res_simps]:
  "res_bind (Inl e) f = Inl e"
  "res_bind (Inr x) f = f x"
  by (simp_all add: res_bind_def)

lemma res_bind_eq_Inr [simp]:
  "res_bind m f = Inr y \<longleftrightarrow> (\<exists>x. m = Inr x \<and> f x = Inr y)"
  by (cases m) auto

lemma res_bind_eq_Inl:
  "res_bind m f = Inl e \<longleftrightarrow> m = Inl e \<or> (\<exists>x. m = Inr x \<and> f x = Inl e)"
  by (cases m) auto

lemma res_bind_cong [fundef_cong]:
  "m = m' \<Longrightarrow> (\<And>x. m' = Inr x \<Longrightarrow> f x = f' x) \<Longrightarrow> res_bind m f = res_bind m' f'"
  by (cases m') auto

definition map_err :: "('e \<Rightarrow> 'f) \<Rightarrow> 'e + 'a \<Rightarrow> 'f + 'a" where
  "map_err g m = (case m of Inl e \<Rightarrow> Inl (g e) | Inr x \<Rightarrow> Inr x)"

lemma map_err_simps [simp, res_simps]:
  "map_err g (Inl e) = Inl (g e)"
  "map_err g (Inr x) = Inr x"
  by (simp_all add: map_err_def)

lemma map_err_eq_Inr [simp]: "map_err g m = Inr x \<longleftrightarrow> m = Inr x"
  by (cases m) auto

text \<open>\<open>if ok { Ok(()) } else { Err(e) }\<close>\<close>

definition guard :: "bool \<Rightarrow> 'e \<Rightarrow> 'e + unit" where
  "guard ok e = (if ok then Inr () else Inl e)"

lemma guard_simps [simp, res_simps]:
  "guard True e = Inr ()"
  "guard False e = Inl e"
  by (simp_all add: guard_def)

lemma guard_eq_Inr [simp]: "guard ok e = Inr u \<longleftrightarrow> ok"
  by (simp add: guard_def)

text \<open>Collecting an iterator of results: the first error stops it.\<close>

fun map_res :: "('a \<Rightarrow> 'e + 'b) \<Rightarrow> 'a list \<Rightarrow> 'e + 'b list" where
  "map_res f [] = Inr []"
| "map_res f (x # xs) = res_bind (f x) (\<lambda>y. res_bind (map_res f xs) (\<lambda>ys. Inr (y # ys)))"

lemma map_res_cong [fundef_cong]:
  "xs = ys \<Longrightarrow> (\<And>x. x \<in> set ys \<Longrightarrow> f x = g x) \<Longrightarrow> map_res f xs = map_res g ys"
  by (induction ys arbitrary: xs) (auto intro!: res_bind_cong)

lemma map_res_Inr:
  "map_res f xs = Inr ys \<longleftrightarrow> list_all2 (\<lambda>x y. f x = Inr y) xs ys"
  by (induction xs arbitrary: ys) (auto simp: list_all2_Cons1 list_all2_Cons2)

lemma map_res_length: "map_res f xs = Inr ys \<Longrightarrow> length ys = length xs"
  by (auto simp: map_res_Inr dest: list_all2_lengthD)

fun each_res :: "('a \<Rightarrow> 'e + unit) \<Rightarrow> 'a list \<Rightarrow> 'e + unit" where
  "each_res f [] = Inr ()"
| "each_res f (x # xs) = res_bind (f x) (\<lambda>_. each_res f xs)"

lemma each_res_Inr [simp]: "each_res f xs = Inr u \<longleftrightarrow> (\<forall>x \<in> set xs. f x = Inr ())"
  by (induction xs) auto

lemma each_res_cong [fundef_cong]:
  "xs = ys \<Longrightarrow> (\<And>x. x \<in> set ys \<Longrightarrow> f x = g x) \<Longrightarrow> each_res f xs = each_res g ys"
  by (induction ys arbitrary: xs) (auto intro!: res_bind_cong)

section \<open>Bytes\<close>

definition byte :: "char \<Rightarrow> nat" where
  "byte c = of_char c"

definition is_ascii :: "char \<Rightarrow> bool" where
  "is_ascii c \<longleftrightarrow> byte c < 128"

definition is_digit :: "char \<Rightarrow> bool" where
  "is_digit c \<longleftrightarrow> 48 \<le> byte c \<and> byte c \<le> 57"

definition is_lower :: "char \<Rightarrow> bool" where
  "is_lower c \<longleftrightarrow> 97 \<le> byte c \<and> byte c \<le> 122"

definition is_upper :: "char \<Rightarrow> bool" where
  "is_upper c \<longleftrightarrow> 65 \<le> byte c \<and> byte c \<le> 90"

definition is_alpha :: "char \<Rightarrow> bool" where
  "is_alpha c \<longleftrightarrow> is_lower c \<or> is_upper c"

definition is_alnum :: "char \<Rightarrow> bool" where
  "is_alnum c \<longleftrightarrow> is_alpha c \<or> is_digit c"

text \<open>Continuation bytes of UTF-8, \<open>10xxxxxx\<close>.\<close>

definition is_cont :: "char \<Rightarrow> bool" where
  "is_cont c \<longleftrightarrow> 128 \<le> byte c \<and> byte c < 192"

lemmas byte_class_defs =
  byte_def is_ascii_def is_digit_def is_lower_def is_upper_def is_alpha_def is_alnum_def is_cont_def

definition ascii_lower_char :: "char \<Rightarrow> char" where
  "ascii_lower_char c = (if is_upper c then char_of (byte c + 32) else c)"

definition ascii_upper_char :: "char \<Rightarrow> char" where
  "ascii_upper_char c = (if is_lower c then char_of (byte c - 32) else c)"

definition to_ascii_lowercase :: "bytes \<Rightarrow> bytes" where
  "to_ascii_lowercase s = map ascii_lower_char s"

definition to_ascii_uppercase :: "bytes \<Rightarrow> bytes" where
  "to_ascii_uppercase s = map ascii_upper_char s"

lemma byte_inject [byte_simps]: "byte c = byte d \<longleftrightarrow> c = d"
  by (auto simp: byte_def)

lemma byte_less [simp, byte_simps]: "byte c < 256"
  by (simp add: byte_def)

text \<open>The quote characters, which have no literal of their own here.\<close>

abbreviation SQ :: char where "SQ \<equiv> CHR 0x27"
abbreviation DQ :: char where "DQ \<equiv> CHR 0x22"
abbreviation BSLASH :: char where "BSLASH \<equiv> CHR 0x5C"
abbreviation NUL :: char where "NUL \<equiv> CHR 0x00"

text \<open>\<open>'x'\<close> in a message.\<close>

definition sq :: "bytes \<Rightarrow> bytes" where
  "sq s = SQ # s @ [SQ]"

section \<open>Prefixes, suffixes and searches\<close>

fun strip_prefix :: "bytes \<Rightarrow> bytes \<Rightarrow> bytes option" where
  "strip_prefix [] s = Some s"
| "strip_prefix (p # ps) [] = None"
| "strip_prefix (p # ps) (c # cs) = (if p = c then strip_prefix ps cs else None)"

definition starts_with :: "bytes \<Rightarrow> bytes \<Rightarrow> bool" where
  "starts_with s p \<longleftrightarrow> strip_prefix p s \<noteq> None"

definition strip_suffix :: "bytes \<Rightarrow> bytes \<Rightarrow> bytes option" where
  "strip_suffix p s = map_option rev (strip_prefix (rev p) (rev s))"

definition ends_with :: "bytes \<Rightarrow> bytes \<Rightarrow> bool" where
  "ends_with s p \<longleftrightarrow> strip_suffix p s \<noteq> None"

lemma strip_prefix_Some [simp]: "strip_prefix p s = Some r \<longleftrightarrow> s = p @ r"
  by (induction p s rule: strip_prefix.induct) auto

lemma strip_prefix_None: "strip_prefix p s = None \<longleftrightarrow> (\<forall>r. s \<noteq> p @ r)"
  using strip_prefix_Some [of p s] by (cases "strip_prefix p s") auto

lemma starts_with_iff: "starts_with s p \<longleftrightarrow> (\<exists>r. s = p @ r)"
  by (auto simp: starts_with_def)

lemma strip_suffix_Some [simp]: "strip_suffix p s = Some r \<longleftrightarrow> s = r @ p"
proof -
  have "strip_suffix p s = Some r \<longleftrightarrow> (\<exists>z. rev s = rev p @ z \<and> rev z = r)"
    by (auto simp: strip_suffix_def)
  also have "\<dots> \<longleftrightarrow> s = r @ p"
    by (metis append_Nil rev_append rev_rev_ident)
  finally show ?thesis .
qed

lemma strip_prefix_append [simp]: "strip_prefix p (p @ r) = Some r"
  by simp

lemma strip_suffix_append [simp]: "strip_suffix p (r @ p) = Some r"
  by simp

lemma strip_suffix_None: "strip_suffix p s = None \<longleftrightarrow> (\<forall>r. s \<noteq> r @ p)"
  using strip_suffix_Some [of p s] by (cases "strip_suffix p s") auto

lemma ends_with_iff: "ends_with s p \<longleftrightarrow> (\<exists>r. s = r @ p)"
  by (auto simp: ends_with_def)

text \<open>\<open>s.find(pat)\<close>: the text before the first occurrence and the text after it.\<close>

fun find_sub :: "bytes \<Rightarrow> bytes \<Rightarrow> (bytes \<times> bytes) option" where
  "find_sub pat [] = (if pat = [] then Some ([], []) else None)"
| "find_sub pat (c # cs) =
     (case strip_prefix pat (c # cs) of
        Some r \<Rightarrow> Some ([], r)
      | None \<Rightarrow> map_option (\<lambda>(b, a). (c # b, a)) (find_sub pat cs))"

lemma find_sub_Some: "find_sub pat s = Some (b, a) \<Longrightarrow> s = b @ pat @ a"
  by (induction s arbitrary: b) (auto split: if_splits option.splits)

lemma find_sub_None: "find_sub pat s = None \<longleftrightarrow> (\<forall>b a. s \<noteq> b @ pat @ a)"
proof (induction s)
  case Nil
  then show ?case by auto
next
  case (Cons c s)
  have "(\<forall>b a. c # s \<noteq> b @ pat @ a) \<longleftrightarrow>
      (\<forall>a. c # s \<noteq> pat @ a) \<and> (\<forall>b a. s \<noteq> b @ pat @ a)"
    by (metis append_Cons append_Nil list.inject neq_Nil_conv)
  with Cons.IH show ?case
    by (auto simp: strip_prefix_None split: option.splits)
qed

definition contains_sub :: "bytes \<Rightarrow> bytes \<Rightarrow> bool" where
  "contains_sub s pat \<longleftrightarrow> find_sub pat s \<noteq> None"

lemma contains_sub_iff: "contains_sub s pat \<longleftrightarrow> (\<exists>b a. s = b @ pat @ a)"
  by (auto simp: contains_sub_def find_sub_None)

text \<open>\<open>xs.join(sep)\<close>\<close>

fun join :: "bytes \<Rightarrow> bytes list \<Rightarrow> bytes" where
  "join sep [] = []"
| "join sep [x] = x"
| "join sep (x # y # ys) = x @ sep @ join sep (y # ys)"

text \<open>\<open>s.replace(c, r)\<close> for a one-character pattern.\<close>

definition replace_char :: "char \<Rightarrow> bytes \<Rightarrow> bytes \<Rightarrow> bytes" where
  "replace_char c r s = concat (map (\<lambda>x. if x = c then r else [x]) s)"

lemma replace_char_Nil [simp]: "replace_char c r [] = []"
  by (simp add: replace_char_def)

lemma replace_char_Cons [simp]:
  "replace_char c r (x # xs) = (if x = c then r else [x]) @ replace_char c r xs"
  by (simp add: replace_char_def)

section \<open>The chars() view\<close>

function utf8_chars :: "bytes \<Rightarrow> bytes list" where
  "utf8_chars [] = []"
| "utf8_chars (c # cs) = (c # takeWhile is_cont cs) # utf8_chars (dropWhile is_cont cs)"
  by pat_completeness auto
termination
  by (relation "measure length") (auto intro: le_imp_less_Suc length_dropWhile_le)

lemma concat_utf8_chars [simp]: "concat (utf8_chars s) = s"
  by (induction s rule: utf8_chars.induct) auto

text \<open>The code points with the property \<open>White_Space\<close>, each as its UTF-8 bytes.\<close>

definition white_space :: "bytes list" where
  "white_space =
     map (\<lambda>n. [char_of (n :: nat)]) [9, 10, 11, 12, 13, 32] @
     map (\<lambda>n. [char_of (194 :: nat), char_of (n :: nat)]) [133, 160] @
     [map char_of [225 :: nat, 154, 128]] @
     map (\<lambda>n. map char_of [226, 128, n :: nat]) ([128..<139] @ [168, 169, 175]) @
     [map char_of [226 :: nat, 129, 159], map char_of [227 :: nat, 128, 128]]"

definition is_ws :: "bytes \<Rightarrow> bool" where
  "is_ws ch \<longleftrightarrow> ch \<in> set white_space"

definition trim_start :: "bytes \<Rightarrow> bytes" where
  "trim_start s = concat (dropWhile is_ws (utf8_chars s))"

definition trim :: "bytes \<Rightarrow> bytes" where
  "trim s = concat (rev (dropWhile is_ws (rev (dropWhile is_ws (utf8_chars s)))))"

fun words_of :: "bytes list \<Rightarrow> bytes \<Rightarrow> bytes list" where
  "words_of [] cur = (if cur = [] then [] else [cur])"
| "words_of (ch # chs) cur =
     (if is_ws ch then (if cur = [] then words_of chs [] else cur # words_of chs [])
      else words_of chs (cur @ ch))"

definition split_whitespace :: "bytes \<Rightarrow> bytes list" where
  "split_whitespace s = words_of (utf8_chars s) []"

lemma length_concat_dropWhile_le: "length (concat (dropWhile P xss)) \<le> length (concat xss)"
  by (induction xss) auto

lemma length_trim_start_le: "length (trim_start s) \<le> length s"
  using length_concat_dropWhile_le [of is_ws "utf8_chars s"] by (simp add: trim_start_def)

lemma words_of_nonempty: "w \<in> set (words_of chs cur) \<Longrightarrow> [] \<notin> set chs \<Longrightarrow> w \<noteq> []"
  by (induction chs arbitrary: cur) (auto split: if_splits)

lemma utf8_chars_nonempty: "[] \<notin> set (utf8_chars s)"
  by (induction s rule: utf8_chars.induct) auto

lemma split_whitespace_nonempty: "w \<in> set (split_whitespace s) \<Longrightarrow> w \<noteq> []"
  unfolding split_whitespace_def using words_of_nonempty utf8_chars_nonempty by blast

section \<open>Decimal numbers\<close>

definition digit_char :: "nat \<Rightarrow> char" where
  "digit_char d = char_of (48 + d)"

function show_nat :: "nat \<Rightarrow> bytes" where
  "show_nat n = (if n < 10 then [digit_char n] else show_nat (n div 10) @ [digit_char (n mod 10)])"
  by pat_completeness auto
termination
  by (relation "measure id") auto

declare show_nat.simps [simp del]

lemma is_digit_digit_char: "d < 10 \<Longrightarrow> is_digit (digit_char d)"
  by (simp add: is_digit_def digit_char_def byte_def of_char_of)

lemma show_nat_digits: "c \<in> set (show_nat n) \<Longrightarrow> is_digit c"
proof (induction n rule: show_nat.induct)
  case (1 n)
  then show ?case
    by (subst (asm) (2) show_nat.simps) (auto simp: is_digit_digit_char split: if_splits)
qed

lemma show_nat_nonempty: "show_nat n \<noteq> []"
  by (subst show_nat.simps) simp

definition digit_val :: "char \<Rightarrow> nat" where
  "digit_val c = byte c - 48"

fun read_digits :: "nat \<Rightarrow> bytes \<Rightarrow> nat" where
  "read_digits acc [] = acc"
| "read_digits acc (c # cs) = read_digits (10 * acc + digit_val c) cs"

lemma read_digits_append: "read_digits acc (s @ t) = read_digits (read_digits acc s) t"
  by (induction s arbitrary: acc) auto

lemma digit_val_digit_char: "d < 10 \<Longrightarrow> digit_val (digit_char d) = d"
  by (simp add: digit_val_def digit_char_def byte_def of_char_of)

lemma read_show_nat: "read_digits 0 (show_nat n) = n"
proof (induction n rule: show_nat.induct)
  case (1 n)
  show ?case
  proof (cases "n < 10")
    case True
    then show ?thesis by (subst show_nat.simps) (simp add: digit_val_digit_char)
  next
    case False
    with "1.IH" have "read_digits 0 (show_nat (n div 10)) = n div 10" by simp
    with False show ?thesis
      by (subst show_nat.simps) (simp add: read_digits_append digit_val_digit_char)
  qed
qed

section \<open>Insertion into a set kept as a list\<close>

text \<open>\<open>HashSet::insert\<close> on a set kept in insertion order.\<close>

definition set_insert :: "'a \<Rightarrow> 'a list \<Rightarrow> 'a list" where
  "set_insert x xs = (if x \<in> set xs then xs else xs @ [x])"

lemma set_set_insert [simp]: "set (set_insert x xs) = insert x (set xs)"
  by (auto simp: set_insert_def)

lemma distinct_set_insert [simp]: "distinct (set_insert x xs) = distinct xs"
  by (auto simp: set_insert_def)

section \<open>Byte order\<close>

text \<open>\<open>sort_unstable\<close> on strings orders them by their bytes.\<close>

fun bytes_le :: "bytes \<Rightarrow> bytes \<Rightarrow> bool" where
  "bytes_le [] _ = True"
| "bytes_le (x # xs) [] = False"
| "bytes_le (x # xs) (y # ys) = (byte x < byte y \<or> (x = y \<and> bytes_le xs ys))"

fun sort_insert :: "bytes \<Rightarrow> bytes list \<Rightarrow> bytes list" where
  "sort_insert x [] = [x]"
| "sort_insert x (y # ys) = (if bytes_le x y then x # y # ys else y # sort_insert x ys)"

definition sort_unstable :: "bytes list \<Rightarrow> bytes list" where
  "sort_unstable xs = foldr sort_insert xs []"

lemma set_sort_insert [simp]: "set (sort_insert x ys) = insert x (set ys)"
  by (induction ys) auto

lemma set_sort_unstable [simp]: "set (sort_unstable xs) = set xs"
  by (induction xs) (auto simp: sort_unstable_def)

lemma bytes_le_refl [simp]: "bytes_le x x"
  by (induction x) auto

lemma bytes_le_total: "bytes_le x y \<or> bytes_le y x"
  by (induction x y rule: bytes_le.induct) (auto simp: byte_inject [symmetric])

lemma bytes_le_trans: "bytes_le x y \<Longrightarrow> bytes_le y z \<Longrightarrow> bytes_le x z"
proof (induction x y arbitrary: z rule: bytes_le.induct)
  case (3 x xs y ys)
  then show ?case by (cases z) auto
qed auto

lemma bytes_le_antisym: "bytes_le x y \<Longrightarrow> bytes_le y x \<Longrightarrow> x = y"
  by (induction x y rule: bytes_le.induct) (auto elim: bytes_le.elims)

lemma sorted_sort_insert:
  "sorted_wrt bytes_le ys \<Longrightarrow> sorted_wrt bytes_le (sort_insert x ys)"
proof (induction ys)
  case (Cons y ys)
  then show ?case
    using bytes_le_total [of x y] by (auto intro: bytes_le_trans)
qed auto

lemma sorted_sort_unstable: "sorted_wrt bytes_le (sort_unstable xs)"
  by (induction xs) (auto simp: sort_unstable_def intro: sorted_sort_insert)

definition bytes_less :: "bytes \<Rightarrow> bytes \<Rightarrow> bool" where
  "bytes_less x y \<longleftrightarrow> \<not> bytes_le y x"

lemma bytes_less_irrefl [simp]: "\<not> bytes_less x x"
  by (simp add: bytes_less_def)

lemma bytes_less_trans: "bytes_less x y \<Longrightarrow> bytes_less y z \<Longrightarrow> bytes_less x z"
  unfolding bytes_less_def using bytes_le_trans bytes_le_total by blast

lemma bytes_less_total: "bytes_less x y \<or> x = y \<or> bytes_less y x"
  unfolding bytes_less_def using bytes_le_antisym by blast

lemma sorted_distinct_unique:
  assumes "sorted_wrt bytes_le xs" "sorted_wrt bytes_le ys" "distinct xs" "distinct ys" "set xs = set ys"
  shows "xs = ys"
  using assms
proof (induction xs arbitrary: ys)
  case (Cons x xs)
  then obtain y ys' where y: "ys = y # ys'" by (cases ys) auto
  have "bytes_le x y" using Cons.prems y by (metis bytes_le_refl list.set_intros(1) set_ConsD sorted_wrt.simps(2))
  moreover have "bytes_le y x" using Cons.prems y by (metis bytes_le_refl list.set_intros(1) set_ConsD sorted_wrt.simps(2))
  ultimately have "x = y" by (rule bytes_le_antisym)
  moreover have "xs = ys'"
    using Cons.prems y \<open>x = y\<close> by (intro Cons.IH) auto
  ultimately show ?case using y by simp
qed simp

lemma distinct_sort_insert: "distinct (sort_insert x ys) \<longleftrightarrow> x \<notin> set ys \<and> distinct ys"
  by (induction ys) auto

lemma distinct_sort_unstable [simp]: "distinct (sort_unstable xs) = distinct xs"
  by (induction xs) (auto simp: sort_unstable_def distinct_sort_insert set_sort_unstable [unfolded sort_unstable_def])

lemma sort_unstable_cong: "distinct xs \<Longrightarrow> distinct ys \<Longrightarrow> set xs = set ys \<Longrightarrow> sort_unstable xs = sort_unstable ys"
  by (intro sorted_distinct_unique) (auto simp: sorted_sort_unstable)

section \<open>Hash maps\<close>

text \<open>
  A \<open>HashMap\<close> is an association list with distinct keys in the order its iterator yields;
  \<open>insert\<close> overwrites in place, so every order is reached by some list.
\<close>

fun map_insert :: "'k \<Rightarrow> 'v \<Rightarrow> ('k \<times> 'v) list \<Rightarrow> ('k \<times> 'v) list" where
  "map_insert k v [] = [(k, v)]"
| "map_insert k v ((k', v') # m) = (if k = k' then (k, v) # m else (k', v') # map_insert k v m)"

text \<open>\<open>extend\<close> and \<open>collect\<close>: a later entry overwrites an earlier one.\<close>

definition map_extend :: "('k \<times> 'v) list \<Rightarrow> ('k \<times> 'v) list \<Rightarrow> ('k \<times> 'v) list" where
  "map_extend m kvs = fold (\<lambda>(k, v). map_insert k v) kvs m"

lemma map_of_map_insert [simp]: "map_of (map_insert k v m) = (map_of m)(k \<mapsto> v)"
  by (induction m rule: map_insert.induct) (auto simp: fun_eq_iff)

lemma keys_map_insert [simp]: "fst ` set (map_insert k v m) = insert k (fst ` set m)"
  by (induction k v m rule: map_insert.induct) auto

lemma distinct_map_insert: "distinct (map fst m) \<Longrightarrow> distinct (map fst (map_insert k v m))"
  by (induction k v m rule: map_insert.induct) auto

lemma map_of_map_extend: "map_of (map_extend m kvs) = map_of m ++ map_of (rev kvs)"
proof (induction kvs arbitrary: m)
  case (Cons kv kvs)
  then show ?case by (cases kv) (auto simp: map_extend_def fun_eq_iff map_add_def split: option.splits)
qed (simp add: map_extend_def)

lemma distinct_map_extend: "distinct (map fst m) \<Longrightarrow> distinct (map fst (map_extend m kvs))"
  unfolding map_extend_def by (induction kvs arbitrary: m) (auto intro: distinct_map_insert)

text \<open>\<open>unwrap_or\<close> on an option.\<close>

definition opt_default :: "'a \<Rightarrow> 'a option \<Rightarrow> 'a" where
  "opt_default d x = (case x of Some y \<Rightarrow> y | None \<Rightarrow> d)"

lemma opt_default_simps [simp]: "opt_default d None = d" "opt_default d (Some y) = y"
  by (simp_all add: opt_default_def)

section \<open>Chunks\<close>

function chunks :: "nat \<Rightarrow> 'a list \<Rightarrow> 'a list list" where
  "chunks n xs = (if n = 0 \<or> xs = [] then [] else take n xs # chunks n (drop n xs))"
  by pat_completeness auto
termination
  by (relation "measure (\<lambda>(n, xs). length xs)") auto

declare chunks.simps [simp del]

end
