(* ===== verification/Authority_Perms.thy ===== *)
theory Authority_Perms
  imports Prelude
begin

text \<open>
  Permission keys and role inheritance, from \<open>governance/authority/perms.rs\<close>:
  the wildcard match behind every gate (\<open>has_permission\<close>), the scope lattice behind
  delegation (\<open>meet\<close>, \<open>intersect_permissions\<close>), the expansion of assigned roles
  along the inheritance map (\<open>expand_roles\<close>) and the check that the map has no cycle
  (\<open>detect_cycle\<close>).

  A \<open>HashMap\<close> from role to parents is a list of pairs with distinct keys, in the order
  its iterator happens to yield; every theorem holds for every such list, hence for
  every iteration order.
\<close>

section \<open>Matching a key\<close>

definition key_matches :: "bytes \<Rightarrow> bytes \<Rightarrow> bool" where
  "key_matches p required \<longleftrightarrow>
     p = ''*'' \<or> p = required \<or>
     (case strip_suffix '':*'' p of
        Some prefix \<Rightarrow>
          starts_with required prefix \<and>
          length prefix < length required \<and> required ! length prefix = CHR '':''
      | None \<Rightarrow> False)"

definition has_permission :: "bytes list \<Rightarrow> bytes \<Rightarrow> bool" where
  "has_permission permissions required \<longleftrightarrow> (\<exists>p \<in> set permissions. key_matches p required)"

lemma key_matches_iff:
  "key_matches p r \<longleftrightarrow>
     p = ''*'' \<or> p = r \<or> (\<exists>pre rest. p = pre @ '':*'' \<and> r = pre @ '':'' @ rest)"
proof -
  have wild: "(case strip_suffix '':*'' p of
        Some prefix \<Rightarrow> starts_with r prefix \<and> length prefix < length r \<and> r ! length prefix = CHR '':''
      | None \<Rightarrow> False) \<longleftrightarrow> (\<exists>pre rest. p = pre @ '':*'' \<and> r = pre @ '':'' @ rest)"
  proof (cases "strip_suffix '':*'' p")
    case None
    then have "\<nexists>pre. p = pre @ '':*''" by (metis strip_suffix_None)
    with None show ?thesis by auto
  next
    case (Some pre)
    then have p: "p = pre @ '':*''" by simp
    have "starts_with r pre \<and> length pre < length r \<and> r ! length pre = CHR '':'' \<longleftrightarrow>
        (\<exists>rest. r = pre @ '':'' @ rest)"
      by (auto simp: starts_with_iff nth_append neq_Nil_conv)
    then show ?thesis unfolding p by simp
  qed
  show ?thesis unfolding key_matches_def wild by blast
qed

text \<open>Matching is a preorder: a wildcard that matches a wildcard matches all it matches.\<close>

lemma key_matches_refl [simp]: "key_matches p p"
  by (simp add: key_matches_def)

lemma key_matches_star [simp]: "key_matches ''*'' r"
  by (simp add: key_matches_def)

lemma key_matches_trans:
  assumes pq: "key_matches p q" and qr: "key_matches q r"
  shows "key_matches p r"
proof -
  consider "p = ''*''" | "p = q" | pre rest where "p = pre @ '':*''" "q = pre @ '':'' @ rest"
    using pq unfolding key_matches_iff by blast
  then show ?thesis
  proof cases
    case (3 pre rest)
    consider "q = ''*''" | "q = r" | pre2 rest2 where "q = pre2 @ '':*''" "r = pre2 @ '':'' @ rest2"
      using qr unfolding key_matches_iff by blast
    then show ?thesis
    proof cases
      case 1
      with \<open>q = pre @ '':'' @ rest\<close> have False
        by (cases pre) auto
      then show ?thesis ..
    next
      case 2
      with pq show ?thesis by simp
    next
      case (3 pre2 rest2)
      have eq: "pre @ '':'' @ rest = (pre2 @ '':'') @ ''*''"
        using \<open>q = pre @ '':'' @ rest\<close> \<open>q = pre2 @ '':*''\<close> by simp
      have "rest \<noteq> []"
      proof
        assume "rest = []"
        then have "last (pre @ '':'' @ rest) = CHR '':''" by simp
        then show False unfolding eq by simp
      qed
      then obtain rest' where "rest = rest' @ ''*''"
        using eq by (metis append_assoc append_butlast_last_id last_appendR last_snoc)
      with eq have "pre2 @ '':'' = pre @ '':'' @ rest'" by simp
      then have "r = pre @ '':'' @ rest' @ rest2"
        using \<open>r = pre2 @ '':'' @ rest2\<close> by (metis append_assoc)
      with \<open>p = pre @ '':*''\<close> show ?thesis unfolding key_matches_iff by blast
    qed
  qed (use qr in auto)
qed

lemma has_permission_simps [simp]:
  "has_permission [] r = False"
  "has_permission (p # ps) r = (key_matches p r \<or> has_permission ps r)"
  by (auto simp: has_permission_def)

lemma has_permission_member: "p \<in> set ps \<Longrightarrow> has_permission ps p"
  unfolding has_permission_def using key_matches_refl by blast

lemma has_permission_star: "''*'' \<in> set ps \<Longrightarrow> has_permission ps r"
  unfolding has_permission_def using key_matches_star by blast

lemma has_permission_mono:
  "has_permission ps q \<Longrightarrow> key_matches q r \<Longrightarrow> has_permission ps r"
  by (auto simp: has_permission_def intro: key_matches_trans)

lemma has_permission_subset: "set ps \<subseteq> set qs \<Longrightarrow> has_permission ps r \<Longrightarrow> has_permission qs r"
  by (auto simp: has_permission_def)

text \<open>
  The contract behind the anti-escalation check: wherever matching is a preorder on keys,
  comparing the keys of two holders one by one decides whether one may do all the other may.
\<close>

locale authority_order =
  fixes covers :: "'k \<Rightarrow> 'k \<Rightarrow> bool" and allows :: "'k list \<Rightarrow> 'k \<Rightarrow> bool"
  assumes covers_refl: "covers k k"
    and covers_trans: "covers j k \<Longrightarrow> covers k l \<Longrightarrow> covers j l"
    and allows_iff: "allows ks l \<longleftrightarrow> (\<exists>k \<in> set ks. covers k l)"
begin

lemma subset_check_complete:
  "(\<forall>k \<in> set lower. allows upper k) \<longleftrightarrow> (\<forall>l. allows lower l \<longrightarrow> allows upper l)"
proof
  assume all: "\<forall>k \<in> set lower. allows upper k"
  show "\<forall>l. allows lower l \<longrightarrow> allows upper l"
  proof (intro allI impI)
    fix l assume "allows lower l"
    then obtain k where k: "k \<in> set lower" "covers k l" by (auto simp: allows_iff)
    then obtain j where "j \<in> set upper" "covers j k" using all by (auto simp: allows_iff)
    then show "allows upper l" using k(2) covers_trans by (auto simp: allows_iff)
  qed
next
  assume "\<forall>l. allows lower l \<longrightarrow> allows upper l"
  then show "\<forall>k \<in> set lower. allows upper k" using covers_refl by (auto simp: allows_iff)
qed

end

interpretation permission_keys: authority_order key_matches has_permission
  by unfold_locales (auto simp: has_permission_def intro: key_matches_trans)

section \<open>Narrowing\<close>

abbreviation own_suffix :: bytes where "own_suffix \<equiv> ''.own''"
abbreviation shared_suffix :: bytes where "shared_suffix \<equiv> ''.shared''"

text \<open>\<open>key.rsplit_once('.')\<close>: the text before the last dot.\<close>

definition before_last_dot :: "bytes \<Rightarrow> bytes" where
  "before_last_dot key = rev (tl (dropWhile (\<lambda>c. c \<noteq> CHR ''.'') (rev key)))"

definition meet :: "bytes \<Rightarrow> bytes list \<Rightarrow> bytes option" where
  "meet key other =
     (if has_permission other key then Some key
      else if ends_with key own_suffix \<or> ends_with key shared_suffix then
        (let base = before_last_dot key in if has_permission other base then Some key else None)
      else
        (let scoped = key @ own_suffix in if has_permission other scoped then Some scoped else None))"

text \<open>\<open>dedup\<close> drops consecutive repetitions only; \<open>remdups_adj\<close> is exactly that.\<close>

definition intersect_permissions :: "bytes list \<Rightarrow> bytes list \<Rightarrow> bytes list" where
  "intersect_permissions a b =
     (if ''*'' \<in> set a then b
      else if ''*'' \<in> set b then a
      else remdups_adj (sort_unstable
             (List.map_filter (\<lambda>p. meet p b) a @ List.map_filter (\<lambda>p. meet p a) b)))"

lemma set_map_filter: "set (List.map_filter f xs) = {y. \<exists>x \<in> set xs. f x = Some y}"
  by (induction xs) (auto simp: List.map_filter_def split: option.splits)

lemma before_last_dot_own: "before_last_dot (base @ own_suffix) = base"
  by (simp add: before_last_dot_def)

lemma before_last_dot_shared: "before_last_dot (base @ shared_suffix) = base"
  by (simp add: before_last_dot_def)

text \<open>
  What a grant allows, with the scopes read as the comment of \<open>meet\<close> states them: \<open>Own\<close>
  and \<open>Shared\<close> lie below the unscoped key.
\<close>

definition within :: "bytes list \<Rightarrow> bytes \<Rightarrow> bool" where
  "within perms r \<longleftrightarrow>
     has_permission perms r \<or>
     (\<exists>base. (r = base @ own_suffix \<or> r = base @ shared_suffix) \<and> has_permission perms base)"

lemma meet_sound:
  assumes "meet key other = Some k"
  shows "within other k \<and> (k = key \<or> k = key @ own_suffix)"
  using assms
  by (auto simp: meet_def within_def Let_def ends_with_iff before_last_dot_own before_last_dot_shared
      split: if_splits)

lemma within_mono_key:
  assumes w: "within perms k" and k: "key_matches k r"
  shows "within perms r"
proof (cases "has_permission perms k")
  case True
  then show ?thesis using k has_permission_mono by (auto simp: within_def)
next
  case False
  then obtain base sfx where kb: "k = base @ sfx" "sfx = own_suffix \<or> sfx = shared_suffix"
    and base: "has_permission perms base"
    using w by (auto simp: within_def)
  have "k \<noteq> ''*''" "\<nexists>pre. k = pre @ '':*''"
    using kb by (auto dest: arg_cong [where f = last])
  with k have "k = r" unfolding key_matches_iff by blast
  with w show ?thesis by simp
qed

lemma withinI [intro]:
  "has_permission perms r \<Longrightarrow> within perms r"
  "has_permission perms base \<Longrightarrow> within perms (base @ own_suffix)"
  "has_permission perms base \<Longrightarrow> within perms (base @ shared_suffix)"
  by (auto simp: within_def)

lemma intersect_member:
  assumes "k \<in> set (intersect_permissions a b)"
  shows "within a k \<and> within b k"
proof -
  have scoped: "within ps k" if "p \<in> set ps" "meet p qs = Some k" for ps qs p
    using has_permission_member [OF that(1)] meet_sound [OF that(2)] by auto
  consider "''*'' \<in> set a" "k \<in> set b" | "''*'' \<in> set b" "k \<in> set a"
    | p where "p \<in> set a" "meet p b = Some k" | p where "p \<in> set b" "meet p a = Some k"
    using assms by (auto simp: intersect_permissions_def set_map_filter split: if_splits)
  then show ?thesis
  proof cases
    case 3
    then show ?thesis using scoped meet_sound by blast
  next
    case 4
    then show ?thesis using scoped meet_sound by blast
  qed (auto intro: has_permission_star has_permission_member)
qed

text \<open>
  Two keys that match the same permission are comparable: one of them matches the other.
\<close>

lemma key_matches_linear:
  assumes "key_matches p r" "key_matches q r"
  shows "key_matches p q \<or> key_matches q p"
proof -
  have wild: "key_matches p q \<or> key_matches q p"
    if pw: "p = pre @ '':*''" and qw: "q = pre' @ '':*''" and eq: "pre @ '':'' @ s = pre' @ '':'' @ s'" for pre pre' s s'
  proof -
    consider us where "pre = pre' @ us" | us where "pre' = pre @ us"
      using eq by (metis append_eq_append_conv2)
    then show ?thesis
    proof cases
      case 1
      show ?thesis
      proof (cases us)
        case Nil
        with 1 pw qw show ?thesis by simp
      next
        case (Cons c cs)
        then have "c = CHR '':''" using eq 1 by simp
        then have "p = pre' @ '':'' @ (cs @ '':*'')" using pw 1 Cons by simp
        with qw show ?thesis unfolding key_matches_iff by blast
      qed
    next
      case 2
      show ?thesis
      proof (cases us)
        case Nil
        with 2 pw qw show ?thesis by simp
      next
        case (Cons c cs)
        then have "c = CHR '':''" using eq 2 by simp
        then have "q = pre @ '':'' @ (cs @ '':*'')" using qw 2 Cons by simp
        with pw show ?thesis unfolding key_matches_iff by blast
      qed
    qed
  qed
  show ?thesis
    using assms wild unfolding key_matches_iff [of p r] key_matches_iff [of q r]
    by (metis assms key_matches_star)
qed

lemma meet_keeps: "has_permission other key \<Longrightarrow> meet key other = Some key"
  by (simp add: meet_def)

lemma intersect_complete:
  assumes "has_permission a r" "has_permission b r"
  shows "has_permission (intersect_permissions a b) r"
proof -
  obtain p q where p: "p \<in> set a" "key_matches p r" and q: "q \<in> set b" "key_matches q r"
    using assms by (auto simp: has_permission_def)
  show ?thesis
  proof (cases "''*'' \<in> set a \<or> ''*'' \<in> set b")
    case True
    then show ?thesis using assms by (auto simp: intersect_permissions_def)
  next
    case False
    have mem: "k \<in> set (intersect_permissions a b)"
      if "(\<exists>x \<in> set a. meet x b = Some k) \<or> (\<exists>x \<in> set b. meet x a = Some k)" for k
      using that False by (auto simp: intersect_permissions_def set_map_filter)
    have "p \<in> set (intersect_permissions a b) \<or> q \<in> set (intersect_permissions a b)"
      using key_matches_linear [OF p(2) q(2)] p q mem meet_keeps
      by (metis has_permission_def)
    then show ?thesis using p q unfolding has_permission_def by blast
  qed
qed

lemma within_subset: "set ps \<subseteq> set qs \<Longrightarrow> within ps r \<Longrightarrow> within qs r"
  unfolding within_def using has_permission_subset by blast

lemma intersect_sound:
  assumes "has_permission (intersect_permissions a b) r"
  shows "within a r \<and> within b r"
proof -
  obtain k where "k \<in> set (intersect_permissions a b)" "key_matches k r"
    using assms by (auto simp: has_permission_def)
  then show ?thesis using intersect_member within_mono_key by blast
qed

text \<open>Along a chain of delegations keys may be narrowed several times: \<open>covered\<close> allows any number
  of scope suffixes. On a key without one it is \<open>has_permission\<close>.\<close>

definition covered :: "bytes list \<Rightarrow> bytes \<Rightarrow> bool" where
  "covered perms k \<longleftrightarrow>
     (\<exists>base sfx. k = base @ concat sfx \<and> set sfx \<subseteq> {own_suffix, shared_suffix} \<and> has_permission perms base)"

lemma coveredI: "has_permission perms k \<Longrightarrow> covered perms k"
  unfolding covered_def by (intro exI [of _ k] exI [of _ "[]"]) simp

lemma within_covered: "within perms k \<Longrightarrow> covered perms k"
proof -
  have "covered perms (base @ sfx)" if "has_permission perms base" "sfx = own_suffix \<or> sfx = shared_suffix" for base sfx
    unfolding covered_def using that by (intro exI [of _ base] exI [of _ "[sfx]"]) auto
  then show "within perms k \<Longrightarrow> covered perms k" by (auto simp: within_def intro: coveredI)
qed

lemma covered_suffix:
  assumes "covered perms base" "set sfx \<subseteq> {own_suffix, shared_suffix}"
  shows "covered perms (base @ concat sfx)"
proof -
  obtain b s where "base = b @ concat s" "set s \<subseteq> {own_suffix, shared_suffix}" "has_permission perms b"
    using assms(1) by (auto simp: covered_def)
  then show ?thesis unfolding covered_def using assms(2)
    by (intro exI [of _ b] exI [of _ "s @ sfx"]) auto
qed

lemma covered_intersect:
  assumes "covered (intersect_permissions a b) k"
  shows "covered a k \<and> covered b k"
proof -
  obtain base sfx where k: "k = base @ concat sfx" "set sfx \<subseteq> {own_suffix, shared_suffix}"
    and base: "has_permission (intersect_permissions a b) base"
    using assms by (auto simp: covered_def)
  show ?thesis using intersect_sound [OF base] within_covered covered_suffix k by blast
qed

lemma covered_subset: "set ps \<subseteq> set qs \<Longrightarrow> covered ps k \<Longrightarrow> covered qs k"
  unfolding covered_def using has_permission_subset by blast

lemma covered_plain:
  assumes "\<not> ends_with k own_suffix" "\<not> ends_with k shared_suffix"
  shows "covered perms k \<longleftrightarrow> has_permission perms k"
proof
  assume "covered perms k"
  then obtain base sfx where k: "k = base @ concat sfx" "set sfx \<subseteq> {own_suffix, shared_suffix}" "has_permission perms base"
    by (auto simp: covered_def)
  have "sfx = []"
  proof (cases sfx rule: rev_cases)
    case (snoc xs x)
    then have "x = own_suffix \<or> x = shared_suffix" "k = (base @ concat xs) @ x" using k by auto
    then show ?thesis using assms by (metis ends_with_iff)
  qed
  with k show "has_permission perms k" by simp
qed (rule coveredI)

lemma meet_covers:
  assumes "within perms key" and "\<not> has_permission perms key"
  shows "meet key perms = Some key"
  using assms
  by (auto simp: within_def meet_def Let_def ends_with_iff before_last_dot_own before_last_dot_shared)

section \<open>Role expansion\<close>

type_synonym role_map = "(bytes \<times> bytes list) list"

definition MAX_ROLE_DEPTH :: nat where "MAX_ROLE_DEPTH = 64"

definition parents_of :: "role_map \<Rightarrow> bytes \<Rightarrow> bytes list" where
  "parents_of rm r = (case map_of rm r of Some ps \<Rightarrow> ps | None \<Rightarrow> [])"

text \<open>
  The stack has its top first. \<open>budget\<close> is \<open>MAX_ROLE_DEPTH - depth\<close>: the source counts
  every pop and breaks out of the loop when the count passes the limit.
\<close>

fun expand_loop :: "nat \<Rightarrow> role_map \<Rightarrow> bytes list \<Rightarrow> bytes list \<Rightarrow> bytes list" where
  "expand_loop budget rm [] expanded = expanded"
| "expand_loop 0 rm (role # stack) expanded = expanded"
| "expand_loop (Suc budget) rm (role # stack) expanded =
     (if role \<in> set expanded then expand_loop budget rm stack expanded
      else
        (let expanded' = expanded @ [role];
             pushed = filter (\<lambda>p. p \<notin> set expanded') (parents_of rm role)
         in expand_loop budget rm (rev pushed @ stack) expanded'))"

definition expand_roles :: "bytes list \<Rightarrow> role_map \<Rightarrow> bytes list" where
  "expand_roles assigned rm = expand_loop MAX_ROLE_DEPTH rm (rev assigned) []"

text \<open>The inheritance relation, and the roles it gives.\<close>

definition inherits :: "role_map \<Rightarrow> (bytes \<times> bytes) set" where
  "inherits rm = {(r, p). p \<in> set (parents_of rm r)}"

definition granted_roles :: "role_map \<Rightarrow> bytes list \<Rightarrow> bytes set" where
  "granted_roles rm assigned = (inherits rm)\<^sup>* `` set assigned"

lemma parents_of_mem: "p \<in> set (parents_of rm r) \<Longrightarrow> \<exists>ps. (r, ps) \<in> set rm \<and> p \<in> set ps"
  by (cases "map_of rm r") (auto simp: parents_of_def dest: map_of_SomeD)

lemma expand_loop_sound:
  "set (expand_loop n rm stack ex) \<subseteq> set ex \<union> (inherits rm)\<^sup>* `` set stack"
proof (induction n rm stack ex rule: expand_loop.induct)
  case (3 n rm role stack ex)
  show ?case
  proof (cases "role \<in> set ex")
    case True
    with 3(1) show ?thesis by auto
  next
    case False
    let ?ex = "ex @ [role]"
    let ?st = "rev (filter (\<lambda>p. p \<notin> set ?ex) (parents_of rm role)) @ stack"
    have "set (expand_loop n rm ?st ?ex) \<subseteq> set ?ex \<union> (inherits rm)\<^sup>* `` set ?st"
      using 3(2) [OF False refl refl] by simp
    moreover have "(inherits rm)\<^sup>* `` set ?st \<subseteq> (inherits rm)\<^sup>* `` set (role # stack)"
      by (auto simp: inherits_def intro: converse_rtrancl_into_rtrancl)
    ultimately show ?thesis using False by (auto simp: Let_def)
  qed
qed auto

lemma expand_loop_distinct: "distinct ex \<Longrightarrow> distinct (expand_loop n rm stack ex)"
  by (induction n rm stack ex rule: expand_loop.induct) (auto simp: Let_def)

lemma expand_loop_length: "length (expand_loop n rm stack ex) \<le> length ex + n"
  by (induction n rm stack ex rule: expand_loop.induct) (auto simp: Let_def le_SucI)

text \<open>
  The pops the loop may need: one for every stack entry and one for every inheritance
  edge of a role not yet expanded.
\<close>

definition edges_left :: "role_map \<Rightarrow> bytes list \<Rightarrow> nat" where
  "edges_left rm ex = sum_list (map (\<lambda>(r, ps). if r \<in> set ex then 0 else length ps) rm)"

lemma edges_left_mono: "edges_left rm (ex @ [role]) \<le> edges_left rm ex"
  by (induction rm) (auto simp: edges_left_def)

lemma edges_left_step:
  assumes "role \<notin> set ex"
  shows "length (parents_of rm role) + edges_left rm (ex @ [role]) \<le> edges_left rm ex"
proof (cases "map_of rm role")
  case None
  then show ?thesis using edges_left_mono by (simp add: parents_of_def)
next
  case (Some ps)
  then have "length ps + edges_left rm (ex @ [role]) \<le> edges_left rm ex"
  proof (induction rm)
    case (Cons e rm)
    obtain r qs where e: "e = (r, qs)" by force
    show ?case
    proof (cases "r = role")
      case True
      then have "qs = ps" using Cons.prems e by simp
      then show ?thesis
        using True e assms edges_left_mono [of rm ex role] by (simp add: edges_left_def)
    next
      case False
      then have "length ps + edges_left rm (ex @ [role]) \<le> edges_left rm ex"
        using Cons.prems e Cons.IH by simp
      then show ?thesis using False e by (simp add: edges_left_def)
    qed
  qed simp
  with Some show ?thesis by (simp add: parents_of_def)
qed

lemma expand_loop_closed:
  assumes "length stack + edges_left rm ex \<le> n"
    and "\<forall>r \<in> set ex. set (parents_of rm r) \<subseteq> set ex \<union> set stack"
  shows "set ex \<union> set stack \<subseteq> set (expand_loop n rm stack ex) \<and>
    (\<forall>r \<in> set (expand_loop n rm stack ex).
       set (parents_of rm r) \<subseteq> set (expand_loop n rm stack ex))"
  using assms
proof (induction n rm stack ex rule: expand_loop.induct)
  case (3 n rm role stack ex)
  show ?case
  proof (cases "role \<in> set ex")
    case True
    have "length stack + edges_left rm ex \<le> n" using "3.prems"(1) by simp
    moreover have "\<forall>r \<in> set ex. set (parents_of rm r) \<subseteq> set ex \<union> set stack"
      using "3.prems"(2) True by auto
    ultimately show ?thesis using "3.IH"(1) [OF True] True by auto
  next
    case False
    let ?ex = "ex @ [role]"
    let ?st = "rev (filter (\<lambda>p. p \<notin> set ?ex) (parents_of rm role)) @ stack"
    have "length (filter (\<lambda>p. p \<notin> set ?ex) (parents_of rm role)) \<le> length (parents_of rm role)"
      by simp
    moreover have "length stack + edges_left rm ex \<le> n" using "3.prems"(1) by simp
    ultimately have "length ?st + edges_left rm ?ex \<le> n"
      using edges_left_step [OF False, of rm] unfolding length_append length_rev by linarith
    moreover have "\<forall>r \<in> set ?ex. set (parents_of rm r) \<subseteq> set ?ex \<union> set ?st"
      using "3.prems"(2) by auto
    ultimately show ?thesis
      using "3.IH"(2) [OF False refl refl] False by (auto simp: Let_def)
  qed
qed auto

lemma closed_contains_reachable:
  assumes "(x, y) \<in> (inherits rm)\<^sup>*" and "x \<in> X" and "\<And>r. r \<in> X \<Longrightarrow> set (parents_of rm r) \<subseteq> X"
  shows "y \<in> X"
  using assms(1,2)
  by (induction rule: rtrancl_induct) (use assms(3) in \<open>auto simp: inherits_def\<close>)

section \<open>Cycle detection\<close>

text \<open>
  \<open>dfs_cycle\<close> and its loop over the parents. \<open>visited\<close> and \<open>in_stack\<close> are the two mutable
  sets; the result carries them out. \<open>fuel\<close> bounds the recursion depth: every nested call
  visits a role not visited before, so the number of roles named in the map is enough.
  Running out of it is the outer \<open>None\<close>.
\<close>

type_synonym dfs_result = "(bytes option \<times> bytes list \<times> bytes list) option"

fun dfs_cycle :: "nat \<Rightarrow> role_map \<Rightarrow> bytes \<Rightarrow> bytes list \<Rightarrow> bytes list \<Rightarrow> dfs_result"
and dfs_parents :: "nat \<Rightarrow> role_map \<Rightarrow> bytes list \<Rightarrow> bytes list \<Rightarrow> bytes list \<Rightarrow> dfs_result" where
  "dfs_cycle 0 rm node visited in_stack = None"
| "dfs_cycle (Suc fuel) rm node visited in_stack =
     (case dfs_parents fuel rm (parents_of rm node) (set_insert node visited) (set_insert node in_stack) of
        None \<Rightarrow> None
      | Some (Some cycle, v, s) \<Rightarrow> Some (Some cycle, v, s)
      | Some (None, v, s) \<Rightarrow> Some (None, v, removeAll node s))"
| "dfs_parents fuel rm [] visited in_stack = Some (None, visited, in_stack)"
| "dfs_parents fuel rm (parent # parents) visited in_stack =
     (if parent \<in> set in_stack then Some (Some parent, visited, in_stack)
      else if parent \<notin> set visited then
        (case dfs_cycle fuel rm parent visited in_stack of
           None \<Rightarrow> None
         | Some (Some cycle, v, s) \<Rightarrow> Some (Some cycle, v, s)
         | Some (None, v, s) \<Rightarrow> dfs_parents fuel rm parents v s)
      else dfs_parents fuel rm parents visited in_stack)"

fun detect_loop :: "nat \<Rightarrow> role_map \<Rightarrow> bytes list \<Rightarrow> bytes list \<Rightarrow> bytes list \<Rightarrow> bytes option option" where
  "detect_loop fuel rm [] visited in_stack = Some None"
| "detect_loop fuel rm (role # roles) visited in_stack =
     (if role \<notin> set visited then
        (case dfs_cycle fuel rm role visited in_stack of
           None \<Rightarrow> None
         | Some (Some cycle, _, _) \<Rightarrow> Some (Some cycle)
         | Some (None, v, s) \<Rightarrow> detect_loop fuel rm roles v s)
      else detect_loop fuel rm roles visited in_stack)"

definition all_roles :: "role_map \<Rightarrow> bytes list" where
  "all_roles rm = remdups (map fst rm @ concat (map snd rm))"

definition detect_cycle :: "role_map \<Rightarrow> bytes option option" where
  "detect_cycle rm = detect_loop (Suc (length (all_roles rm))) rm (map fst rm) [] []"

lemma dfs_visited_mono:
  "dfs_cycle fuel rm node v s = Some (r, v', s') \<Longrightarrow> insert node (set v) \<subseteq> set v'"
  "dfs_parents fuel rm ps v s = Some (r, v', s') \<Longrightarrow> set v \<subseteq> set v'"
proof (induction fuel rm node v s and fuel rm ps v s arbitrary: r v' s' and r v' s'
    rule: dfs_cycle_dfs_parents.induct)
  case (2 fuel rm node v s)
  then show ?case by (fastforce split: option.splits)
next
  case (4 fuel rm p ps v s)
  then show ?case by (fastforce split: if_splits option.splits)
qed auto

lemma dfs_enough_fuel:
  "node \<in> U \<Longrightarrow> node \<notin> set v \<Longrightarrow> card (U - set v) \<le> fuel \<Longrightarrow>
     (\<forall>r. set (parents_of rm r) \<subseteq> U) \<Longrightarrow> dfs_cycle fuel rm node v s \<noteq> None"
  "set ps \<subseteq> U \<Longrightarrow> card (U - set v) \<le> fuel \<Longrightarrow>
     (\<forall>r. set (parents_of rm r) \<subseteq> U) \<Longrightarrow> dfs_parents fuel rm ps v s \<noteq> None"
  if fin: "finite U"
proof (induction fuel rm node v s and fuel rm ps v s rule: dfs_cycle_dfs_parents.induct)
  case (1 rm node v s)
  then have "card (U - set v) > 0" using fin by (auto simp: card_gt_0_iff)
  with 1 show ?case by simp
next
  case (2 fuel rm node v s)
  have "U - set (set_insert node v) = (U - set v) - {node}" by auto
  moreover have "node \<in> U - set v" using 2 by simp
  ultimately have "card (U - set (set_insert node v)) \<le> fuel"
    using "2.prems"(3) fin by (simp add: card_Diff_singleton)
  then show ?case using "2.IH" "2.prems"(4) by (auto split: option.splits)
next
  case (4 fuel rm p ps v s)
  show ?case
  proof (cases "p \<in> set s \<or> p \<in> set v")
    case True
    with 4 show ?thesis by auto
  next
    case False
    with 4 obtain r v' s' where call: "dfs_cycle fuel rm p v s = Some (r, v', s')"
      by (cases "dfs_cycle fuel rm p v s") auto
    then have "U - set v' \<subseteq> U - set v" using dfs_visited_mono(1) by blast
    then have "card (U - set v') \<le> fuel"
      using "4.prems"(2) fin card_mono by (metis finite_Diff le_trans)
    with 4 False call show ?thesis by (cases r) auto
  qed
qed auto

text \<open>A set of finished roles: closed under inheritance and free of cycles.\<close>

definition settled :: "role_map \<Rightarrow> bytes set \<Rightarrow> bool" where
  "settled rm F \<longleftrightarrow> (inherits rm `` F \<subseteq> F) \<and> (\<forall>x \<in> F. (x, x) \<notin> (inherits rm)\<^sup>+)"

lemma settled_insert:
  assumes F: "settled rm F" and n: "n \<notin> F" and ps: "set (parents_of rm n) \<subseteq> F"
  shows "settled rm (insert n F)"
proof -
  have "(n, n) \<notin> (inherits rm)\<^sup>+"
  proof
    assume "(n, n) \<in> (inherits rm)\<^sup>+"
    then obtain p where p: "(n, p) \<in> inherits rm" "(p, n) \<in> (inherits rm)\<^sup>*"
      by (meson tranclD)
    have "p \<in> F" using p(1) ps by (auto simp: inherits_def)
    have "n \<in> F"
      using p(2) \<open>p \<in> F\<close> by (induction rule: rtrancl_induct) (use F in \<open>auto simp: settled_def\<close>)
    with n show False by simp
  qed
  with F ps show ?thesis by (auto simp: settled_def inherits_def)
qed

lemma dfs_correct:
  "dfs_cycle fuel rm node v s = Some (r, v', s') \<Longrightarrow> node \<notin> set v \<Longrightarrow> set s \<subseteq> set v \<Longrightarrow>
     settled rm (set v - set s) \<Longrightarrow> (\<forall>x \<in> set s. (x, node) \<in> (inherits rm)\<^sup>*) \<Longrightarrow>
     (case r of Some c \<Rightarrow> (c, c) \<in> (inherits rm)\<^sup>+
      | None \<Rightarrow> set s' = set s \<and> insert node (set v) \<subseteq> set v' \<and> settled rm (set v' - set s))"
  "dfs_parents fuel rm ps v s = Some (r, v', s') \<Longrightarrow> set s \<subseteq> set v \<Longrightarrow>
     settled rm (set v - set s) \<Longrightarrow> (\<forall>x \<in> set s. \<forall>p \<in> set ps. (x, p) \<in> (inherits rm)\<^sup>+) \<Longrightarrow>
     (case r of Some c \<Rightarrow> (c, c) \<in> (inherits rm)\<^sup>+
      | None \<Rightarrow> set s' = set s \<and> set v \<subseteq> set v' \<and> set ps \<subseteq> set v' - set s \<and> settled rm (set v' - set s))"
proof (induction fuel rm node v s and fuel rm ps v s arbitrary: r v' s' and r v' s'
    rule: dfs_cycle_dfs_parents.induct)
  case (2 fuel rm node v s)
  let ?v = "set_insert node v" and ?s = "set_insert node s"
  obtain r1 v1 s1 where call: "dfs_parents fuel rm (parents_of rm node) ?v ?s = Some (r1, v1, s1)"
    using "2.prems"(1) by (auto split: option.splits)
  have diff: "set ?v - set ?s = set v - set s" using "2.prems"(2) by auto
  have path: "\<forall>x \<in> set ?s. \<forall>p \<in> set (parents_of rm node). (x, p) \<in> (inherits rm)\<^sup>+"
    using "2.prems"(5) by (auto simp: inherits_def intro: rtrancl_into_trancl1)
  have IH: "case r1 of Some c \<Rightarrow> (c, c) \<in> (inherits rm)\<^sup>+
      | None \<Rightarrow> set s1 = set ?s \<and> set ?v \<subseteq> set v1 \<and>
          set (parents_of rm node) \<subseteq> set v1 - set ?s \<and> settled rm (set v1 - set ?s)"
    using "2.IH" [OF call _ _ path] "2.prems"(3,4) diff by auto
  show ?case
  proof (cases r1)
    case (Some c)
    then show ?thesis using IH call "2.prems"(1) by auto
  next
    case None
    have "node \<notin> set s" using "2.prems"(2,3) by auto
    then have eq: "set v1 - set s = insert node (set v1 - set ?s)"
      using IH None by auto
    have "settled rm (set v1 - set s)"
      unfolding eq using IH None by (intro settled_insert) auto
    then show ?thesis using IH None call "2.prems"(1) \<open>node \<notin> set s\<close> by auto
  qed
next
  case (4 fuel rm p ps v s)
  show ?case
  proof (cases "p \<in> set s")
    case True
    then show ?thesis using "4.prems" by auto
  next
    case ns: False
    show ?thesis
    proof (cases "p \<in> set v")
      case True
      then show ?thesis
        using "4.IH"(3) [OF ns _ _ "4.prems"(2,3)] "4.prems" ns by (fastforce split: option.splits)
    next
      case False
      then obtain r1 v1 s1 where call: "dfs_cycle fuel rm p v s = Some (r1, v1, s1)"
        using "4.prems"(1) ns by (auto split: option.splits)
      have IH: "case r1 of Some c \<Rightarrow> (c, c) \<in> (inherits rm)\<^sup>+
        | None \<Rightarrow> set s1 = set s \<and> insert p (set v) \<subseteq> set v1 \<and> settled rm (set v1 - set s)"
        using "4.IH"(1) [OF ns _ call] False "4.prems" by (auto intro: trancl_into_rtrancl)
      show ?thesis
      proof (cases r1)
        case (Some c)
        then show ?thesis using IH call "4.prems"(1) ns False by auto
      next
        case None
        have rest: "dfs_parents fuel rm ps v1 s1 = Some (r, v', s')"
          using "4.prems"(1) call None ns False by simp
        have "case r of Some c \<Rightarrow> (c, c) \<in> (inherits rm)\<^sup>+
          | None \<Rightarrow> set s' = set s1 \<and> set v1 \<subseteq> set v' \<and> set ps \<subseteq> set v' - set s1 \<and>
              settled rm (set v' - set s1)"
          using "4.IH"(2) [OF ns _ call refl _ _ rest] False None IH "4.prems" by auto
        then show ?thesis using IH None ns by (auto split: option.splits)
      qed
    qed
  qed
qed auto

lemma detect_loop_correct:
  assumes "settled rm (set v)"
    and "set roles \<subseteq> set (all_roles rm)" "card (set (all_roles rm) - set v) \<le> fuel"
  shows "\<exists>r. detect_loop fuel rm roles v [] = Some r \<and>
    (case r of Some c \<Rightarrow> (c, c) \<in> (inherits rm)\<^sup>+
     | None \<Rightarrow> \<exists>F. settled rm F \<and> set roles \<union> set v \<subseteq> F)"
  using assms
proof (induction roles arbitrary: v)
  case Nil
  then show ?case by auto
next
  case (Cons role roles)
  show ?case
  proof (cases "role \<in> set v")
    case True
    obtain r where "detect_loop fuel rm roles v [] = Some r"
      "case r of Some c \<Rightarrow> (c, c) \<in> (inherits rm)\<^sup>+
       | None \<Rightarrow> \<exists>F. settled rm F \<and> set roles \<union> set v \<subseteq> F"
      using Cons.IH [OF Cons.prems(1) _ Cons.prems(3)] Cons.prems(2) by auto
    with True show ?thesis by (cases r) auto
  next
    case False
    have ps: "\<forall>r. set (parents_of rm r) \<subseteq> set (all_roles rm)"
      by (auto simp: all_roles_def dest!: parents_of_mem)
    then obtain r v1 s1 where call: "dfs_cycle fuel rm role v [] = Some (r, v1, s1)"
      using dfs_enough_fuel(1) [of "set (all_roles rm)" role v fuel rm "[]"] Cons.prems False by auto
    note res = dfs_correct(1) [OF call False]
    show ?thesis
    proof (cases r)
      case (Some c)
      then show ?thesis using res call False Cons.prems by auto
    next
      case None
      have v1: "set s1 = {}" "insert role (set v) \<subseteq> set v1" "settled rm (set v1)"
        using res None Cons.prems by auto
      have "card (set (all_roles rm) - set v1) \<le> card (set (all_roles rm) - set v)"
        using v1(2) by (intro card_mono) auto
      then have "\<exists>r. detect_loop fuel rm roles v1 [] = Some r \<and>
        (case r of Some c \<Rightarrow> (c, c) \<in> (inherits rm)\<^sup>+
         | None \<Rightarrow> \<exists>F. settled rm F \<and> set roles \<union> set v1 \<subseteq> F)"
        using Cons.IH [OF v1(3)] Cons.prems by auto
      then show ?thesis using call None False v1 by (fastforce split: option.splits)
    qed
  qed
qed

lemma inherits_source: "(r, p) \<in> inherits rm \<Longrightarrow> r \<in> set (map fst rm)"
  by (force simp: inherits_def dest!: parents_of_mem)

lemma detect_cycle_spec:
  "(detect_cycle rm = Some None \<longleftrightarrow> acyclic (inherits rm)) \<and>
   (\<forall>c. detect_cycle rm = Some (Some c) \<longrightarrow> (c, c) \<in> (inherits rm)\<^sup>+) \<and>
   detect_cycle rm \<noteq> None"
proof -
  have "settled rm (set [])" by (simp add: settled_def)
  moreover have "set (map fst rm) \<subseteq> set (all_roles rm)" by (auto simp: all_roles_def)
  moreover have "card (set (all_roles rm) - set []) \<le> Suc (length (all_roles rm))"
    using card_length [of "all_roles rm"] by simp
  ultimately obtain r where r: "detect_cycle rm = Some r"
    and res: "case r of Some c \<Rightarrow> (c, c) \<in> (inherits rm)\<^sup>+
      | None \<Rightarrow> \<exists>F. settled rm F \<and> set (map fst rm) \<union> set [] \<subseteq> F"
    unfolding detect_cycle_def using detect_loop_correct by blast
  have "acyclic (inherits rm)" if none: "r = None"
  proof (unfold acyclic_def, intro allI notI)
    fix x
    assume cyc: "(x, x) \<in> (inherits rm)\<^sup>+"
    obtain F where F: "settled rm F" "set (map fst rm) \<subseteq> F" using res none by auto
    have "x \<in> F" using cyc F(2) inherits_source by (meson subsetD tranclD)
    with cyc F(1) show False by (simp add: settled_def)
  qed
  moreover have "\<not> acyclic (inherits rm)" if "r = Some c" for c
    using res that by (auto simp: acyclic_def)
  ultimately have "r = None \<longleftrightarrow> acyclic (inherits rm)" by (cases r) auto
  with r res show ?thesis by (auto split: option.splits)
qed

section \<open>Properties\<close>

text \<open>C12: Delegation never widens authority. Every permission that the narrowed set grants is
  granted by both sides, up to the scope order in which \<open>.own\<close> and \<open>.shared\<close> lie below the
  unscoped key; and a permission both sides hold in the same spelling survives.\<close>

theorem intersect_permissions_bounds:
  "(has_permission (intersect_permissions a b) r \<longrightarrow> within a r \<and> within b r) \<and>
   (has_permission a r \<and> has_permission b r \<longrightarrow> has_permission (intersect_permissions a b) r)"
  using intersect_sound intersect_complete by blast

theorem intersect_permissions_bounds_witness:
  "has_permission (intersect_permissions [''app:crm:*'', ''tool:x''] [''app:crm:c.read.own'', ''tool:x'']) ''tool:x'' \<and>
   within [''app:crm:*'', ''tool:x''] ''tool:x'' \<and> within [''app:crm:c.read.own'', ''tool:x''] ''tool:x''"
proof -
  have "has_permission [''app:crm:*'', ''tool:x''] ''tool:x''"
    and "has_permission [''app:crm:c.read.own'', ''tool:x''] ''tool:x''"
    by simp_all
  then show ?thesis
    using intersect_permissions_bounds [of "[''app:crm:*'', ''tool:x'']" "[''app:crm:c.read.own'', ''tool:x'']" "''tool:x''"]
    by blast
qed

text \<open>C25: The cycle check on the role hierarchy always returns; it reports no cycle exactly when
  the inheritance relation is acyclic, and a role it reports does inherit from itself.\<close>

theorem detect_cycle_correct:
  "(detect_cycle rm = Some None \<longleftrightarrow> acyclic (inherits rm)) \<and>
   (\<forall>c. detect_cycle rm = Some (Some c) \<longrightarrow> (c, c) \<in> (inherits rm)\<^sup>+) \<and>
   detect_cycle rm \<noteq> None"
  by (rule detect_cycle_spec)

theorem detect_cycle_correct_witness:
  "detect_cycle [(''a'', [''b'']), (''b'', [''a''])] = Some (Some ''a'') \<and>
   (''a'', ''a'') \<in> (inherits [(''a'', [''b'']), (''b'', [''a''])])\<^sup>+"
proof -
  have "detect_cycle [(''a'', [''b'']), (''b'', [''a''])] = Some (Some ''a'')"
    by (simp add: detect_cycle_def all_roles_def parents_of_def set_insert_def)
  then show ?thesis using detect_cycle_correct by blast
qed

text \<open>C26: Role expansion grants exactly the roles reachable by inheritance from the assigned
  ones, each once, provided the assigned roles and the inheritance edges of the hierarchy
  together do not exceed the limit of 64.\<close>

theorem expand_roles_reachable:
  assumes "length assigned + edges_left rm [] \<le> MAX_ROLE_DEPTH"
  shows "set (expand_roles assigned rm) = granted_roles rm assigned \<and> distinct (expand_roles assigned rm)"
proof -
  let ?X = "set (expand_roles assigned rm)"
  have closed: "set assigned \<subseteq> ?X" "\<And>r. r \<in> ?X \<Longrightarrow> set (parents_of rm r) \<subseteq> ?X"
    using expand_loop_closed [of "rev assigned" rm "[]" MAX_ROLE_DEPTH] assms
    by (auto simp: expand_roles_def)
  have "granted_roles rm assigned \<subseteq> ?X"
    using closed closed_contains_reachable [of _ _ rm ?X] by (auto simp: granted_roles_def)
  moreover have "?X \<subseteq> granted_roles rm assigned"
    using expand_loop_sound [of MAX_ROLE_DEPTH rm "rev assigned" "[]"]
    by (auto simp: expand_roles_def granted_roles_def)
  moreover have "distinct (expand_roles assigned rm)"
    by (simp add: expand_roles_def expand_loop_distinct)
  ultimately show ?thesis by blast
qed

theorem expand_roles_reachable_witness:
  "set (expand_roles [''admin''] [(''admin'', [''editor'']), (''editor'', [''viewer''])]) =
     granted_roles [(''admin'', [''editor'']), (''editor'', [''viewer''])] [''admin''] \<and>
   ''viewer'' \<in> set (expand_roles [''admin''] [(''admin'', [''editor'']), (''editor'', [''viewer''])])"
proof -
  have "length [''admin''] + edges_left [(''admin'', [''editor'']), (''editor'', [''viewer''])] [] \<le> MAX_ROLE_DEPTH"
    by (simp add: edges_left_def MAX_ROLE_DEPTH_def)
  moreover have "''viewer'' \<in> set (expand_roles [''admin''] [(''admin'', [''editor'']), (''editor'', [''viewer''])])"
    by code_simp
  ultimately show ?thesis using expand_roles_reachable by blast
qed

text \<open>C33: The limit counts expanded roles, not nesting depth. Of more than 64 directly assigned,
  distinct roles, exactly the last 64 are granted, whatever the hierarchy, as long as those
  64 inherit nothing; the others are dropped without an error.\<close>

theorem expand_roles_drops_roles:
  assumes "distinct assigned" and "MAX_ROLE_DEPTH < length assigned"
    and "\<forall>r \<in> set assigned. parents_of rm r = []"
  shows "set (expand_roles assigned rm) =
    set (drop (length assigned - MAX_ROLE_DEPTH) assigned)"
proof -
  have flat: "expand_loop n rm st ex = ex @ take n st"
    if "distinct (ex @ st)" "\<forall>r \<in> set st. parents_of rm r = []" for n st ex
    using that
  proof (induction n rm st ex rule: expand_loop.induct)
    case (3 n rm role st ex)
    then have "role \<notin> set ex" by simp
    then have "expand_loop n rm ([] @ st) (ex @ [role]) = (ex @ [role]) @ take n st"
      using 3(2) [of "ex @ [role]" "[]"] "3.prems" by simp
    with \<open>role \<notin> set ex\<close> "3.prems" show ?case by (simp add: Let_def)
  qed auto
  have "expand_roles assigned rm = take MAX_ROLE_DEPTH (rev assigned)"
    using flat [of "[]" "rev assigned" MAX_ROLE_DEPTH] assms by (simp add: expand_roles_def)
  then show ?thesis by (simp add: take_rev)
qed

theorem expand_roles_drops_roles_witness:
  "set (expand_roles (map show_nat [0..<65]) []) = set (drop 1 (map show_nat [0..<65])) \<and>
   show_nat 0 \<notin> set (expand_roles (map show_nat [0..<65]) [])"
proof -
  have inj: "inj show_nat" by (rule inj_on_inverseI [of _ "read_digits 0"]) (rule read_show_nat)
  have dist: "distinct (map show_nat [0..<65])"
    by (auto simp: distinct_map intro: inj_on_subset [OF inj])
  have "set (expand_roles (map show_nat [0..<65]) []) =
      set (drop (length (map show_nat [0..<65]) - MAX_ROLE_DEPTH) (map show_nat [0..<65]))"
    using dist by (intro expand_roles_drops_roles) (auto simp: MAX_ROLE_DEPTH_def parents_of_def)
  then have eq: "set (expand_roles (map show_nat [0..<65]) []) = show_nat ` {1..<65}"
    by (simp add: MAX_ROLE_DEPTH_def drop_map)
  moreover have "show_nat 0 \<notin> show_nat ` {1..<65}"
    using inj by (auto dest: injD)
  ultimately show ?thesis by (simp add: drop_map)
qed

end
