(* ===== verification/Effect.thy ===== *)
theory Effect
  imports Prelude
begin

text \<open>
  Code that talks to the database. An action maps a state to a result and a new state;
  \<open>act_bind\<close> is the question mark operator on \<open>async\<close> code. The state extends the record
  \<open>world\<close>, whose one field says which of the statements to come the database refuses, in
  order: \<open>stmt\<close> takes the next entry, and a refused statement changes nothing.
  \<open>transaction\<close> is \<open>begin\<close>, a body and \<open>commit\<close>; when any of them fails the tables are as
  they were before \<open>begin\<close>.

  The errors are those of \<open>error.rs\<close> and \<open>api_error.rs\<close>, with the two conversions into
  \<open>ApiError\<close>; of a \<open>sqlx::Error\<close> the code looks at the PostgreSQL error inside only.

  \<open>hoare P m Q E\<close> says that from a state in \<open>P\<close> the action ends in \<open>Q\<close> when it returns
  and in \<open>E\<close> when it fails. The locale \<open>transition_system\<close> lifts a preserved predicate to
  every reachable state.
\<close>

named_theorems hoare_rules \<open>Hoare rules of the action combinators\<close>
named_theorems act_simps \<open>evaluation of actions\<close>

section \<open>Errors\<close>

record pg_error =
  pg_code :: bytes
  pg_schema :: "bytes option"
  pg_table :: "bytes option"
  pg_constraint :: "bytes option"
  pg_message :: bytes

datatype sqlx_error = Database pg_error | Protocol bytes | OtherError bytes

datatype runtime_error =
    R_PermissionDenied bytes | R_Database sqlx_error | R_Schema sqlx_error | R_Invalid bytes
  | R_Secret bytes | R_Worker bytes | R_Capacity bytes | R_Job bytes | R_Cron bytes | R_Ipc bytes
  | R_Auth bytes | R_Mcp bytes | R_Config bytes | R_Conflict bytes | R_NotFound bytes
  | R_Delegation bytes

datatype api_error =
    NotFound bytes | BadRequest bytes | Unauthorized bytes | Forbidden bytes | Conflict bytes
  | NotReady | Unavailable bytes | Internal bytes
  | RuleViolation bytes bytes | UniqueViolation bytes bytes

text \<open>The text of a runtime error; \<open>show_sqlx\<close> stands for the text of the driver's error.\<close>

fun runtime_error_text :: "(sqlx_error \<Rightarrow> bytes) \<Rightarrow> runtime_error \<Rightarrow> bytes" where
  "runtime_error_text show_sqlx (R_PermissionDenied m) = ''permission denied: '' @ m"
| "runtime_error_text show_sqlx (R_Database e) = ''database connection error: '' @ show_sqlx e"
| "runtime_error_text show_sqlx (R_Schema e) = ''schema migration error: '' @ show_sqlx e"
| "runtime_error_text show_sqlx (R_Invalid m) = ''invalid manifest: '' @ m"
| "runtime_error_text show_sqlx (R_Secret m) = ''secret vault error: '' @ m"
| "runtime_error_text show_sqlx (R_Worker m) = ''worker error: '' @ m"
| "runtime_error_text show_sqlx (R_Capacity m) = m"
| "runtime_error_text show_sqlx (R_Job m) = ''job engine error: '' @ m"
| "runtime_error_text show_sqlx (R_Cron m) = ''cron error: '' @ m"
| "runtime_error_text show_sqlx (R_Ipc m) = ''IPC error: '' @ m"
| "runtime_error_text show_sqlx (R_Auth m) = ''auth error: '' @ m"
| "runtime_error_text show_sqlx (R_Mcp m) = ''MCP error: '' @ m"
| "runtime_error_text show_sqlx (R_Config m) = ''configuration error: '' @ m"
| "runtime_error_text show_sqlx (R_Conflict m) = ''conflict: '' @ m"
| "runtime_error_text show_sqlx (R_NotFound m) = ''not found: '' @ m"
| "runtime_error_text show_sqlx (R_Delegation m) = ''delegation refused: '' @ m"

text \<open>\<open>reserved\<close> is the list of Core schemas of \<open>manifest.rs\<close>.\<close>

definition app_rule_violation :: "bytes list \<Rightarrow> pg_error \<Rightarrow> api_error option" where
  "app_rule_violation reserved pg =
     (case (pg_schema pg, pg_table pg, pg_constraint pg) of
        (Some schema, Some table, Some name) \<Rightarrow>
          (if schema \<in> set reserved \<or> starts_with schema ''pg_'' then None
           else if pg_code pg = ''23514'' then Some (RuleViolation table name)
           else if pg_code pg = ''23505'' then Some (UniqueViolation table name)
           else None)
      | _ \<Rightarrow> None)"

definition opaque_error :: api_error where
  "opaque_error = Internal ''internal database error''"

definition api_of_sqlx :: "bytes list \<Rightarrow> sqlx_error \<Rightarrow> api_error" where
  "api_of_sqlx reserved e =
     (case e of
        Database pg \<Rightarrow>
          (if pg_code pg = ''42501'' then Forbidden ''write rejected by access policy''
           else if pg_code pg = ''23503'' then
             Conflict (''foreign key constraint violated: '' @ pg_message pg)
           else if pg_code pg = ''23514'' \<or> pg_code pg = ''23505'' then
             (case app_rule_violation reserved pg of Some err \<Rightarrow> err | None \<Rightarrow> opaque_error)
           else opaque_error)
      | _ \<Rightarrow> opaque_error)"

definition api_of_runtime :: "(sqlx_error \<Rightarrow> bytes) \<Rightarrow> runtime_error \<Rightarrow> api_error" where
  "api_of_runtime show_sqlx e =
     (case e of
        R_PermissionDenied _ \<Rightarrow> Forbidden (runtime_error_text show_sqlx e)
      | R_Conflict _ \<Rightarrow> Conflict (runtime_error_text show_sqlx e)
      | R_NotFound _ \<Rightarrow> NotFound (runtime_error_text show_sqlx e)
      | R_Cron _ \<Rightarrow> BadRequest (runtime_error_text show_sqlx e)
      | R_Invalid _ \<Rightarrow> BadRequest (runtime_error_text show_sqlx e)
      | R_Capacity _ \<Rightarrow> Unavailable (runtime_error_text show_sqlx e)
      | R_Worker _ \<Rightarrow> Internal (runtime_error_text show_sqlx e)
      | R_Job _ \<Rightarrow> Internal (runtime_error_text show_sqlx e)
      | R_Ipc _ \<Rightarrow> Internal (runtime_error_text show_sqlx e)
      | _ \<Rightarrow> Internal ''internal error'')"

text \<open>\<open>into_response\<close>: the status code, and the fields of the JSON body.\<close>

fun into_response :: "api_error \<Rightarrow> nat \<times> (bytes \<times> bytes) list" where
  "into_response (RuleViolation entity rule) =
     (422, [(''error'', ''rule_violation''), (''entity'', entity), (''rule'', rule)])"
| "into_response (UniqueViolation entity index) =
     (409, [(''error'', ''unique_violation''), (''entity'', entity), (''index'', index)])"
| "into_response (NotFound msg) = (404, [(''error'', msg)])"
| "into_response (BadRequest msg) = (400, [(''error'', msg)])"
| "into_response (Unauthorized msg) = (401, [(''error'', msg)])"
| "into_response (Forbidden msg) = (403, [(''error'', msg)])"
| "into_response (Conflict msg) = (409, [(''error'', msg)])"
| "into_response NotReady = (503, [(''error'', ''runtime not ready'')])"
| "into_response (Unavailable msg) = (503, [(''error'', msg)])"
| "into_response (Internal msg) = (500, [(''error'', msg)])"

section \<open>Actions\<close>

type_synonym ('s, 'e, 'a) act = "'s \<Rightarrow> ('e + 'a) \<times> 's"

definition act_return :: "'a \<Rightarrow> ('s, 'e, 'a) act" where
  "act_return x s = (Inr x, s)"

definition act_fail :: "'e \<Rightarrow> ('s, 'e, 'a) act" where
  "act_fail e s = (Inl e, s)"

definition act_bind :: "('s, 'e, 'a) act \<Rightarrow> ('a \<Rightarrow> ('s, 'e, 'b) act) \<Rightarrow> ('s, 'e, 'b) act" where
  "act_bind m f s = (case m s of (Inl e, t) \<Rightarrow> (Inl e, t) | (Inr x, t) \<Rightarrow> f x t)"

definition act_get :: "('s \<Rightarrow> 'a) \<Rightarrow> ('s, 'e, 'a) act" where
  "act_get g s = (Inr (g s), s)"

definition act_modify :: "('s \<Rightarrow> 's) \<Rightarrow> ('s, 'e, unit) act" where
  "act_modify g s = (Inr (), g s)"

definition act_lift :: "'e + 'a \<Rightarrow> ('s, 'e, 'a) act" where
  "act_lift r s = (r, s)"

definition act_map_err :: "('e \<Rightarrow> 'f) \<Rightarrow> ('s, 'e, 'a) act \<Rightarrow> ('s, 'f, 'a) act" where
  "act_map_err g m s = (case m s of (r, t) \<Rightarrow> (map_err g r, t))"

text \<open>A call whose error the code drops: \<open>let _ = m\<close>, \<open>.ok()\<close>, \<open>.unwrap_or(d)\<close>.\<close>

definition act_or :: "'a \<Rightarrow> ('s, 'e, 'a) act \<Rightarrow> ('s, 'f, 'a) act" where
  "act_or d m s = (case m s of (Inl _, t) \<Rightarrow> (Inr d, t) | (Inr x, t) \<Rightarrow> (Inr x, t))"

primrec act_each :: "('a \<Rightarrow> ('s, 'e, unit) act) \<Rightarrow> 'a list \<Rightarrow> ('s, 'e, unit) act" where
  "act_each f [] = act_return ()"
| "act_each f (x # xs) = act_bind (f x) (\<lambda>_. act_each f xs)"

lemmas act_defs = act_return_def act_fail_def act_bind_def act_get_def act_modify_def act_lift_def
  act_map_err_def act_or_def

lemma act_bind_return [simp]: "act_bind (act_return x) f = f x"
  by (rule ext) (simp add: act_defs)

lemma act_bind_fail [simp]: "act_bind (act_fail e) f = act_fail e"
  by (rule ext) (simp add: act_defs)

lemma act_lift_simps [simp]: "act_lift (Inr x) = act_return x" "act_lift (Inl e) = act_fail e"
  by (simp_all add: fun_eq_iff act_defs)

lemma act_bind_assoc: "act_bind (act_bind m f) g = act_bind m (\<lambda>x. act_bind (f x) g)"
  by (rule ext) (simp add: act_defs split: prod.splits sum.splits)

text \<open>How an action can have succeeded.\<close>

lemma act_bind_Inr: "act_bind m f s = (Inr y, t) \<longleftrightarrow> (\<exists>x s1. m s = (Inr x, s1) \<and> f x s1 = (Inr y, t))"
  by (auto simp: act_bind_def split: prod.splits sum.splits)

lemma act_map_err_Inr: "act_map_err g m s = (Inr y, t) \<longleftrightarrow> m s = (Inr y, t)"
  by (auto simp: act_map_err_def split: prod.splits)

lemma act_return_Inr: "act_return x s = (Inr y, t) \<longleftrightarrow> x = y \<and> s = t"
  by (auto simp: act_return_def)

lemma act_fail_Inr: "act_fail e s = (Inr y, t) \<longleftrightarrow> False"
  by (simp add: act_fail_def)

lemma act_get_Inr: "act_get g s = (Inr y, t) \<longleftrightarrow> g s = y \<and> s = t"
  by (auto simp: act_get_def)

lemmas act_success = act_bind_Inr act_map_err_Inr act_return_Inr act_fail_Inr act_get_Inr

section \<open>Statements\<close>

record world =
  w_faults :: "sqlx_error option list"

definition stmt :: "('z world_scheme, sqlx_error, 'a) act \<Rightarrow> ('z world_scheme, sqlx_error, 'a) act" where
  "stmt m s =
     (case w_faults s of
        [] \<Rightarrow> m s
      | None # fs \<Rightarrow> m (s\<lparr>w_faults := fs\<rparr>)
      | Some e # fs \<Rightarrow> (Inl e, s\<lparr>w_faults := fs\<rparr>))"

definition transaction ::
  "(sqlx_error \<Rightarrow> 'e) \<Rightarrow> ('z world_scheme, 'e, 'a) act \<Rightarrow> ('z world_scheme, 'e, 'a) act" where
  "transaction conv body s =
     (case act_map_err conv (stmt (act_return ())) s of
        (Inl e, s1) \<Rightarrow> (Inl e, s1)
      | (Inr _, s1) \<Rightarrow>
          (case act_bind body (\<lambda>x. act_map_err conv (stmt (act_return x))) s1 of
             (Inl e, s2) \<Rightarrow> (Inl e, s1\<lparr>w_faults := w_faults s2\<rparr>)
           | (Inr x, s2) \<Rightarrow> (Inr x, s2)))"

lemma stmt_no_faults: "w_faults s = [] \<Longrightarrow> stmt m s = m s"
  by (simp add: stmt_def)

section \<open>Hoare rules\<close>

definition hoare :: "('s \<Rightarrow> bool) \<Rightarrow> ('s, 'e, 'a) act \<Rightarrow> ('a \<Rightarrow> 's \<Rightarrow> bool) \<Rightarrow> ('s \<Rightarrow> bool) \<Rightarrow> bool" where
  "hoare P m Q E \<longleftrightarrow>
     (\<forall>s. P s \<longrightarrow> (case m s of (Inl _, t) \<Rightarrow> E t | (Inr x, t) \<Rightarrow> Q x t))"

abbreviation keeps :: "('s \<Rightarrow> bool) \<Rightarrow> ('s, 'e, 'a) act \<Rightarrow> bool" where
  "keeps I m \<equiv> hoare I m (\<lambda>_. I) I"

definition fault_free :: "('z world_scheme \<Rightarrow> bool) \<Rightarrow> bool" where
  "fault_free P \<longleftrightarrow> (\<forall>s fs. P (s\<lparr>w_faults := fs\<rparr>) = P s)"

lemma fault_freeD: "fault_free P \<Longrightarrow> P (s\<lparr>w_faults := fs\<rparr>) = P s"
  by (simp add: fault_free_def)

lemma hoare_return [hoare_rules]: "(\<And>s. P s \<Longrightarrow> Q x s) \<Longrightarrow> hoare P (act_return x) Q E"
  by (simp add: hoare_def act_return_def)

lemma hoare_fail [hoare_rules]: "(\<And>s. P s \<Longrightarrow> E s) \<Longrightarrow> hoare P (act_fail e) Q E"
  by (simp add: hoare_def act_fail_def)

lemma hoare_bind:
  "hoare P m R E \<Longrightarrow> (\<And>x. hoare (R x) (f x) Q E) \<Longrightarrow> hoare P (act_bind m f) Q E"
  by (fastforce simp: hoare_def act_bind_def split: prod.splits sum.splits)

lemma keeps_bind [hoare_rules]: "keeps I m \<Longrightarrow> (\<And>x. keeps I (f x)) \<Longrightarrow> keeps I (act_bind m f)"
  by (rule hoare_bind)

lemma hoare_get [hoare_rules]: "(\<And>s. P s \<Longrightarrow> Q (g s) s) \<Longrightarrow> hoare P (act_get g) Q E"
  by (simp add: hoare_def act_get_def)

lemma hoare_modify [hoare_rules]: "(\<And>s. P s \<Longrightarrow> Q () (g s)) \<Longrightarrow> hoare P (act_modify g) Q E"
  by (simp add: hoare_def act_modify_def)

lemma hoare_lift [hoare_rules]:
  "(\<And>s x. P s \<Longrightarrow> r = Inr x \<Longrightarrow> Q x s) \<Longrightarrow> (\<And>s. P s \<Longrightarrow> E s) \<Longrightarrow> hoare P (act_lift r) Q E"
  by (auto simp: hoare_def act_lift_def split: sum.splits)

lemma hoare_map_err [hoare_rules]: "hoare P m Q E \<Longrightarrow> hoare P (act_map_err g m) Q E"
  by (fastforce simp: hoare_def act_map_err_def map_err_def split: prod.splits sum.splits)

lemma hoare_or [hoare_rules]:
  "hoare P m Q E \<Longrightarrow> (\<And>s. E s \<Longrightarrow> Q d s) \<Longrightarrow> hoare P (act_or d m) Q F"
  by (fastforce simp: hoare_def act_or_def split: prod.splits sum.splits)

lemma hoare_each:
  "(\<And>x. x \<in> set xs \<Longrightarrow> keeps I (f x)) \<Longrightarrow> keeps I (act_each f xs)"
  by (induction xs) (auto intro: hoare_return intro!: hoare_bind)

lemma hoare_conseq:
  "hoare P m Q E \<Longrightarrow> (\<And>s. P' s \<Longrightarrow> P s) \<Longrightarrow> (\<And>x s. Q x s \<Longrightarrow> Q' x s) \<Longrightarrow> (\<And>s. E s \<Longrightarrow> E' s) \<Longrightarrow>
   hoare P' m Q' E'"
  by (fastforce simp: hoare_def split: prod.splits sum.splits)

lemma hoare_stmt:
  assumes "hoare P m Q E" "fault_free P" "\<And>s. P s \<Longrightarrow> E s"
  shows "hoare P (stmt m) Q E"
  using assms by (auto simp: hoare_def stmt_def fault_free_def split: list.splits option.splits)

lemma hoare_transaction:
  assumes body: "hoare P body Q (\<lambda>_. True)" and P: "fault_free P" and Q: "\<And>x. fault_free (Q x)"
    and E: "\<And>s. P s \<Longrightarrow> E s"
  shows "hoare P (transaction conv body) Q E"
proof (unfold hoare_def, intro allI impI)
  fix s assume s: "P s"
  let ?beg = "act_map_err conv (stmt (act_return ()))"
  let ?rest = "act_bind body (\<lambda>x. act_map_err conv (stmt (act_return x)))"
  have beg: "hoare P ?beg (\<lambda>_. P) P"
    by (intro hoare_map_err hoare_stmt hoare_return P)
  have rest: "hoare P ?rest Q (\<lambda>_. True)"
    by (intro hoare_bind [OF body] hoare_map_err hoare_stmt hoare_return Q) auto
  obtain r1 s1 where b: "?beg s = (r1, s1)" by force
  have P1: "P s1" using beg s b by (auto simp: hoare_def split: sum.splits)
  obtain r2 s2 where r: "?rest s1 = (r2, s2)" by force
  have Q2: "Q x s2" if "r2 = Inr x" for x
    using rest P1 r that by (auto simp: hoare_def)
  show "case transaction conv body s of (Inl _, t) \<Rightarrow> E t | (Inr x, t) \<Rightarrow> Q x t"
    using P1 Q2 E fault_freeD [OF P]
    by (auto simp: transaction_def b r split: sum.splits)
qed

lemma hoare_if [hoare_rules]:
  "(b \<Longrightarrow> hoare P m Q E) \<Longrightarrow> (\<not> b \<Longrightarrow> hoare P n Q E) \<Longrightarrow> hoare P (if b then m else n) Q E"
  by simp

lemma hoare_option [hoare_rules]:
  "(x = None \<Longrightarrow> hoare P m Q E) \<Longrightarrow> (\<And>y. x = Some y \<Longrightarrow> hoare P (f y) Q E) \<Longrightarrow>
   hoare P (case x of None \<Rightarrow> m | Some y \<Rightarrow> f y) Q E"
  by (cases x) auto

lemma keeps_run: "keeps I m \<Longrightarrow> I s \<Longrightarrow> I (snd (m s))"
  by (cases "m s"; cases "fst (m s)") (auto simp: hoare_def dest!: spec [of _ s])

section \<open>Actions that only read\<close>

text \<open>\<open>reader m f\<close>: the action changes no table, and unless a statement is refused its result is
  \<open>f\<close> of the tables.\<close>

definition tables_only :: "('z world_scheme \<Rightarrow> 'a) \<Rightarrow> bool" where
  "tables_only f \<longleftrightarrow> (\<forall>s fs. f (s\<lparr>w_faults := fs\<rparr>) = f s)"

definition reader :: "('z world_scheme, 'e, 'a) act \<Rightarrow> ('z world_scheme \<Rightarrow> 'e + 'a) \<Rightarrow> bool" where
  "reader m f \<longleftrightarrow>
     tables_only f \<and>
     (\<forall>s. (\<exists>fs. snd (m s) = s\<lparr>w_faults := fs\<rparr>) \<and> (fst (m s) = f s \<or> (\<exists>e. fst (m s) = Inl e)) \<and>
          (w_faults s = [] \<longrightarrow> m s = (f s, s)))"

lemma tables_only_const [simp]: "tables_only (\<lambda>s. c)"
  by (simp add: tables_only_def)

lemma readerD:
  assumes "reader m f"
  shows "\<exists>fs. snd (m s) = s\<lparr>w_faults := fs\<rparr>" "m s = (Inr x, t) \<Longrightarrow> f s = Inr x"
    "w_faults s = [] \<Longrightarrow> m s = (f s, s)"
  using assms unfolding reader_def by (metis fst_conv sum.distinct(1))+

lemma world_self [simp]: "\<exists>fs. s = s\<lparr>w_faults := fs\<rparr>"
  by (rule exI [of _ "w_faults s"]) simp

lemma reader_return: "reader (act_return x) (\<lambda>_. Inr x)"
  by (auto simp: reader_def act_return_def)

lemma reader_fail: "reader (act_fail e) (\<lambda>_. Inl e)"
  by (auto simp: reader_def act_fail_def)

lemma reader_stmt: "tables_only g \<Longrightarrow> reader (stmt (act_get g)) (\<lambda>s. Inr (g s))"
  by (auto simp: reader_def tables_only_def stmt_def act_get_def split: list.splits option.splits)

lemma reader_map_err: "reader m f \<Longrightarrow> reader (act_map_err h m) (\<lambda>s. map_err h (f s))"
  unfolding reader_def tables_only_def act_map_err_def
  by (auto simp: case_prod_beta) (metis map_err_simps(1))

lemma reader_bind:
  assumes m: "reader m f" and n: "\<And>x. reader (n x) (g x)"
  shows "reader (act_bind m n) (\<lambda>s. res_bind (f s) (\<lambda>x. g x s))"
  unfolding reader_def
proof (intro conjI allI impI)
  show "tables_only (\<lambda>s. res_bind (f s) (\<lambda>x. g x s))"
    using m n by (simp add: reader_def tables_only_def)
next
  fix s :: "'a world_scheme"
  obtain r t where mt: "m s = (r, t)" by force
  obtain fs where t: "t = s\<lparr>w_faults := fs\<rparr>" using readerD(1) [OF m, of s] mt by auto
  show "\<exists>fs. snd (act_bind m n s) = s\<lparr>w_faults := fs\<rparr>"
  proof (cases r)
    case (Inr x)
    then show ?thesis using readerD(1) [OF n, of x t] mt t by (auto simp: act_bind_def)
  qed (use mt t in \<open>auto simp: act_bind_def\<close>)
  show "fst (act_bind m n s) = res_bind (f s) (\<lambda>x. g x s) \<or> (\<exists>e. fst (act_bind m n s) = Inl e)"
  proof (cases r)
    case (Inr x)
    then have "f s = Inr x" using readerD(2) [OF m] mt by blast
    moreover have "g x t = g x s" using n t by (simp add: reader_def tables_only_def)
    moreover have "fst (n x t) = g x t \<or> (\<exists>e. fst (n x t) = Inl e)" using n by (simp add: reader_def)
    ultimately show ?thesis using mt Inr by (auto simp: act_bind_def)
  qed (use mt in \<open>auto simp: act_bind_def\<close>)
  show "act_bind m n s = (res_bind (f s) (\<lambda>x. g x s), s)" if "w_faults s = []"
    using readerD(3) [OF m that] readerD(3) [OF n that]
    by (cases "f s") (auto simp: act_bind_def)
qed

lemma reader_if: "(b \<Longrightarrow> reader m f) \<Longrightarrow> (\<not> b \<Longrightarrow> reader n g) \<Longrightarrow> reader (if b then m else n) (if b then f else g)"
  by simp

lemma reader_cong: "reader m f \<Longrightarrow> (\<And>s. f s = g s) \<Longrightarrow> reader m g"
  by (metis ext)

text \<open>A read keeps every predicate on the tables, and hands its value on.\<close>

lemma hoare_reader:
  assumes "reader m f" "fault_free P" "\<And>x s. P s \<Longrightarrow> f s = Inr x \<Longrightarrow> Q x s"
    "\<And>x. fault_free (Q x)" "\<And>s. P s \<Longrightarrow> E s"
  shows "hoare P m Q E"
proof (unfold hoare_def, intro allI impI)
  fix s assume s: "P s"
  obtain r t where mt: "m s = (r, t)" by force
  obtain fs where t: "t = s\<lparr>w_faults := fs\<rparr>" using readerD(1) [OF assms(1), of s] mt by auto
  show "case m s of (Inl _, t) \<Rightarrow> E t | (Inr x, t) \<Rightarrow> Q x t"
  proof (cases r)
    case (Inl e)
    then show ?thesis using mt t s assms(2,5) fault_freeD by fastforce
  next
    case (Inr x)
    then have "Q x s" using assms(3) s readerD(2) [OF assms(1)] mt by blast
    then show ?thesis using mt t Inr fault_freeD [OF assms(4)] by auto
  qed
qed

section \<open>Reachable states\<close>

locale transition_system =
  fixes initial :: "'s \<Rightarrow> bool" and step :: "'s \<Rightarrow> 's \<Rightarrow> bool" and inv :: "'s \<Rightarrow> bool"
  assumes initial_inv: "initial s \<Longrightarrow> inv s"
    and step_inv: "inv s \<Longrightarrow> step s t \<Longrightarrow> inv t"
begin

inductive reachable :: "'s \<Rightarrow> bool" where
  init: "initial s \<Longrightarrow> reachable s"
| step: "reachable s \<Longrightarrow> step s t \<Longrightarrow> reachable t"

lemma reachable_inv: "reachable s \<Longrightarrow> inv s"
  by (induction rule: reachable.induct) (auto intro: initial_inv step_inv)

lemma run_inv: "step\<^sup>*\<^sup>* s t \<Longrightarrow> inv s \<Longrightarrow> inv t"
  by (induction rule: rtranclp_induct) (auto intro: step_inv)

end

end
