(* ===== verification/Authority_Sql.thy ===== *)
theory Authority_Sql
  imports Authority_Perms Effect
begin

text \<open>
  The permission functions that live in the database, from the DDL of
  \<open>extensions/rbac/bootstrap.rs\<close>: \<open>expand_roles\<close>, \<open>resolve_permissions\<close>,
  \<open>match_permission\<close>, \<open>has_permission\<close> and the two predicates the row policies call,
  \<open>check_access\<close> and \<open>check_cross_app_access\<close>.

  The tables of \<open>rootcx_system\<close> they read are fields of the record \<open>rbac_db\<close>, each a list of
  its rows in the order a scan yields them. The session settings that Core poses
  (\<open>set_config\<close>) are a map from setting to value. PostgreSQL counts characters where Rust
  counts bytes, so \<open>left\<close>, \<open>right\<close> and \<open>substr\<close> go through \<open>utf8_chars\<close>.

  The lemmas show that the copy in the database and the one in \<open>perms.rs\<close> decide alike.
\<close>

section \<open>Tables\<close>

type_synonym uuid = nat

record role_row =
  ro_name :: bytes
  ro_description :: "bytes option"
  ro_inherits :: "bytes list"
  ro_permissions :: "bytes list"

record assignment_row =
  as_user :: uuid
  as_role :: bytes
  as_assigned_at :: nat

record user_row =
  us_id :: uuid
  us_kind :: bytes
  us_is_system :: bool
  us_disabled_at :: "nat option"

record permission_row =
  pm_key :: bytes
  pm_description :: bytes
  pm_source_app :: "bytes option"

record rbac_db = world +
  rbac_assignments :: "assignment_row list"
  rbac_roles :: "role_row list"
  rbac_permissions :: "permission_row list"
  users :: "user_row list"
  public_execution_principals :: "uuid list"
  db_now :: nat

section \<open>Text functions\<close>

definition sql_length :: "bytes \<Rightarrow> nat" where
  "sql_length t = length (utf8_chars t)"

text \<open>\<open>left(t, n)\<close>; a negative \<open>n\<close> drops characters at the end.\<close>

definition sql_left :: "bytes \<Rightarrow> int \<Rightarrow> bytes" where
  "sql_left t n = concat (take (nat (if n < 0 then int (sql_length t) + n else n)) (utf8_chars t))"

definition sql_right :: "bytes \<Rightarrow> nat \<Rightarrow> bytes" where
  "sql_right t n = concat (drop (sql_length t - n) (utf8_chars t))"

text \<open>\<open>substr(t, from, n)\<close> with \<open>from\<close> counted from 1.\<close>

definition sql_substr :: "bytes \<Rightarrow> nat \<Rightarrow> nat \<Rightarrow> bytes" where
  "sql_substr t from n = concat (take n (drop (from - 1) (utf8_chars t)))"

text \<open>\<open>string_to_array(t, ',')\<close> and \<open>split_part(t, c, n)\<close> for a one-character separator.\<close>

fun split_at :: "char \<Rightarrow> bytes \<Rightarrow> bytes \<Rightarrow> bytes list" where
  "split_at c cur [] = [cur]"
| "split_at c cur (x # xs) =
     (if x = c then cur # split_at c [] xs else split_at c (cur @ [x]) xs)"

definition string_to_array :: "char \<Rightarrow> bytes \<Rightarrow> bytes list" where
  "string_to_array c t = (if t = [] then [] else split_at c [] t)"

definition split_part :: "bytes \<Rightarrow> char \<Rightarrow> nat \<Rightarrow> bytes" where
  "split_part t c n =
     (let parts = split_at c [] t in if 0 < n \<and> n \<le> length parts then parts ! (n - 1) else [])"

section \<open>Role expansion and permissions\<close>

text \<open>The array \<open>stack\<close> has its top at the end, \<open>left\<close> is \<open>64 - depth\<close>, and \<open>roles\<close> is the
  table; \<open>SELECT INTO\<close> leaves \<open>NULL\<close> when no row has the name.\<close>

definition sql_inherits :: "role_row list \<Rightarrow> bytes \<Rightarrow> bytes list option" where
  "sql_inherits roles cur =
     (case filter (\<lambda>r. ro_name r = cur) roles of [] \<Rightarrow> None | r # _ \<Rightarrow> Some (ro_inherits r))"

fun sql_push :: "bytes list \<Rightarrow> bytes list \<Rightarrow> bytes list \<Rightarrow> bytes list" where
  "sql_push expanded stack [] = stack"
| "sql_push expanded stack (p # ps) =
     sql_push expanded (if p \<notin> set expanded then stack @ [p] else stack) ps"

fun sql_expand_loop :: "nat \<Rightarrow> role_row list \<Rightarrow> bytes list \<Rightarrow> bytes list \<Rightarrow> bytes list" where
  "sql_expand_loop 0 roles stack expanded = expanded"
| "sql_expand_loop (Suc left) roles stack expanded =
     (if stack = [] then expanded
      else
        (let cur = last stack; stack = butlast stack
         in if cur \<notin> set expanded then
              (let expanded = expanded @ [cur]
               in case sql_inherits roles cur of
                    Some parents \<Rightarrow> sql_expand_loop left roles (sql_push expanded stack parents) expanded
                  | None \<Rightarrow> sql_expand_loop left roles stack expanded)
            else sql_expand_loop left roles stack expanded))"

definition sql_expand_roles :: "role_row list \<Rightarrow> bytes list \<Rightarrow> bytes list" where
  "sql_expand_roles roles assigned = sql_expand_loop 64 roles assigned []"

definition assigned_roles :: "uuid \<Rightarrow> 'z rbac_db_scheme \<Rightarrow> bytes list" where
  "assigned_roles user_id s = map as_role (filter (\<lambda>a. as_user a = user_id) (rbac_assignments s))"

text \<open>\<open>array_agg(DISTINCT perm)\<close> sorts; the order plays no part in what the array grants.\<close>

definition sql_resolve_permissions :: "uuid \<Rightarrow> 'z rbac_db_scheme \<Rightarrow> bytes list" where
  "sql_resolve_permissions user_id s =
     (let assigned = assigned_roles user_id s
      in if assigned = [] then []
         else
           (let all_roles = sql_expand_roles (rbac_roles s) assigned
            in sort_unstable (remdups (concat (map ro_permissions
                 (filter (\<lambda>r. ro_name r \<in> set all_roles) (rbac_roles s)))))))"

definition match_one :: "bytes \<Rightarrow> bytes \<Rightarrow> bool" where
  "match_one p_required p \<longleftrightarrow>
     (if p = ''*'' then True
      else if p = p_required then True
      else if sql_right p 2 = '':*'' then
        (let prefix = sql_left p (int (sql_length p) - 2)
         in sql_left p_required (int (sql_length prefix)) = prefix \<and>
            sql_substr p_required (sql_length prefix + 1) 1 = '':'')
      else False)"

fun match_permission :: "bytes list \<Rightarrow> bytes \<Rightarrow> bool" where
  "match_permission [] p_required = False"
| "match_permission (p # ps) p_required = (if match_one p_required p then True else match_permission ps p_required)"

definition sql_has_permission :: "uuid option \<Rightarrow> bytes \<Rightarrow> 'z rbac_db_scheme \<Rightarrow> bool" where
  "sql_has_permission p_user_id p_required s =
     (case p_user_id of
        None \<Rightarrow> False
      | Some u \<Rightarrow> match_permission (sql_resolve_permissions u s) p_required)"

section \<open>The policy predicates\<close>

type_synonym settings = "bytes \<rightharpoonup> bytes"

text \<open>\<open>coalesce(current_setting(k, true), '')\<close> and \<open>nullif(current_setting(k, true), '')\<close>.\<close>

definition setting_or_empty :: "settings \<Rightarrow> bytes \<Rightarrow> bytes" where
  "setting_or_empty g k = (case g k of Some v \<Rightarrow> v | None \<Rightarrow> [])"

definition setting_or_null :: "settings \<Rightarrow> bytes \<Rightarrow> bytes option" where
  "setting_or_null g k = (case g k of Some v \<Rightarrow> (if v = [] then None else Some v) | None \<Rightarrow> None)"

definition is_mutation :: "bytes \<Rightarrow> bool" where
  "is_mutation action \<longleftrightarrow> action \<in> {''create'', ''update'', ''delete''}"

text \<open>
  What the predicates read besides the settings: the tables of \<open>rbac_db\<close>, the active
  installations, and three functions that are not modelled here: the cast to \<open>uuid\<close> (which
  raises on malformed text, the outer \<open>None\<close> of a predicate), the approved-action gate of
  \<open>approved_actions/gate.sql\<close> and \<open>cross_app_grant_allows\<close> of \<open>cross_app.rs\<close>.
\<close>

record gate_env =
  g_installed :: "bytes \<Rightarrow> bool"
  g_uuid :: "bytes \<Rightarrow> uuid option"
  g_approved_action :: "bytes \<Rightarrow> bool"
  g_cross_app_grant :: "bytes \<Rightarrow> bytes \<Rightarrow> bytes \<Rightarrow> uuid option \<Rightarrow> bool"

text \<open>The key a delegated statement is checked for: while the fixed mutation executor runs, the
  reads of its own collection use the key of the mutation.\<close>

definition delegated_key :: "settings \<Rightarrow> bytes \<Rightarrow> bytes" where
  "delegated_key g p_required =
     (let v_read_key = g ''rootcx.agent_collection_read_key'';
          v_action = setting_or_empty g ''rootcx.agent_collection_mutation''
      in if is_mutation v_action then
           (case v_read_key of
              None \<Rightarrow> p_required
            | Some k \<Rightarrow>
                (let base = sql_left k (int (sql_length k) - 5)
                 in if p_required = k then base @ ''.'' @ v_action
                    else if p_required = k @ own_suffix then base @ ''.'' @ v_action @ own_suffix
                    else p_required))
         else p_required)"

definition check_access :: "gate_env \<Rightarrow> 'z rbac_db_scheme \<Rightarrow> settings \<Rightarrow> bytes \<Rightarrow> bool option" where
  "check_access env s g p_required =
     (if setting_or_empty g ''rootcx.approved_action_id'' \<noteq> [] then Some (g_approved_action env p_required)
      else if setting_or_empty g ''rootcx.publication_id'' \<noteq> [] then Some False
      else if sql_left p_required 4 = ''app:'' \<and>
           setting_or_empty g ''rootcx.human_data_request'' \<noteq> ''1'' \<and>
           Some (split_part p_required CHR '':'' 2) \<noteq> setting_or_null g ''rootcx.app_id'' then Some False
      else if sql_left p_required 4 = ''app:'' \<and> \<not> g_installed env (split_part p_required CHR '':'' 2) then Some False
      else
        (case setting_or_null g ''rootcx.user_id'' of
           None \<Rightarrow> Some False
         | Some text \<Rightarrow>
             (case g_uuid env text of
                None \<Rightarrow> None
              | Some v_user_id \<Rightarrow>
                  (if g ''rootcx.is_delegated'' = Some ''1'' then
                     (let v_perms = setting_or_empty g ''rootcx.effective_perms''
                      in if v_perms = [] then Some False
                         else Some (match_permission (string_to_array CHR '','' v_perms) (delegated_key g p_required)))
                   else Some (sql_has_permission (Some v_user_id) p_required s)))))"

definition pinned_key :: "settings \<Rightarrow> bytes \<Rightarrow> bytes" where
  "pinned_key g p_required =
     (let v_action = setting_or_empty g ''rootcx.cross_app_action''
      in if is_mutation v_action then
           (if sql_right p_required 5 = ''.read'' then
              sql_left p_required (int (sql_length p_required) - 5) @ ''.'' @ v_action
            else if sql_right p_required 9 = ''.read.own'' then
              sql_left p_required (int (sql_length p_required) - 9) @ ''.'' @ v_action @ own_suffix
            else p_required)
         else p_required)"

definition strip_own_action :: "bytes \<Rightarrow> bytes" where
  "strip_own_action p_required =
     (if list_ex (\<lambda>a. ends_with p_required (''.'' @ a @ own_suffix)) [''read'', ''create'', ''update'', ''delete'']
      then sql_left p_required (int (sql_length p_required) - 4) else p_required)"

definition check_cross_app_access :: "gate_env \<Rightarrow> settings \<Rightarrow> bytes \<Rightarrow> bool" where
  "check_cross_app_access env g p_required =
     (if setting_or_empty g ''rootcx.approved_action_id'' \<noteq> [] then False
      else if setting_or_empty g ''rootcx.publication_id'' \<noteq> [] then False
      else if setting_or_null g ''rootcx.user_id'' = None then False
      else if g ''rootcx.is_delegated'' = Some ''1'' \<and>
           (setting_or_empty g ''rootcx.effective_perms'' = [] \<or>
            \<not> match_permission (string_to_array CHR '','' (setting_or_empty g ''rootcx.effective_perms''))
                (pinned_key g p_required)) then False
      else
        (let v_source = setting_or_empty g ''rootcx.cross_app_source_app'';
             v_target = setting_or_empty g ''rootcx.app_id'';
             v_required = strip_own_action p_required
         in case setting_or_null g ''rootcx.cross_app_grant_id'' of
              None \<Rightarrow> g_cross_app_grant env v_required v_target v_source None
            | Some text \<Rightarrow>
                (case g_uuid env text of
                   None \<Rightarrow> False
                 | Some v_grant \<Rightarrow> g_cross_app_grant env v_required v_target v_source (Some v_grant))))"

section \<open>Characters and bytes\<close>

lemma utf8_chars_append:
  "(b \<noteq> [] \<Longrightarrow> \<not> is_cont (hd b)) \<Longrightarrow> utf8_chars (a @ b) = utf8_chars a @ utf8_chars b"
proof (induction a rule: utf8_chars.induct)
  case (2 c cs)
  have tw: "takeWhile is_cont (cs @ b) = takeWhile is_cont cs"
    using "2.prems" by (cases b) (auto simp: takeWhile_append takeWhile_eq_all_conv [THEN iffD2])
  have "dropWhile is_cont (cs @ b) = dropWhile is_cont cs @ b"
    using "2.prems" by (cases b) (auto simp: dropWhile_append)
  with 2 tw show ?case by simp
qed simp

lemma sql_left_append:
  assumes "b \<noteq> [] \<Longrightarrow> \<not> is_cont (hd b)"
  shows "sql_left (a @ b) (int (sql_length a)) = a"
  using utf8_chars_append [OF assms] by (simp add: sql_left_def sql_length_def)

lemma sql_right_append:
  assumes "b \<noteq> [] \<Longrightarrow> \<not> is_cont (hd b)"
  shows "sql_right (a @ b) (sql_length b) = b"
  using utf8_chars_append [OF assms] by (simp add: sql_right_def sql_length_def)

lemma sql_length_append:
  "(b \<noteq> [] \<Longrightarrow> \<not> is_cont (hd b)) \<Longrightarrow> sql_length (a @ b) = sql_length a + sql_length b"
  using utf8_chars_append [of b a] by (simp add: sql_length_def)

lemma sql_right_suffix: "\<exists>r. t = r @ sql_right t n"
  unfolding sql_right_def sql_length_def
  by (metis append_take_drop_id concat_append concat_utf8_chars)

text \<open>A non-empty ASCII string has as many characters as bytes.\<close>

lemma utf8_chars_ascii: "list_all (\<lambda>c. \<not> is_cont c) t \<Longrightarrow> utf8_chars t = map (\<lambda>c. [c]) t"
proof (induction t)
  case (Cons c cs)
  then have "takeWhile is_cont cs = []" "dropWhile is_cont cs = cs" by (cases cs; auto)+
  with Cons show ?case by simp
qed simp

lemma sql_left_ascii: "list_all (\<lambda>c. \<not> is_cont c) t \<Longrightarrow> sql_left t (int n) = take n t"
  by (simp add: sql_left_def utf8_chars_ascii take_map)

lemma sql_length_ascii: "list_all (\<lambda>c. \<not> is_cont c) t \<Longrightarrow> sql_length t = length t"
  by (simp add: sql_length_def utf8_chars_ascii)

lemma wildcard_sql:
  "sql_right p 2 = '':*'' \<longleftrightarrow> (\<exists>pre. p = pre @ '':*'')"
proof
  assume "sql_right p 2 = '':*''"
  then show "\<exists>pre. p = pre @ '':*''" using sql_right_suffix [of p 2] by metis
next
  assume "\<exists>pre. p = pre @ '':*''"
  moreover have "sql_length '':*'' = 2" by (simp add: sql_length_def is_cont_def byte_def)
  moreover have "\<not> is_cont (CHR '':'')" by (simp add: is_cont_def byte_def)
  ultimately show "sql_right p 2 = '':*''" using sql_right_append [of "'':*''"] by auto
qed

lemma colon_ascii: "\<not> is_cont (CHR '':'')" "sql_length '':*'' = 2"
  by (simp_all add: sql_length_def is_cont_def byte_def)

lemma sql_left_wildcard: "sql_left (pre @ '':*'') (int (sql_length (pre @ '':*'')) - 2) = pre"
  using sql_left_append [of "'':*''" pre] sql_length_append [of "'':*''" pre] colon_ascii by simp

text \<open>The shape every UTF-8 string has: each character is a lead byte with the continuation bytes
  it announces.\<close>

definition utf8_char :: "bytes \<Rightarrow> bool" where
  "utf8_char ch \<longleftrightarrow>
     (case ch of
        [a] \<Rightarrow> byte a < 128
      | [a, b] \<Rightarrow> 194 \<le> byte a \<and> byte a < 224
      | [a, b, c] \<Rightarrow> 224 \<le> byte a \<and> byte a < 240
      | [a, b, c, d] \<Rightarrow> 240 \<le> byte a \<and> byte a < 245
      | _ \<Rightarrow> False)"

definition utf8_shaped :: "bytes \<Rightarrow> bool" where
  "utf8_shaped t \<longleftrightarrow> list_all utf8_char (utf8_chars t)"

lemma utf8_char_ascii: "utf8_char (a # ch) \<Longrightarrow> byte a < 128 \<Longrightarrow> ch = []"
  by (auto simp: utf8_char_def split: list.splits)

lemma sql_substr_colon:
  assumes shaped: "utf8_shaped r"
  shows "sql_left r (int (sql_length pre)) = pre \<and> sql_substr r (sql_length pre + 1) 1 = '':'' \<longleftrightarrow>
   (\<exists>rest. r = pre @ '':'' @ rest)"
proof
  assume l: "sql_left r (int (sql_length pre)) = pre \<and> sql_substr r (sql_length pre + 1) 1 = '':''"
  have "r = sql_left r (int (sql_length pre)) @ concat (drop (sql_length pre) (utf8_chars r))"
    unfolding sql_left_def by (simp flip: concat_append)
  moreover have "concat (drop (sql_length pre) (utf8_chars r)) =
      sql_substr r (sql_length pre + 1) 1 @ concat (drop 1 (drop (sql_length pre) (utf8_chars r)))"
    unfolding sql_substr_def by (metis add_diff_cancel_right' append_take_drop_id concat_append)
  ultimately show "\<exists>rest. r = pre @ '':'' @ rest" using l by metis
next
  assume "\<exists>rest. r = pre @ '':'' @ rest"
  then obtain rest where r: "r = pre @ '':'' @ rest" by blast
  have colon: "\<not> is_cont (CHR '':'')" by (simp add: is_cont_def byte_def)
  have "utf8_chars r = utf8_chars pre @ utf8_chars ('':'' @ rest)"
    unfolding r using colon by (intro utf8_chars_append) simp
  then have chars: "utf8_chars r = utf8_chars pre @ (CHR '':'' # takeWhile is_cont rest) # utf8_chars (dropWhile is_cont rest)"
    by simp
  then have "utf8_char (CHR '':'' # takeWhile is_cont rest)"
    using shaped by (simp add: utf8_shaped_def)
  then have "takeWhile is_cont rest = []"
    by (rule utf8_char_ascii) (simp add: byte_def)
  then show "sql_left r (int (sql_length pre)) = pre \<and> sql_substr r (sql_length pre + 1) 1 = '':''"
    using chars by (simp add: sql_left_def sql_substr_def sql_length_def)
qed

lemma match_one_key_matches:
  assumes "utf8_shaped required"
  shows "match_one required p \<longleftrightarrow> key_matches p required"
proof (cases "\<exists>pre. p = pre @ '':*''")
  case True
  then obtain pre where p: "p = pre @ '':*''" by blast
  have right: "sql_right p 2 = '':*''" using True wildcard_sql by blast
  have "match_one required p \<longleftrightarrow> p = ''*'' \<or> p = required \<or> (\<exists>rest. required = pre @ '':'' @ rest)"
    using sql_substr_colon [OF assms, of pre] sql_left_wildcard [of pre] right
    unfolding match_one_def p by (simp add: Let_def)
  then show ?thesis unfolding key_matches_iff p by auto
next
  case False
  then have "sql_right p 2 \<noteq> '':*''" using wildcard_sql by blast
  with False show ?thesis unfolding match_one_def key_matches_iff by auto
qed

lemma match_permission_iff:
  "utf8_shaped required \<Longrightarrow> match_permission perms required \<longleftrightarrow> has_permission perms required"
  by (induction perms) (auto simp: match_one_key_matches)

section \<open>Both expansions agree\<close>

definition hierarchy_of :: "role_row list \<Rightarrow> role_map" where
  "hierarchy_of roles = map (\<lambda>r. (ro_name r, ro_inherits r)) roles"

lemma parents_of_hierarchy:
  "parents_of (hierarchy_of roles) r = (case sql_inherits roles r of Some ps \<Rightarrow> ps | None \<Rightarrow> [])"
  by (induction roles) (auto simp: parents_of_def hierarchy_of_def sql_inherits_def)

lemma sql_push_filter: "sql_push ex stack ps = stack @ filter (\<lambda>p. p \<notin> set ex) ps"
  by (induction ps arbitrary: stack) auto

lemma sql_expand_loop_eq:
  "sql_expand_loop n roles stack ex = expand_loop n (hierarchy_of roles) (rev stack) ex"
proof (induction n arbitrary: stack ex)
  case 0
  then show ?case by (cases "rev stack") auto
next
  case (Suc n)
  show ?case
  proof (cases stack rule: rev_cases)
    case (snoc st cur)
    then show ?thesis
      by (auto simp: Suc.IH Let_def parents_of_hierarchy sql_push_filter simp del: filter_append
          split: option.splits)
  qed simp
qed

lemma sql_expand_roles_eq: "sql_expand_roles roles assigned = expand_roles assigned (hierarchy_of roles)"
  by (simp add: sql_expand_roles_def expand_roles_def MAX_ROLE_DEPTH_def sql_expand_loop_eq)

definition role_grants :: "role_row list \<Rightarrow> bytes list \<Rightarrow> bytes set" where
  "role_grants roles names = (\<Union>r \<in> {r \<in> set roles. ro_name r \<in> set names}. set (ro_permissions r))"

lemma set_sql_resolve_permissions:
  "set (sql_resolve_permissions u s) =
   role_grants (rbac_roles s) (expand_roles (assigned_roles u s) (hierarchy_of (rbac_roles s)))"
proof (cases "assigned_roles u s = []")
  case True
  moreover have "expand_roles [] rm = []" for rm
    by (simp add: expand_roles_def MAX_ROLE_DEPTH_def)
  ultimately show ?thesis by (simp add: sql_resolve_permissions_def role_grants_def)
next
  case False
  then show ?thesis
    by (simp add: sql_resolve_permissions_def Let_def sql_expand_roles_eq role_grants_def)
qed

lemma split_at_join:
  assumes "c \<notin> set cur" "\<forall>x \<in> set xs. c \<notin> set x"
  shows "split_at c cur (concat (map (\<lambda>x. c # x) xs)) = cur # xs"
proof -
  have prefix: "split_at c cur (x @ c # rest) = (cur @ x) # split_at c [] rest" if "c \<notin> set x" for cur x rest
    using that by (induction x arbitrary: cur) auto
  have whole: "split_at c cur x = [cur @ x]" if "c \<notin> set x" for cur x
    using that by (induction x arbitrary: cur) auto
  show ?thesis using assms
  proof (induction xs arbitrary: cur)
    case (Cons x xs)
    show ?case
    proof (cases xs)
      case Nil
      with Cons whole show ?thesis by auto
    next
      case (Cons y ys)
      then show ?thesis using Cons.IH Cons.prems prefix [of x "[]"] by auto
    qed
  qed simp
qed

lemma join_Cons: "join [c] (x # xs) = x @ concat (map (\<lambda>y. c # y) xs)"
  by (induction xs arbitrary: x) auto

lemma split_at_prefix: "c \<notin> set x \<Longrightarrow> split_at c cur (x @ rest) = split_at c (cur @ x) rest"
  by (induction x arbitrary: cur) auto

lemma string_to_array_join:
  assumes "\<forall>x \<in> set xs. c \<notin> set x \<and> x \<noteq> []"
  shows "string_to_array c (join [c] xs) = xs"
proof (cases xs)
  case (Cons x ys)
  then show ?thesis
    using assms split_at_prefix [of c x "[]" "concat (map (\<lambda>y. c # y) ys)"] split_at_join [of c x ys]
    by (auto simp: string_to_array_def join_Cons)
qed (simp add: string_to_array_def)

end
