(* ===== verification/Json.thy ===== *)
theory Json
  imports Prelude
begin

text \<open>
  JSON values as \<open>serde_json\<close> holds them (\<open>serde_json::Value\<close>, without the
  \<open>preserve_order\<close> feature).

  A \<open>Number\<close> is an unsigned 64-bit integer, a negative signed one or a finite \<open>f64\<close>. An
  \<open>f64\<close> is represented by its shortest decimal form \<open>\<plusminus>m * 10^e\<close>, the form both the standard
  library and the serializer print it from. An object is a \<open>BTreeMap\<close>: an association list in
  ascending key order.
\<close>

datatype f64 = F64 (f_negative: bool) (f_digits: nat) (f_exp: int)

datatype json_number = PosInt nat | NegInt int | Float f64

datatype json =
    JNull
  | JBool bool
  | JNumber json_number
  | JString bytes
  | JArray "json list"
  | JObject "(bytes \<times> json) list"

section \<open>Numbers\<close>

fun as_i64 :: "json_number \<Rightarrow> int option" where
  "as_i64 (PosInt n) = (if n < 2 ^ 63 then Some (int n) else None)"
| "as_i64 (NegInt i) = Some i"
| "as_i64 (Float x) = None"

fun as_u64 :: "json_number \<Rightarrow> nat option" where
  "as_u64 (PosInt n) = Some n"
| "as_u64 (NegInt i) = None"
| "as_u64 (Float x) = None"

definition show_int :: "int \<Rightarrow> bytes" where
  "show_int i = (if i < 0 then ''-'' @ show_nat (nat (- i)) else show_nat (nat i))"

text \<open>\<open>impl Display for f64\<close>: the shortest digits with the point put in place, never an exponent.\<close>

definition show_f64 :: "f64 \<Rightarrow> bytes" where
  "show_f64 x =
     (let ds = show_nat (f_digits x); e = f_exp x; k = nat (- e) in
      (if f_negative x then ''-'' else []) @
      (if 0 \<le> e then ds @ (if f_digits x = 0 then [] else replicate (nat e) CHR ''0'')
       else if k < length ds then take (length ds - k) ds @ ''.'' @ drop (length ds - k) ds
       else ''0.'' @ replicate (k - length ds) CHR ''0'' @ ds))"

section \<open>Access\<close>

fun as_str :: "json \<Rightarrow> bytes option" where
  "as_str (JString s) = Some s"
| "as_str _ = None"

fun as_bool :: "json \<Rightarrow> bool option" where
  "as_bool (JBool b) = Some b"
| "as_bool _ = None"

fun as_array :: "json \<Rightarrow> json list option" where
  "as_array (JArray xs) = Some xs"
| "as_array _ = None"

fun as_object :: "json \<Rightarrow> (bytes \<times> json) list option" where
  "as_object (JObject m) = Some m"
| "as_object _ = None"

fun value_as_u64 :: "json \<Rightarrow> nat option" where
  "value_as_u64 (JNumber n) = as_u64 n"
| "value_as_u64 _ = None"

fun value_as_i64 :: "json \<Rightarrow> int option" where
  "value_as_i64 (JNumber n) = as_i64 n"
| "value_as_i64 _ = None"

text \<open>\<open>Value::get\<close> with a key: \<open>None\<close> unless the value is an object that has it.\<close>

definition get_key :: "json \<Rightarrow> bytes \<Rightarrow> json option" where
  "get_key v k = Option.bind (as_object v) (\<lambda>m. map_of m k)"

fun is_object :: "json \<Rightarrow> bool" where
  "is_object (JObject m) = True"
| "is_object _ = False"

fun is_null :: "json \<Rightarrow> bool" where
  "is_null JNull = True"
| "is_null _ = False"

section \<open>Maps\<close>

text \<open>\<open>BTreeMap::insert\<close> keeps the keys ascending.\<close>

fun btree_insert :: "bytes \<Rightarrow> 'a \<Rightarrow> (bytes \<times> 'a) list \<Rightarrow> (bytes \<times> 'a) list" where
  "btree_insert k v [] = [(k, v)]"
| "btree_insert k v ((k', v') # m) =
     (if k = k' then (k, v) # m
      else if bytes_less k k' then (k, v) # (k', v') # m
      else (k', v') # btree_insert k v m)"

definition btree_of :: "(bytes \<times> 'a) list \<Rightarrow> (bytes \<times> 'a) list" where
  "btree_of kvs = fold (\<lambda>(k, v) m. btree_insert k v m) kvs []"

text \<open>\<open>json!({ ... })\<close>\<close>

definition jobj :: "(bytes \<times> json) list \<Rightarrow> json" where
  "jobj kvs = JObject (btree_of kvs)"

definition keys_sorted :: "(bytes \<times> 'a) list \<Rightarrow> bool" where
  "keys_sorted m \<longleftrightarrow> sorted_wrt bytes_less (map fst m)"

lemma map_of_btree_insert [simp]:
  "map_of (btree_insert k v m) = (map_of m)(k \<mapsto> v)"
  by (induction m rule: btree_insert.induct) (auto simp: fun_eq_iff)

lemma fst_btree_insert [simp]: "fst ` set (btree_insert k v m) = insert k (fst ` set m)"
  by (induction m rule: btree_insert.induct) auto

lemma keys_sorted_insert: "keys_sorted m \<Longrightarrow> keys_sorted (btree_insert k v m)"
proof (induction k v m rule: btree_insert.induct)
  case (2 k v k' v' m)
  show ?case
  proof (cases "k = k' \<or> bytes_less k k'")
    case True
    then show ?thesis using "2.prems" bytes_less_trans by (fastforce simp: keys_sorted_def)
  next
    case False
    then have "bytes_less k' k" using bytes_less_total by blast
    moreover have "keys_sorted (btree_insert k v m)" using 2 False by (auto simp: keys_sorted_def)
    moreover have "bytes_less k' x" if "x \<in> fst ` set (btree_insert k v m)" for x
      using that "2.prems" \<open>bytes_less k' k\<close> by (auto simp: keys_sorted_def)
    ultimately show ?thesis using False by (simp add: keys_sorted_def image_iff Ball_def)
  qed
qed (simp add: keys_sorted_def)

lemma keys_sorted_distinct: "keys_sorted m \<Longrightarrow> distinct (map fst m)"
  unfolding keys_sorted_def
  by (induction m) auto

lemma keys_sorted_btree_of: "keys_sorted (btree_of kvs)"
proof -
  have "keys_sorted m \<Longrightarrow> keys_sorted (fold (\<lambda>(k, v) m. btree_insert k v m) kvs m)" for m :: "(bytes \<times> 'a) list"
    by (induction kvs arbitrary: m) (auto intro: keys_sorted_insert)
  then show ?thesis by (simp add: btree_of_def keys_sorted_def)
qed

lemma map_of_btree_of: "distinct (map fst kvs) \<Longrightarrow> map_of (btree_of kvs) = map_of kvs"
proof -
  have "distinct (map fst kvs) \<Longrightarrow> fst ` set m \<inter> fst ` set kvs = {} \<Longrightarrow>
      map_of (fold (\<lambda>(k, v) m. btree_insert k v m) kvs m) = map_of m ++ map_of kvs" for m :: "(bytes \<times> 'a) list"
  proof (induction kvs arbitrary: m)
    case (Cons kv kvs)
    have "map_of (fold (\<lambda>(k, v) m. btree_insert k v m) kvs (btree_insert (fst kv) (snd kv) m)) =
        map_of (btree_insert (fst kv) (snd kv) m) ++ map_of kvs"
      using Cons.prems by (intro Cons.IH) auto
    moreover have "map_of kvs (fst kv) = None" using Cons.prems by (simp add: map_of_eq_None_iff)
    ultimately show ?case by (auto simp: case_prod_unfold map_add_def fun_eq_iff split: option.splits)
  qed simp
  then show "distinct (map fst kvs) \<Longrightarrow> map_of (btree_of kvs) = map_of kvs"
    by (simp add: btree_of_def)
qed

lemma get_key_jobj: "distinct (map fst kvs) \<Longrightarrow> get_key (jobj kvs) k = map_of kvs k"
  by (simp add: get_key_def jobj_def map_of_btree_of)

end
