(* ===== verification/Contracts.thy ===== *)
theory Contracts
  imports Json
begin

text \<open>
  The data contract of an app manifest, from \<open>shared-types/src/lib.rs\<close>: entities with their
  fields, field rules, indexes, checks and shares. Record fields carry the prefix of their
  struct (\<open>f_\<close>, \<open>r_\<close>, \<open>ix_\<close>, ...). Integers of 16 and 32 bits are naturals: they are only compared
  and printed.
\<close>

datatype on_delete_policy = Cascade | Restrict | SetNull

record field_reference =
  ref_entity :: bytes
  ref_field :: bytes

record field_rules =
  r_minimum :: "json option"
  r_maximum :: "json option"
  r_exclusive_minimum :: "json option"
  r_exclusive_maximum :: "json option"
  r_integer :: bool
  r_max_scale :: "nat option"
  r_min_length :: "nat option"
  r_max_length :: "nat option"
  r_not_blank :: bool
  r_format :: "bytes option"
  r_pattern :: "bytes option"
  r_json_type :: "bytes option"
  r_max_items :: "nat option"

record field_contract =
  f_name :: bytes
  f_type :: bytes
  f_precision :: "nat option"
  f_scale :: "nat option"
  f_required :: bool
  f_default_value :: "json option"
  f_enum_values :: "bytes list option"
  f_references :: "field_reference option"
  f_is_primary_key :: "bool option"
  f_on_delete :: "on_delete_policy option"
  f_sensitive :: bool
  f_owner :: bool
  f_rules :: field_rules
  f_unknown :: "(bytes \<times> json) list"

record index_column_spec =
  sp_column :: "bytes option"
  sp_expr :: "bytes option"
  sp_sort :: "bytes option"
  sp_nulls :: "bytes option"
  sp_ops :: "bytes option"
  sp_unknown :: "(bytes \<times> json) list"

datatype index_column = CName bytes | CSpec index_column_spec

record index_contract =
  ix_name :: "bytes option"
  ix_columns :: "index_column list"
  ix_unique :: bool
  ix_using :: "bytes option"
  ix_where :: "bytes option"
  ix_with :: "(bytes \<times> bytes) list"
  ix_unknown :: "(bytes \<times> json) list"

record check_contract =
  ck_name :: "bytes option"
  ck_expr :: bytes
  ck_unknown :: "(bytes \<times> json) list"

datatype share_scope = IdentityScope | ResourceScope

record share_target =
  tg_entity :: bytes
  tg_via :: "bytes list"

record share_contract =
  sh_grantee :: bytes
  sh_subject :: bytes
  sh_active_when :: bytes
  sh_scope :: share_scope
  sh_targets :: "share_target list"

record entity_contract =
  e_name :: bytes
  e_fields :: "field_contract list"
  e_share :: "share_contract option"
  e_identity_kind :: "bytes option"
  e_identity_key :: "bytes option"
  e_indexes :: "index_contract list"
  e_checks :: "check_contract list"
  e_derived_from :: "bytes option"
  e_unknown :: "(bytes \<times> json) list"

definition is_derived :: "entity_contract \<Rightarrow> bool" where
  "is_derived e \<longleftrightarrow> e_derived_from e \<noteq> None"

definition keys_entity :: "entity_contract \<Rightarrow> bytes" where
  "keys_entity e = (case e_derived_from e of Some s \<Rightarrow> s | None \<Rightarrow> e_name e)"

text \<open>\<open>#[derive(Default)]\<close> of the structs that have it.\<close>

definition default_rules :: field_rules where
  "default_rules =
     \<lparr>r_minimum = None, r_maximum = None, r_exclusive_minimum = None, r_exclusive_maximum = None,
      r_integer = False, r_max_scale = None, r_min_length = None, r_max_length = None,
      r_not_blank = False, r_format = None, r_pattern = None, r_json_type = None, r_max_items = None\<rparr>"

definition default_field :: field_contract where
  "default_field =
     \<lparr>f_name = [], f_type = [], f_precision = None, f_scale = None, f_required = False,
      f_default_value = None, f_enum_values = None, f_references = None, f_is_primary_key = None,
      f_on_delete = None, f_sensitive = False, f_owner = False, f_rules = default_rules, f_unknown = []\<rparr>"

end
