(* ===== verification/Idents.thy ===== *)
theory Idents
  imports Contracts
begin

text \<open>
  Names and quoting, from \<open>manifest.rs\<close>: the two quoting functions every generated statement
  goes through, the rules for identifiers, and the fitting of generated names to the limit of
  PostgreSQL. \<open>Sha256::digest\<close> is a parameter, from bytes to bytes.

  \<open>read_quoted\<close> is how PostgreSQL reads a quoted identifier or a standard string literal; it is
  the specification the quoting functions are checked against.
\<close>

definition SYSTEM_FIELDS :: "bytes list" where
  "SYSTEM_FIELDS = [''id'', ''created_at'', ''updated_at'']"

definition is_system_field :: "bytes \<Rightarrow> bool" where
  "is_system_field name \<longleftrightarrow> name \<in> set SYSTEM_FIELDS"

section \<open>Quoting\<close>

definition quote_ident :: "bytes \<Rightarrow> bytes" where
  "quote_ident ident = [DQ] @ replace_char DQ [DQ, DQ] ident @ [DQ]"

definition quote_literal :: "bytes \<Rightarrow> bytes" where
  "quote_literal s = [SQ] @ replace_char SQ [SQ, SQ] s @ [SQ]"

text \<open>The text after an opening quote: a doubled quote is one quote, a single one closes.\<close>

fun read_quoted :: "char \<Rightarrow> bytes \<Rightarrow> (bytes \<times> bytes) option" where
  "read_quoted q [] = None"
| "read_quoted q [c] = (if c = q then Some ([], []) else None)"
| "read_quoted q (c # d # cs) =
     (if c = q then
        (if d = q then map_option (\<lambda>(v, r). (q # v, r)) (read_quoted q cs) else Some ([], d # cs))
      else map_option (\<lambda>(v, r). (c # v, r)) (read_quoted q (d # cs)))"

lemma read_quoted_Cons: "c \<noteq> q \<Longrightarrow> read_quoted q (c # s) = map_option (\<lambda>(v, r). (c # v, r)) (read_quoted q s)"
  by (cases s) auto

lemma read_quoted_close: "rest = [] \<or> hd rest \<noteq> q \<Longrightarrow> read_quoted q (q # rest) = Some ([], rest)"
  by (cases rest) auto

lemma read_quoted_replace:
  assumes "rest = [] \<or> hd rest \<noteq> q"
  shows "read_quoted q (replace_char q [q, q] s @ q # rest) = Some (s, rest)"
  using assms by (induction s) (auto simp: read_quoted_Cons read_quoted_close)

section \<open>Identifiers\<close>

definition MAX_IDENT_BYTES :: nat where "MAX_IDENT_BYTES = 63"

definition ident_byte :: "char \<Rightarrow> bool" where
  "ident_byte b \<longleftrightarrow> is_lower b \<or> is_digit b \<or> b = CHR ''_''"

definition validate_ident :: "bytes \<Rightarrow> bytes \<Rightarrow> bytes + unit" where
  "validate_ident value label =
     guard (value \<noteq> [] \<and> is_lower (hd value) \<and> list_all ident_byte value)
       (label @ '' '' @ sq value @
        '' must be snake_case (lowercase letters, digits, underscores; start with a letter)'')"

definition validate_new_ident :: "bytes \<Rightarrow> bytes \<Rightarrow> bytes + unit" where
  "validate_new_ident value label =
     res_bind (validate_ident value label) (\<lambda>_.
       guard (length value \<le> MAX_IDENT_BYTES)
         (label @ '' '' @ sq value @ '' is '' @ show_nat (length value) @
          '' bytes; PostgreSQL names are limited to '' @ show_nat MAX_IDENT_BYTES))"

definition RESERVED_SCHEMAS :: "bytes list" where
  "RESERVED_SCHEMAS =
     [''rootcx_system'', ''rootcx_ext'', ''pgmq'', ''cron'', ''public'', ''information_schema'']"

definition perm_key_byte :: "char \<Rightarrow> bool" where
  "perm_key_byte b \<longleftrightarrow>
     is_lower b \<or> is_digit b \<or> b = CHR ''_'' \<or> b = CHR '':'' \<or> b = CHR ''.'' \<or> b = CHR ''*''"

definition validate_perm_key :: "bytes \<Rightarrow> bytes + unit" where
  "validate_perm_key key =
     guard (key \<noteq> [] \<and> list_all perm_key_byte key)
       (''permission key '' @ sq key @ '' must match [a-z0-9_:.*]'')"

section \<open>Fitting\<close>

definition hex_digit :: "nat \<Rightarrow> char" where
  "hex_digit d = (if d < 10 then char_of (48 + d) else char_of (87 + d))"

definition hex_encode :: "bytes \<Rightarrow> bytes" where
  "hex_encode bs = concat (map (\<lambda>b. [hex_digit (byte b div 16), hex_digit (byte b mod 16)]) bs)"

definition is_char_boundary :: "bytes \<Rightarrow> nat \<Rightarrow> bool" where
  "is_char_boundary s i \<longleftrightarrow> i = length s \<or> (i < length s \<and> \<not> is_cont (s ! i))"

text \<open>\<open>None\<close> is the panic of \<open>name[..54]\<close> off a character boundary; on a boundary the loop that
  follows does not run.\<close>

definition fit_ident :: "(bytes \<Rightarrow> bytes) \<Rightarrow> bytes \<Rightarrow> bytes option" where
  "fit_ident sha256 name =
     (if length name \<le> MAX_IDENT_BYTES then Some name
      else if \<not> is_char_boundary name 54 then None
      else Some (take 54 name @ ''_'' @ hex_encode (take 4 (sha256 name))))"

lemma length_hex_encode [simp]: "length (hex_encode bs) = 2 * length bs"
  by (induction bs) (auto simp: hex_encode_def)

lemma hex_digit_ident: "d < 16 \<Longrightarrow> ident_byte (hex_digit d)"
  by (auto simp: hex_digit_def ident_byte_def is_lower_def is_digit_def byte_def of_char_of)

lemma hex_encode_ident: "list_all ident_byte (hex_encode bs)"
  by (auto simp: hex_encode_def list_all_iff less_mult_imp_div_less intro!: hex_digit_ident)

lemma ident_byte_ascii: "ident_byte b \<Longrightarrow> \<not> is_cont b"
  by (auto simp: ident_byte_def is_lower_def is_digit_def is_cont_def byte_def)

lemma validate_ident_Inr [simp]:
  "validate_ident v l = Inr u \<longleftrightarrow> v \<noteq> [] \<and> is_lower (hd v) \<and> list_all ident_byte v"
  by (simp add: validate_ident_def)

lemma list_all_take: "list_all P xs \<Longrightarrow> list_all P (take n xs)"
  by (auto simp: list_all_iff dest: in_set_takeD)

lemma fit_ident_long:
  assumes "list_all ident_byte name" "\<not> length name \<le> MAX_IDENT_BYTES"
  shows "fit_ident sha256 name = Some (take 54 name @ ''_'' @ hex_encode (take 4 (sha256 name)))"
proof -
  have "\<not> is_cont (name ! 54)"
    using assms by (auto simp: list_all_length MAX_IDENT_BYTES_def intro!: ident_byte_ascii)
  with assms show ?thesis by (simp add: fit_ident_def is_char_boundary_def MAX_IDENT_BYTES_def)
qed

text \<open>
  Fitting a valid identifier never panics and gives a valid identifier within PostgreSQL's
  limit of 63 bytes; a name that already fits is unchanged. (The digest has at least four bytes,
  of which four are used, or fewer.)
\<close>
theorem fit_ident_valid:
  assumes "validate_ident name label = Inr ()"
  shows "\<exists>r. fit_ident sha256 name = Some r \<and> validate_new_ident r label = Inr () \<and>
    (length name \<le> 63 \<longrightarrow> r = name)"
proof (cases "length name \<le> MAX_IDENT_BYTES")
  case True
  with assms show ?thesis by (auto simp: fit_ident_def validate_new_ident_def)
next
  case False
  let ?r = "take 54 name @ ''_'' @ hex_encode (take 4 (sha256 name))"
  have valid: "name \<noteq> []" "is_lower (hd name)" "list_all ident_byte name" using assms by auto
  then have "list_all ident_byte ?r" "hd ?r = hd name"
    by (auto simp: hex_encode_ident list_all_take ident_byte_def neq_Nil_conv)
  moreover have "length ?r \<le> MAX_IDENT_BYTES" by (simp add: MAX_IDENT_BYTES_def)
  ultimately have "validate_new_ident ?r label = Inr ()"
    using valid by (simp add: validate_new_ident_def)
  with fit_ident_long [OF valid(3) False] False show ?thesis by (simp add: MAX_IDENT_BYTES_def)
qed

theorem fit_ident_valid_witness:
  "\<exists>r. fit_ident (\<lambda>s. take 4 s) (replicate 80 CHR ''a'') = Some r \<and> length r \<le> MAX_IDENT_BYTES"
proof -
  have "validate_ident (replicate 80 CHR ''a'') ''check name'' = Inr ()"
    by (simp add: list_all_iff ident_byte_def is_lower_def byte_def)
  from fit_ident_valid [OF this, of "\<lambda>s. take 4 s"] show ?thesis
    by (auto simp: validate_new_ident_def)
qed


end
