(* ===== verification/Authority_Policy.thy ===== *)
theory Authority_Policy
  imports Authority_Sql Idents Contracts
begin

text \<open>
  The questions the runtime asks of the permission tables, from
  \<open>governance/authority/policy.rs\<close>: what a user may do (\<open>resolve_permissions\<close>), the gates
  (\<open>require_perm\<close>, \<open>require_admin\<close>), and the authority of an agent that works for somebody
  else (\<open>effective_for_pair\<close>, \<open>effective_under_parent\<close>, \<open>delegated_effective\<close>). Each is an
  action on the tables, and any of its statements may fail.
\<close>

text \<open>A statement whose error becomes an \<open>ApiError\<close>.\<close>

definition query :: "('z world_scheme, sqlx_error, 'a) act \<Rightarrow> ('z world_scheme, api_error, 'a) act" where
  "query m = act_map_err (api_of_sqlx RESERVED_SCHEMAS) (stmt m)"

definition collect_perms :: "(bytes \<times> bytes list) list \<Rightarrow> bytes list \<Rightarrow> bytes list" where
  "collect_perms role_perms expanded =
     fold (\<lambda>role acc. case map_of role_perms role of Some perms \<Rightarrow> fold set_insert perms acc | None \<Rightarrow> acc)
       expanded []"

definition resolve_permissions ::
  "uuid \<Rightarrow> ('z rbac_db_scheme, api_error, bytes list \<times> bytes list) act" where
  "resolve_permissions user_id =
     act_bind (query (act_get (assigned_roles user_id))) (\<lambda>assigned_names.
       if assigned_names = [] then act_return ([], [])
       else
         act_bind (query (act_get (\<lambda>s. map (\<lambda>r. (ro_name r, ro_inherits r, ro_permissions r)) (rbac_roles s))))
           (\<lambda>rows.
             let hierarchy = map_extend [] (map (\<lambda>(name, inherits, _). (name, inherits)) rows);
                 role_perms = map_extend [] (map (\<lambda>(name, _, perms). (name, perms)) rows);
                 expanded = expand_roles assigned_names hierarchy
             in act_return (sort_unstable expanded, sort_unstable (collect_perms role_perms expanded))))"

definition has_permission_db :: "uuid \<Rightarrow> bytes \<Rightarrow> ('z rbac_db_scheme, api_error, bool) act" where
  "has_permission_db user_id required = query (act_get (sql_has_permission (Some user_id) required))"

definition role_exists :: "bytes \<Rightarrow> ('z rbac_db_scheme, api_error, bool) act" where
  "role_exists name = query (act_get (\<lambda>s. \<exists>r \<in> set (rbac_roles s). ro_name r = name))"

definition require_perm :: "uuid \<Rightarrow> bytes \<Rightarrow> ('z rbac_db_scheme, api_error, unit) act" where
  "require_perm user_id perm =
     act_bind (has_permission_db user_id perm) (\<lambda>ok.
       if ok then act_return () else act_fail (Forbidden (''permission denied: '' @ perm)))"

definition require_admin :: "uuid \<Rightarrow> ('z rbac_db_scheme, api_error, unit) act" where
  "require_admin user_id =
     act_bind (resolve_permissions user_id) (\<lambda>(_, perms).
       if \<exists>p \<in> set perms. p = ''*'' then act_return () else act_fail (Forbidden ''admin access required''))"

definition resolve_effective_permissions :: "uuid \<Rightarrow> ('z rbac_db_scheme, api_error, bytes list) act" where
  "resolve_effective_permissions user_id =
     act_bind (resolve_permissions user_id) (\<lambda>(_, perms). act_return perms)"

text \<open>\<open>resolve_permissions(..).map(|(_, p)| p).unwrap_or_default()\<close>; the two calls joined by
  \<open>tokio::join!\<close> only read, so their order does not matter.\<close>

definition perms_or_none :: "uuid \<Rightarrow> ('z rbac_db_scheme, api_error, bytes list) act" where
  "perms_or_none user_id = act_or [] (act_bind (resolve_permissions user_id) (\<lambda>(_, p). act_return p :: (_, api_error, _) act))"

definition effective_for_pair :: "uuid \<Rightarrow> uuid \<Rightarrow> ('z rbac_db_scheme, api_error, bytes list) act" where
  "effective_for_pair agent_uid delegator_uid =
     act_bind (perms_or_none agent_uid) (\<lambda>agent_perms.
     act_bind (perms_or_none delegator_uid) (\<lambda>deleg_perms.
       act_return (intersect_permissions agent_perms deleg_perms)))"

definition effective_under_parent :: "uuid \<Rightarrow> bytes list \<Rightarrow> ('z rbac_db_scheme, api_error, bytes list) act" where
  "effective_under_parent child_agent_uid parent_perms =
     act_bind (perms_or_none child_agent_uid) (\<lambda>child.
       act_return (intersect_permissions child parent_perms))"

definition share_read_perms ::
  "bytes \<Rightarrow> uuid \<Rightarrow> entity_contract list \<Rightarrow> ('z rbac_db_scheme, api_error, bytes list) act" where
  "share_read_perms app_id creator_id entities =
     act_bind (resolve_permissions creator_id) (\<lambda>(_, creator_perms).
       act_return (List.map_filter
         (\<lambda>e. meet (''app:'' @ app_id @ '':'' @ e_name e @ ''.read'') creator_perms) entities))"

definition delegated_effective ::
  "uuid \<Rightarrow> uuid option \<Rightarrow> bytes list option \<Rightarrow> ('z rbac_db_scheme, api_error, bytes list) act" where
  "delegated_effective agent_uid invoker_user_id parent_perms =
     (case parent_perms of
        Some pp \<Rightarrow> effective_under_parent agent_uid pp
      | None \<Rightarrow>
          (case invoker_user_id of
             Some uid \<Rightarrow> effective_for_pair agent_uid uid
           | None \<Rightarrow> act_return []))"

section \<open>What the reads return\<close>

lemma reader_query: "tables_only g \<Longrightarrow> reader (query (act_get g)) (\<lambda>s. Inr (g s))"
  unfolding query_def by (rule reader_cong [OF reader_map_err [OF reader_stmt]]) auto

lemma hoare_query:
  "hoare P m Q E \<Longrightarrow> fault_free P \<Longrightarrow> (\<And>s. P s \<Longrightarrow> E s) \<Longrightarrow> hoare P (query m) Q E"
  unfolding query_def by (intro hoare_map_err hoare_stmt) auto

lemma tables_only_rbac [simp]:
  "tables_only (assigned_roles u)" "tables_only (sql_resolve_permissions u)"
  "tables_only (sql_has_permission v r)" "tables_only (\<lambda>s. g (rbac_roles s))"
  by (simp_all add: tables_only_def assigned_roles_def sql_resolve_permissions_def sql_has_permission_def
      split: option.splits)

lemma map_insert_new: "k \<notin> fst ` set m \<Longrightarrow> map_insert k v m = m @ [(k, v)]"
  by (induction k v m rule: map_insert.induct) auto

lemma map_extend_distinct:
  "distinct (map fst (m @ kvs)) \<Longrightarrow> map_extend m kvs = m @ kvs"
proof (induction kvs arbitrary: m)
  case (Cons kv kvs)
  then have "map_insert (fst kv) (snd kv) m = m @ [kv]" by (intro map_insert_new [THEN trans]) auto
  with Cons.IH [of "m @ [kv]"] Cons.prems show ?case by (simp add: map_extend_def case_prod_beta)
qed (simp add: map_extend_def)

lemma set_fold_set_insert [simp]: "set (fold set_insert xs acc) = set xs \<union> set acc"
  by (induction xs arbitrary: acc) auto

lemma set_collect_perms_aux:
  "set (fold (\<lambda>role acc. case map_of rp role of Some perms \<Rightarrow> fold set_insert perms acc | None \<Rightarrow> acc) ex acc) =
   set acc \<union> (\<Union>role \<in> set ex. case map_of rp role of Some perms \<Rightarrow> set perms | None \<Rightarrow> {})"
  by (induction ex arbitrary: acc) (auto split: option.splits)

definition unique_roles :: "'z rbac_db_scheme \<Rightarrow> bool" where
  "unique_roles s \<longleftrightarrow> distinct (map ro_name (rbac_roles s))"

lemma set_collect_perms:
  assumes "distinct (map ro_name roles)"
  shows "set (collect_perms (map (\<lambda>r. (ro_name r, ro_permissions r)) roles) ex) = role_grants roles ex"
proof -
  let ?rp = "map (\<lambda>r. (ro_name r, ro_permissions r)) roles"
  have d: "distinct (map fst ?rp)" using assms by (simp add: comp_def)
  have some: "map_of ?rp n = Some ps \<longleftrightarrow> (\<exists>r \<in> set roles. ro_name r = n \<and> ro_permissions r = ps)" for n ps
    using map_of_eq_Some_iff [OF d, of n ps] by (auto simp: image_iff)
  have lookup: "x \<in> (case map_of ?rp n of Some perms \<Rightarrow> set perms | None \<Rightarrow> {}) \<longleftrightarrow>
      (\<exists>r \<in> set roles. ro_name r = n \<and> x \<in> set (ro_permissions r))" for n x
  proof (cases "map_of ?rp n")
    case None
    then have "\<forall>r \<in> set roles. ro_name r \<noteq> n" using some [of n] by fastforce
    with None show ?thesis by auto
  next
    case (Some ps)
    have only: "ro_permissions r = ps" if r: "r \<in> set roles" "ro_name r = n" for r
    proof -
      have "map_of ?rp n = Some (ro_permissions r)" using some [of n "ro_permissions r"] r by blast
      with Some show ?thesis by (simp only: option.inject)
    qed
    obtain r where "r \<in> set roles" "ro_name r = n" using some [of n ps] Some by blast
    then show ?thesis unfolding Some option.case using only by blast
  qed
  show ?thesis
    unfolding collect_perms_def set_collect_perms_aux
    by (rule set_eqI) (simp only: UN_iff Un_iff lookup, auto simp: role_grants_def)
qed

definition resolved :: "uuid \<Rightarrow> 'z rbac_db_scheme \<Rightarrow> bytes list \<times> bytes list" where
  "resolved u s =
     (let rows = map (\<lambda>r. (ro_name r, ro_inherits r, ro_permissions r)) (rbac_roles s);
          hierarchy = map_extend [] (map (\<lambda>(name, inherits, _). (name, inherits)) rows);
          role_perms = map_extend [] (map (\<lambda>(name, _, perms). (name, perms)) rows);
          expanded = expand_roles (assigned_roles u s) hierarchy
      in if assigned_roles u s = [] then ([], [])
         else (sort_unstable expanded, sort_unstable (collect_perms role_perms expanded)))"

lemma reader_resolve_permissions: "reader (resolve_permissions u) (\<lambda>s. Inr (resolved u s))"
proof (rule reader_cong)
  show "reader (resolve_permissions u) (\<lambda>s. res_bind (Inr (assigned_roles u s)) (\<lambda>names.
      (if names = [] then (\<lambda>_. Inr ([], [])) else (\<lambda>s. res_bind (Inr (map (\<lambda>r. (ro_name r, ro_inherits r, ro_permissions r)) (rbac_roles s)))
        (\<lambda>rows. let expanded = expand_roles names (map_extend [] (map (\<lambda>(name, inherits, _). (name, inherits)) rows))
           in Inr (sort_unstable expanded,
                sort_unstable (collect_perms (map_extend [] (map (\<lambda>(name, _, perms). (name, perms)) rows)) expanded))))) s))"
    unfolding resolve_permissions_def Let_def
    by (intro reader_bind reader_query reader_if reader_return) auto
qed (simp add: resolved_def Let_def)

lemma resolved_tables:
  assumes "unique_roles s"
  shows "set (fst (resolved u s)) = set (expand_roles (assigned_roles u s) (hierarchy_of (rbac_roles s)))"
    "set (snd (resolved u s)) = set (sql_resolve_permissions u s)"
proof -
  let ?rows = "map (\<lambda>r. (ro_name r, ro_inherits r, ro_permissions r)) (rbac_roles s)"
  have d: "distinct (map ro_name (rbac_roles s))" using assms by (simp add: unique_roles_def)
  have h: "map_extend [] (map (\<lambda>(name, inherits, _). (name, inherits)) ?rows) = hierarchy_of (rbac_roles s)"
    "map_extend [] (map (\<lambda>(name, _, perms). (name, perms)) ?rows) =
       map (\<lambda>r. (ro_name r, ro_permissions r)) (rbac_roles s)"
    using d by (simp_all add: map_extend_distinct hierarchy_of_def comp_def)
  have empty: "expand_roles [] rm = []" for rm by (simp add: expand_roles_def MAX_ROLE_DEPTH_def)
  have pair: "resolved u s = (if assigned_roles u s = [] then ([], [])
      else (sort_unstable (expand_roles (assigned_roles u s) (hierarchy_of (rbac_roles s))),
            sort_unstable (collect_perms (map (\<lambda>r. (ro_name r, ro_permissions r)) (rbac_roles s))
              (expand_roles (assigned_roles u s) (hierarchy_of (rbac_roles s))))))"
    unfolding resolved_def Let_def h ..
  show "set (fst (resolved u s)) = set (expand_roles (assigned_roles u s) (hierarchy_of (rbac_roles s)))"
    unfolding pair by (simp add: empty)
  show "set (snd (resolved u s)) = set (sql_resolve_permissions u s)"
    unfolding set_sql_resolve_permissions pair by (simp add: empty set_collect_perms [OF d] role_grants_def)
qed

lemma has_permission_cong: "set ps = set qs \<Longrightarrow> has_permission ps r = has_permission qs r"
  by (auto simp: has_permission_def)

lemma within_cong: "set ps = set qs \<Longrightarrow> within ps r = within qs r"
  unfolding within_def using has_permission_cong [of ps qs] by simp

lemma has_permission_db_reads:
  "reader (has_permission_db u r) (\<lambda>s. Inr (sql_has_permission (Some u) r s))"
  unfolding has_permission_db_def by (intro reader_query) simp

lemma sql_has_permission_resolved:
  assumes "unique_roles s" "utf8_shaped r"
  shows "sql_has_permission (Some u) r s = has_permission (snd (resolved u s)) r"
  using match_permission_iff [OF assms(2)] has_permission_cong [OF resolved_tables(2) [OF assms(1)]]
  by (simp add: sql_has_permission_def)

lemma perms_or_none_cases:
  assumes "unique_roles s"
  shows "\<exists>p fs. perms_or_none u s = (Inr p, s\<lparr>w_faults := fs\<rparr>) \<and> set p \<subseteq> set (sql_resolve_permissions u s)"
proof -
  obtain r t where rt: "resolve_permissions u s = (r, t)" by force
  obtain fs where t: "t = s\<lparr>w_faults := fs\<rparr>" using readerD(1) [OF reader_resolve_permissions, of u s] rt by auto
  show ?thesis
  proof (cases r)
    case (Inr x)
    then have "x = resolved u s" using readerD(2) [OF reader_resolve_permissions] rt by fastforce
    then show ?thesis using rt t Inr resolved_tables(2) [OF assms]
      by (auto simp: perms_or_none_def act_or_def act_bind_def act_return_def case_prod_beta)
  qed (use rt t in \<open>auto simp: perms_or_none_def act_or_def act_bind_def\<close>)
qed

text \<open>What the tables grant to a user.\<close>

definition granted :: "'z rbac_db_scheme \<Rightarrow> uuid \<Rightarrow> bytes \<Rightarrow> bool" where
  "granted s u r \<longleftrightarrow> within (sql_resolve_permissions u s) r"

lemma sql_resolve_faults [simp]: "sql_resolve_permissions u (s\<lparr>w_faults := fs\<rparr>) = sql_resolve_permissions u s"
  by (simp add: sql_resolve_permissions_def assigned_roles_def)

lemma granted_faults [simp]: "granted (s\<lparr>w_faults := fs\<rparr>) = granted s"
  by (simp add: granted_def fun_eq_iff)

lemma unique_roles_faults [simp]: "unique_roles (s\<lparr>w_faults := fs\<rparr>) = unique_roles s"
  by (simp add: unique_roles_def)

lemma effective_under_parent_within:
  assumes "unique_roles s"
  shows "\<exists>perms t. effective_under_parent agent pp s = (Inr perms, t) \<and>
    (\<forall>k. has_permission perms k \<longrightarrow> granted s agent k \<and> within pp k)"
proof -
  obtain p fs where p: "perms_or_none agent s = (Inr p, s\<lparr>w_faults := fs\<rparr>)"
    and sub: "set p \<subseteq> set (sql_resolve_permissions agent s)"
    using perms_or_none_cases [OF assms] by blast
  have "granted s agent k \<and> within pp k" if "has_permission (intersect_permissions p pp) k" for k
    using intersect_sound [OF that] within_subset [OF sub] by (auto simp: granted_def)
  then show ?thesis using p by (simp add: effective_under_parent_def act_bind_def act_return_def)
qed

lemma effective_for_pair_within:
  assumes "unique_roles s"
  shows "\<exists>perms t. effective_for_pair agent delegator s = (Inr perms, t) \<and>
    (\<forall>k. has_permission perms k \<longrightarrow> granted s agent k \<and> granted s delegator k)"
proof -
  obtain p fs where p: "perms_or_none agent s = (Inr p, s\<lparr>w_faults := fs\<rparr>)"
    and psub: "set p \<subseteq> set (sql_resolve_permissions agent s)"
    using perms_or_none_cases [OF assms] by blast
  let ?t = "s\<lparr>w_faults := fs\<rparr>"
  have "unique_roles ?t" using assms by simp
  then obtain q gs where q: "perms_or_none delegator ?t = (Inr q, ?t\<lparr>w_faults := gs\<rparr>)"
    and "set q \<subseteq> set (sql_resolve_permissions delegator ?t)"
    using perms_or_none_cases by blast
  then have qsub: "set q \<subseteq> set (sql_resolve_permissions delegator s)"
    by simp
  have "granted s agent k \<and> granted s delegator k" if "has_permission (intersect_permissions p q) k" for k
    using intersect_sound [OF that] within_subset [OF psub] within_subset [OF qsub] by (auto simp: granted_def)
  then show ?thesis using p q by (simp add: effective_for_pair_def act_bind_def act_return_def)
qed

section \<open>Properties\<close>

definition sample_db :: rbac_db where
  "sample_db =
     \<lparr>w_faults = [],
      rbac_assignments = [\<lparr>as_user = 1, as_role = ''editor'', as_assigned_at = 0\<rparr>,
                          \<lparr>as_user = 2, as_role = ''reader'', as_assigned_at = 0\<rparr>],
      rbac_roles = [\<lparr>ro_name = ''editor'', ro_description = None, ro_inherits = [''reader''], ro_permissions = [''app:crm:*'']\<rparr>,
                    \<lparr>ro_name = ''reader'', ro_description = None, ro_inherits = [], ro_permissions = [''app:crm:c.read'']\<rparr>],
      rbac_permissions = [], users = [], public_execution_principals = [], db_now = 0\<rparr>"

text \<open>C11: The two implementations of the permission check decide alike. On tables whose role names
  are unique, as the primary key makes them, the verdict that the database function
  \<open>has_permission\<close> gives \<open>require_perm\<close> is the verdict of \<open>perms::has_permission\<close> on the
  permissions that \<open>resolve_permissions\<close> collects, for every user and every key.\<close>

theorem has_permission_db_agrees:
  assumes "unique_roles s" and "utf8_shaped required" and "w_faults s = []"
  shows "\<exists>roles perms. resolve_permissions u s = (Inr (roles, perms), s) \<and>
    has_permission_db u required s = (Inr (has_permission perms required), s) \<and>
    require_perm u required s =
      (if has_permission perms required then Inr () else Inl (Forbidden (''permission denied: '' @ required)), s)"
proof -
  have "resolve_permissions u s = (Inr (resolved u s), s)"
    using readerD(3) [OF reader_resolve_permissions assms(3)] .
  moreover have "has_permission_db u required s = (Inr (has_permission (snd (resolved u s)) required), s)"
    using readerD(3) [OF has_permission_db_reads assms(3)] sql_has_permission_resolved [OF assms(1,2)] by simp
  ultimately show ?thesis
    by (cases "resolved u s") (auto simp: require_perm_def act_bind_def act_return_def act_fail_def)
qed

theorem has_permission_db_agrees_witness:
  "\<exists>roles perms. resolve_permissions 1 sample_db = (Inr (roles, perms), sample_db) \<and>
     has_permission_db 1 ''app:crm:d.delete'' sample_db = (Inr (has_permission perms ''app:crm:d.delete''), sample_db)"
proof -
  have "unique_roles sample_db" "utf8_shaped ''app:crm:d.delete''" "w_faults sample_db = []"
    by (simp_all add: unique_roles_def sample_db_def utf8_shaped_def utf8_char_def is_cont_def byte_def)
  from has_permission_db_agrees [OF this, of 1] show ?thesis by blast
qed

text \<open>C6: An agent never acts with more than both sides hold. Whatever statements fail, the
  permissions an agent runs with are granted to the agent and to the person it works for (or,
  in a nested call, allowed by the permissions of the calling agent), up to the scope order;
  with neither an invoker nor a parent it has none. The computation never fails: a failed read
  counts as no permission.\<close>

theorem delegated_effective_bounds:
  assumes "unique_roles s"
  shows "\<exists>perms t. delegated_effective agent invoker parent s = (Inr perms, t) \<and>
    (\<forall>k. has_permission perms k \<longrightarrow>
       granted s agent k \<and>
       (case parent of Some pp \<Rightarrow> within pp k
        | None \<Rightarrow> (case invoker of Some u \<Rightarrow> granted s u k | None \<Rightarrow> False)))"
proof (cases parent)
  case (Some pp)
  then show ?thesis using effective_under_parent_within [OF assms, of agent pp]
    by (auto simp: delegated_effective_def)
next
  case None
  show ?thesis
  proof (cases invoker)
    case (Some u)
    then show ?thesis using None effective_for_pair_within [OF assms, of agent u]
      by (auto simp: delegated_effective_def)
  qed (use None in \<open>auto simp: delegated_effective_def act_return_def\<close>)
qed

theorem delegated_effective_bounds_witness:
  "\<exists>perms t. delegated_effective 1 (Some 2) None sample_db = (Inr perms, t) \<and>
     (\<forall>k. has_permission perms k \<longrightarrow> granted sample_db 1 k \<and> granted sample_db 2 k)"
proof -
  have "unique_roles sample_db" by (simp add: unique_roles_def sample_db_def)
  from delegated_effective_bounds [OF this, of 1 "Some 2" None] show ?thesis by simp
qed

end
