(* ===== verification/Authority_Roles.thy ===== *)
theory Authority_Roles
  imports Authority_Policy Json
begin

text \<open>
  The administration of roles, from \<open>governance/authority/routes.rs\<close>: creating, changing and
  deleting a role, assigning it and taking it away. Every handler is an action on the tables.
  Besides, the handlers tell the worker manager whose cached authority is stale; those calls
  are recorded in the field \<open>invalidations\<close>.

  The invariant \<open>roles_inv\<close> holds in every state the handlers can reach, whatever statements
  fail on the way: the hierarchy has no cycle, every permission key of a role is well formed,
  the built-in role \<open>admin\<close> keeps the permission \<open>*\<close>, and somebody holds it.
\<close>

datatype invalidation = ForRole bytes | ForPrincipal uuid

record admin_db = rbac_db +
  invalidations :: "invalidation list"

record create_role_request =
  cr_name :: bytes
  cr_description :: "bytes option"
  cr_inherits :: "bytes list"
  cr_permissions :: "bytes list"

record update_role_request =
  ur_description :: "bytes option"
  ur_inherits :: "bytes list option"
  ur_permissions :: "bytes list option"

record role_assignment =
  ra_user_id :: uuid
  ra_role :: bytes

definition message :: "bytes \<Rightarrow> json" where
  "message text = jobj [(''message'', JString text)]"

definition validate_hierarchy :: "role_map \<Rightarrow> bytes \<Rightarrow> bytes list \<Rightarrow> api_error + unit" where
  "validate_hierarchy pool_roles name parents =
     (let role_map = map_insert name parents (map_extend [] pool_roles)
      in case detect_cycle role_map of
           Some (Some cycle) \<Rightarrow> Inl (BadRequest (''role hierarchy cycle involving '' @ sq cycle))
         | _ \<Rightarrow> Inr ())"

definition validate_keys :: "bytes list \<Rightarrow> api_error + unit" where
  "validate_keys permissions = each_res (\<lambda>p. map_err BadRequest (validate_perm_key p)) permissions"

text \<open>\<open>SELECT name, inherits FROM rbac_roles\<close> followed by \<open>validate_hierarchy\<close>.\<close>

definition check_hierarchy :: "bytes \<Rightarrow> bytes list \<Rightarrow> ('z admin_db_scheme, api_error, unit) act" where
  "check_hierarchy name parents =
     act_bind (query (act_get (\<lambda>s. hierarchy_of (rbac_roles s)))) (\<lambda>existing.
       act_lift (validate_hierarchy existing name parents))"

definition invalidate :: "invalidation \<Rightarrow> ('z admin_db_scheme, api_error, unit) act" where
  "invalidate i = act_modify (\<lambda>s. s\<lparr>invalidations := invalidations s @ [i]\<rparr>)"

text \<open>\<open>ORDER BY\<close> compares texts by the collation of the database, given here by a sort key.\<close>

definition list_roles :: "(bytes \<Rightarrow> nat) \<Rightarrow> ('z admin_db_scheme, api_error, role_row list) act" where
  "list_roles collate = query (act_get (\<lambda>s. sort_key (\<lambda>r. collate (ro_name r)) (rbac_roles s)))"

section \<open>Creating a role\<close>

text \<open>The primary key refuses a second role of the same name.\<close>

definition role_pkey_error :: sqlx_error where
  "role_pkey_error =
     Database \<lparr>pg_code = ''23505'', pg_schema = Some ''rootcx_system'', pg_table = Some ''rbac_roles'',
       pg_constraint = Some ''rbac_roles_pkey'',
       pg_message = ''duplicate key value violates unique constraint'' @ [CHR '' '', DQ] @ ''rbac_roles_pkey'' @ [DQ]\<rparr>"

definition insert_role :: "role_row \<Rightarrow> ('z admin_db_scheme, sqlx_error, unit) act" where
  "insert_role row s =
     (if \<exists>r \<in> set (rbac_roles s). ro_name r = ro_name row then (Inl role_pkey_error, s)
      else (Inr (), s\<lparr>rbac_roles := rbac_roles s @ [row]\<rparr>))"

fun has_constraint :: "sqlx_error \<Rightarrow> bool" where
  "has_constraint (Database pg) = (pg_constraint pg \<noteq> None)"
| "has_constraint _ = False"

definition create_role ::
  "(sqlx_error \<Rightarrow> bytes) \<Rightarrow> uuid \<Rightarrow> create_role_request \<Rightarrow> ('z admin_db_scheme, api_error, json) act" where
  "create_role show_sqlx caller body =
     act_bind (require_admin caller) (\<lambda>_.
     if cr_name body = [] then act_fail (BadRequest ''role name must not be empty'')
     else if cr_name body = ''admin'' then
       act_fail (BadRequest (''cannot create a role named '' @ sq ''admin'' @ '' (reserved)''))
     else
       act_bind (act_lift (validate_keys (cr_permissions body))) (\<lambda>_.
       act_bind (if cr_inherits body \<noteq> [] then check_hierarchy (cr_name body) (cr_inherits body) else act_return ()) (\<lambda>_.
       act_bind (act_map_err (\<lambda>e. if has_constraint e then BadRequest (''role '' @ sq (cr_name body) @ '' already exists'')
                                   else Internal (show_sqlx e))
           (stmt (insert_role \<lparr>ro_name = cr_name body, ro_description = cr_description body,
              ro_inherits = cr_inherits body, ro_permissions = cr_permissions body\<rparr>))) (\<lambda>_.
         act_return (message (''role '' @ sq (cr_name body) @ '' created''))))))"

section \<open>Changing a role\<close>

text \<open>The \<open>SET\<close> list has an entry for each field the request carries; the result is the number of
  rows affected.\<close>

definition update_row :: "update_role_request \<Rightarrow> role_row \<Rightarrow> role_row" where
  "update_row body r =
     r\<lparr>ro_description := (case ur_description body of Some d \<Rightarrow> Some d | None \<Rightarrow> ro_description r),
       ro_inherits := opt_default (ro_inherits r) (ur_inherits body),
       ro_permissions := opt_default (ro_permissions r) (ur_permissions body)\<rparr>"

definition update_rows :: "bytes \<Rightarrow> update_role_request \<Rightarrow> ('z admin_db_scheme, sqlx_error, nat) act" where
  "update_rows role_name body s =
     (Inr (length (filter (\<lambda>r. ro_name r = role_name) (rbac_roles s))),
      s\<lparr>rbac_roles := map (\<lambda>r. if ro_name r = role_name then update_row body r else r) (rbac_roles s)\<rparr>)"

definition update_role :: "uuid \<Rightarrow> bytes \<Rightarrow> update_role_request \<Rightarrow> ('z admin_db_scheme, api_error, json) act" where
  "update_role caller role_name body =
     act_bind (require_admin caller) (\<lambda>_.
     if role_name = ''admin'' \<and> (ur_permissions body \<noteq> None \<or> ur_inherits body \<noteq> None) then
       act_fail (BadRequest ''cannot modify permissions or inherits on built-in admin role'')
     else if ur_description body = None \<and> ur_inherits body = None \<and> ur_permissions body = None then
       act_fail (BadRequest ''no fields to update'')
     else
       act_bind (case ur_permissions body of Some perms \<Rightarrow> act_lift (validate_keys perms) | None \<Rightarrow> act_return ()) (\<lambda>_.
       act_bind (case ur_inherits body of Some new_inherits \<Rightarrow> check_hierarchy role_name new_inherits | None \<Rightarrow> act_return ()) (\<lambda>_.
       act_bind (query (update_rows role_name body)) (\<lambda>rows_affected.
         if rows_affected = 0 then act_fail (NotFound (''role '' @ sq role_name @ '' not found''))
         else
           act_bind (if ur_permissions body \<noteq> None \<or> ur_inherits body \<noteq> None then invalidate (ForRole role_name)
                     else act_return ()) (\<lambda>_.
             act_return (message (''role '' @ sq role_name @ '' updated'')))))))"

section \<open>Deleting a role\<close>

definition delete_role_rows :: "bytes \<Rightarrow> ('z admin_db_scheme, sqlx_error, nat) act" where
  "delete_role_rows role_name s =
     (Inr (length (filter (\<lambda>r. ro_name r = role_name) (rbac_roles s))),
      s\<lparr>rbac_roles := filter (\<lambda>r. ro_name r \<noteq> role_name) (rbac_roles s)\<rparr>)"

definition delete_assignments :: "(assignment_row \<Rightarrow> bool) \<Rightarrow> ('z admin_db_scheme, sqlx_error, nat) act" where
  "delete_assignments P s =
     (Inr (length (filter P (rbac_assignments s))),
      s\<lparr>rbac_assignments := filter (\<lambda>a. \<not> P a) (rbac_assignments s)\<rparr>)"

definition delete_role :: "uuid \<Rightarrow> bytes \<Rightarrow> ('z admin_db_scheme, api_error, json) act" where
  "delete_role caller role_name =
     act_bind (require_admin caller) (\<lambda>_.
     if role_name = ''admin'' then act_fail (BadRequest ''cannot delete built-in admin role'')
     else
       act_bind (invalidate (ForRole role_name)) (\<lambda>_.
       act_bind (query (delete_role_rows role_name)) (\<lambda>rows_affected.
         if rows_affected = 0 then act_fail (NotFound (''role '' @ sq role_name @ '' not found''))
         else
           act_bind (query (delete_assignments (\<lambda>a. as_role a = role_name))) (\<lambda>_.
             act_return (message (''role '' @ sq role_name @ '' deleted''))))))"

section \<open>Assignments\<close>

definition list_assignments :: "uuid \<Rightarrow> ('z admin_db_scheme, api_error, assignment_row list) act" where
  "list_assignments caller =
     act_bind (require_admin caller) (\<lambda>_.
       query (act_get (\<lambda>s. rev (sort_key as_assigned_at (rbac_assignments s)))))"

text \<open>\<open>user_id\<close> references \<open>users\<close>; the primary key is the pair of user and role.\<close>

definition user_fkey_error :: sqlx_error where
  "user_fkey_error =
     Database \<lparr>pg_code = ''23503'', pg_schema = Some ''rootcx_system'', pg_table = Some ''rbac_assignments'',
       pg_constraint = Some ''rbac_assignments_user_id_fkey'',
       pg_message = ''insert or update on table violates foreign key constraint''\<rparr>"

definition insert_assignment :: "uuid \<Rightarrow> bytes \<Rightarrow> ('z rbac_db_scheme, sqlx_error, unit) act" where
  "insert_assignment user_id role s =
     (if \<exists>a \<in> set (rbac_assignments s). as_user a = user_id \<and> as_role a = role then (Inr (), s)
      else if \<forall>u \<in> set (users s). us_id u \<noteq> user_id then (Inl user_fkey_error, s)
      else (Inr (), s\<lparr>rbac_assignments := rbac_assignments s @
              [\<lparr>as_user = user_id, as_role = role, as_assigned_at = db_now s\<rparr>]\<rparr>))"

definition assign_role :: "uuid \<Rightarrow> role_assignment \<Rightarrow> ('z admin_db_scheme, api_error, json) act" where
  "assign_role caller body =
     act_bind (require_admin caller) (\<lambda>_.
     act_bind (role_exists (ra_role body)) (\<lambda>known.
     if \<not> known then act_fail (BadRequest (''role '' @ sq (ra_role body) @ '' not defined''))
     else
       act_bind (query (insert_assignment (ra_user_id body) (ra_role body))) (\<lambda>_.
       act_bind (invalidate (ForPrincipal (ra_user_id body))) (\<lambda>_.
         act_return (message (''role '' @ sq (ra_role body) @ '' assigned''))))))"

definition revoke_role :: "uuid \<Rightarrow> role_assignment \<Rightarrow> ('z admin_db_scheme, api_error, json) act" where
  "revoke_role caller body =
     act_bind (require_admin caller) (\<lambda>_.
     act_bind (transaction (api_of_sqlx RESERVED_SCHEMAS)
       (act_bind (query (act_get (\<lambda>s. length (filter (\<lambda>a. as_role a = ''admin'') (rbac_assignments s))))) (\<lambda>admin_count.
        if ra_role body = ''admin'' \<and> admin_count \<le> 1 then act_fail (BadRequest ''cannot revoke the last admin'')
        else query (delete_assignments (\<lambda>a. as_user a = ra_user_id body \<and> as_role a = ra_role body))))) (\<lambda>rows_affected.
     if rows_affected = 0 then act_fail (NotFound (''assignment not found for role '' @ sq (ra_role body)))
     else
       act_bind (invalidate (ForPrincipal (ra_user_id body))) (\<lambda>_.
         act_return (message (''role '' @ sq (ra_role body) @ '' revoked'')))))"

definition my_permissions :: "uuid \<Rightarrow> ('z admin_db_scheme, api_error, bytes list \<times> bytes list) act" where
  "my_permissions caller = resolve_permissions caller"

definition user_permissions :: "uuid \<Rightarrow> uuid \<Rightarrow> ('z admin_db_scheme, api_error, bytes list \<times> bytes list) act" where
  "user_permissions target caller =
     act_bind (if caller \<noteq> target then require_admin caller else act_return ()) (\<lambda>_. resolve_permissions target)"

definition list_available_permissions ::
  "(bytes \<Rightarrow> nat) \<Rightarrow> uuid \<Rightarrow> ('z admin_db_scheme, api_error, (bytes \<times> bytes) list) act" where
  "list_available_permissions collate caller =
     act_bind (resolve_permissions caller) (\<lambda>(_, caller_perms).
     act_bind (query (act_get (\<lambda>s. map (\<lambda>p. (pm_key p, pm_description p))
         (sort_key (\<lambda>p. collate (pm_key p)) (rbac_permissions s))))) (\<lambda>rows.
       act_return (filter (\<lambda>(key, _). has_permission caller_perms key) rows)))"

section \<open>The invariant\<close>

definition sound_roles :: "role_row list \<Rightarrow> bool" where
  "sound_roles roles \<longleftrightarrow>
     distinct (map ro_name roles) \<and>
     acyclic (inherits (hierarchy_of roles)) \<and>
     (\<forall>r \<in> set roles. \<forall>p \<in> set (ro_permissions r). validate_perm_key p = Inr ()) \<and>
     (\<exists>r \<in> set roles. ro_name r = ''admin'' \<and> ''*'' \<in> set (ro_permissions r))"

definition sound_assignments :: "assignment_row list \<Rightarrow> bool" where
  "sound_assignments rows \<longleftrightarrow>
     distinct (map (\<lambda>a. (as_user a, as_role a)) rows) \<and> (\<exists>a \<in> set rows. as_role a = ''admin'')"

definition roles_inv :: "'z admin_db_scheme \<Rightarrow> bool" where
  "roles_inv s \<longleftrightarrow> sound_roles (rbac_roles s) \<and> sound_assignments (rbac_assignments s)"

lemma roles_inv_faults [simp, intro]: "fault_free roles_inv"
  by (simp add: fault_free_def roles_inv_def)

lemma inherits_cong: "map_of rm = map_of rm' \<Longrightarrow> inherits rm = inherits rm'"
  by (simp add: inherits_def parents_of_def)

lemma acyclic_childless:
  assumes "acyclic (inherits rm)"
  shows "acyclic (inherits (map_insert name [] rm))"
  by (rule acyclic_subset [OF assms]) (auto simp: inherits_def parents_of_def split: if_splits)

lemma map_of_hierarchy_append:
  assumes "name \<notin> ro_name ` set roles"
  shows "map_of (hierarchy_of (roles @ [\<lparr>ro_name = name, ro_description = d, ro_inherits = ps, ro_permissions = pm\<rparr>])) =
    map_of (map_insert name ps (hierarchy_of roles))"
proof -
  have "map_of (hierarchy_of roles) name = None"
    using assms by (auto simp: hierarchy_of_def map_of_eq_None_iff)
  then show ?thesis by (auto simp: fun_eq_iff hierarchy_of_def map_add_def split: option.splits)
qed

lemma map_of_hierarchy_update:
  assumes "name \<in> ro_name ` set roles"
  shows "map_of (hierarchy_of (map (\<lambda>r. if ro_name r = name then update_row body r else r) roles)) =
    (case ur_inherits body of Some ps \<Rightarrow> map_of (map_insert name ps (hierarchy_of roles)) | None \<Rightarrow> map_of (hierarchy_of roles))"
proof -
  have "map_of (hierarchy_of (map (\<lambda>r. if ro_name r = name then update_row body r else r) roles)) x =
      (if x = name \<and> name \<in> ro_name ` set roles \<and> ur_inherits body \<noteq> None then ur_inherits body
       else map_of (hierarchy_of roles) x)" for x
    by (induction roles) (auto simp: hierarchy_of_def update_row_def opt_default_def split: option.splits)
  then show ?thesis using assms by (auto simp: fun_eq_iff split: option.splits)
qed

lemma map_of_hierarchy_filter:
  "map_of (hierarchy_of (filter (\<lambda>r. ro_name r \<noteq> name) roles)) =
   (\<lambda>x. if x = name then None else map_of (hierarchy_of roles) x)"
  by (induction roles) (auto simp: hierarchy_of_def fun_eq_iff)

lemma validate_hierarchy_acyclic:
  assumes "distinct (map fst rm)" "validate_hierarchy rm name ps = Inr ()"
  shows "acyclic (inherits (map_insert name ps rm))"
proof -
  have "map_extend [] rm = rm" using map_extend_distinct [of "[]" rm] assms(1) by simp
  then show ?thesis
    using assms(2) detect_cycle_spec [of "map_insert name ps rm"]
    by (auto simp: validate_hierarchy_def Let_def split: option.splits)
qed

lemma validate_keys_iff: "validate_keys perms = Inr u \<longleftrightarrow> (\<forall>p \<in> set perms. validate_perm_key p = Inr ())"
  by (simp add: validate_keys_def)

lemma sound_roles_insert:
  assumes "sound_roles roles" "name \<notin> ro_name ` set roles"
    and "acyclic (inherits (map_insert name ps (hierarchy_of roles)))"
    and "\<forall>p \<in> set pm. validate_perm_key p = Inr ()"
  shows "sound_roles (roles @ [\<lparr>ro_name = name, ro_description = d, ro_inherits = ps, ro_permissions = pm\<rparr>])"
  using assms inherits_cong [OF map_of_hierarchy_append [OF assms(2)]]
  by (auto simp: sound_roles_def)

lemma sound_roles_update:
  assumes sound: "sound_roles roles"
    and admin: "name = ''admin'' \<longrightarrow> ur_permissions body = None"
    and parents: "\<And>ps. ur_inherits body = Some ps \<Longrightarrow> acyclic (inherits (map_insert name ps (hierarchy_of roles)))"
    and keys: "\<And>pm. ur_permissions body = Some pm \<Longrightarrow> \<forall>p \<in> set pm. validate_perm_key p = Inr ()"
  shows "sound_roles (map (\<lambda>r. if ro_name r = name then update_row body r else r) roles)"
proof (cases "name \<in> ro_name ` set roles")
  case False
  then have "map (\<lambda>r. if ro_name r = name then update_row body r else r) roles = roles"
    by (intro map_idI) auto
  with sound show ?thesis by simp
next
  case True
  let ?new = "map (\<lambda>r. if ro_name r = name then update_row body r else r) roles"
  have names: "map ro_name ?new = map ro_name roles"
    by (auto simp: update_row_def)
  have "acyclic (inherits (hierarchy_of ?new))"
  proof (cases "ur_inherits body")
    case None
    then have "inherits (hierarchy_of ?new) = inherits (hierarchy_of roles)"
      using map_of_hierarchy_update [OF True, of body] by (intro inherits_cong) simp
    then show ?thesis using sound by (simp add: sound_roles_def)
  next
    case (Some ps)
    then have "inherits (hierarchy_of ?new) = inherits (map_insert name ps (hierarchy_of roles))"
      using map_of_hierarchy_update [OF True, of body] by (intro inherits_cong) simp
    then show ?thesis using parents [OF Some] by simp
  qed
  moreover have "\<forall>r \<in> set ?new. \<forall>p \<in> set (ro_permissions r). validate_perm_key p = Inr ()"
    using sound keys by (auto simp: sound_roles_def update_row_def opt_default_def split: option.splits)
  moreover have "\<exists>r \<in> set ?new. ro_name r = ''admin'' \<and> ''*'' \<in> set (ro_permissions r)"
  proof -
    obtain r where "r \<in> set roles" "ro_name r = ''admin''" "''*'' \<in> set (ro_permissions r)"
      using sound by (auto simp: sound_roles_def)
    then show ?thesis using admin
      by (intro bexI [of _ "if ro_name r = name then update_row body r else r"])
        (auto simp: update_row_def opt_default_def)
  qed
  ultimately show ?thesis using sound unfolding sound_roles_def names by blast
qed

lemma sound_roles_delete:
  assumes "sound_roles roles" "name \<noteq> ''admin''"
  shows "sound_roles (filter (\<lambda>r. ro_name r \<noteq> name) roles)"
proof -
  have "inherits (hierarchy_of (filter (\<lambda>r. ro_name r \<noteq> name) roles)) \<subseteq> inherits (hierarchy_of roles)"
    by (auto simp: inherits_def parents_of_def map_of_hierarchy_filter split: if_splits)
  then have "acyclic (inherits (hierarchy_of (filter (\<lambda>r. ro_name r \<noteq> name) roles)))"
    using assms(1) by (auto simp: sound_roles_def intro: acyclic_subset)
  moreover have "distinct (map ro_name (filter (\<lambda>r. ro_name r \<noteq> name) roles))"
    using assms(1) by (auto simp: sound_roles_def intro: distinct_map_filter)
  ultimately show ?thesis using assms by (auto simp: sound_roles_def)
qed

lemma sound_assignments_delete:
  assumes "sound_assignments rows" "role \<noteq> ''admin''"
  shows "sound_assignments (filter (\<lambda>a. \<not> (P a \<and> as_role a = role)) rows)"
  using assms by (auto simp: sound_assignments_def intro: distinct_map_filter)

text \<open>Of two administrators one remains, because a user holds a role once.\<close>

lemma last_admin_remains:
  assumes d: "distinct (map (\<lambda>a. (as_user a, as_role a)) rows)"
    and n: "1 < length (filter (\<lambda>a. as_role a = ''admin'') rows)"
  shows "\<exists>a \<in> set rows. as_role a = ''admin'' \<and> as_user a \<noteq> u"
proof (rule ccontr)
  assume none: "\<not> ?thesis"
  let ?admins = "filter (\<lambda>a. as_role a = ''admin'') rows"
  have "distinct (map (\<lambda>a. (as_user a, as_role a)) ?admins)" using d by (rule distinct_map_filter)
  then have "card (set (map (\<lambda>a. (as_user a, as_role a)) ?admins)) = length ?admins"
    using distinct_card by fastforce
  moreover have "set (map (\<lambda>a. (as_user a, as_role a)) ?admins) \<subseteq> {(u, ''admin'')}" using none by auto
  then have "card (set (map (\<lambda>a. (as_user a, as_role a)) ?admins)) \<le> 1"
    using card_mono [of "{(u, ''admin'')}"] by fastforce
  ultimately show False using n by simp
qed

section \<open>Every handler keeps it\<close>

lemma reader_require_admin:
  "reader (require_admin u)
     (\<lambda>s. if ''*'' \<in> set (snd (resolved u s)) then Inr () else Inl (Forbidden ''admin access required''))"
proof (rule reader_cong)
  show "reader (require_admin u) (\<lambda>s. res_bind (Inr (resolved u s))
      (\<lambda>x. (if \<exists>p \<in> set (snd x). p = ''*'' then (\<lambda>_. Inr ()) else (\<lambda>_. Inl (Forbidden ''admin access required''))) s))"
    unfolding require_admin_def case_prod_beta
    by (intro reader_bind reader_resolve_permissions reader_if reader_return reader_fail)
qed auto

lemma keeps_require_admin: "fault_free P \<Longrightarrow> keeps P (require_admin u)"
  by (rule hoare_reader [OF reader_require_admin]) auto

lemma keeps_invalidate: "keeps roles_inv (invalidate i)"
  unfolding invalidate_def by (rule hoare_modify) (simp add: roles_inv_def)

definition no_cycle_with :: "bytes \<Rightarrow> bytes list \<Rightarrow> 'z admin_db_scheme \<Rightarrow> bool" where
  "no_cycle_with name ps s \<longleftrightarrow>
     roles_inv s \<and> acyclic (inherits (map_insert name ps (hierarchy_of (rbac_roles s))))"

lemma no_cycle_with_faults [simp, intro]: "fault_free (no_cycle_with name ps)"
  by (simp add: fault_free_def no_cycle_with_def roles_inv_def)

lemma check_hierarchy_sound:
  "hoare roles_inv (check_hierarchy name ps :: ('z admin_db_scheme, api_error, unit) act)
     (\<lambda>_. no_cycle_with name ps) roles_inv"
  unfolding check_hierarchy_def
  apply (rule hoare_bind [where R = "\<lambda>existing s. roles_inv s \<and> existing = hierarchy_of (rbac_roles s)"])
   apply (intro hoare_query hoare_get roles_inv_faults; simp)
  apply (rule hoare_lift)
  subgoal for existing s u
    using validate_hierarchy_acyclic [of "hierarchy_of (rbac_roles s)" name ps]
    by (simp add: no_cycle_with_def roles_inv_def sound_roles_def hierarchy_of_def comp_def)
  by simp

lemma keeps_create_role:
  "keeps roles_inv (create_role show_sqlx caller body :: ('z admin_db_scheme, api_error, json) act)"
proof -
  let ?row = "\<lparr>ro_name = cr_name body, ro_description = cr_description body,
    ro_inherits = cr_inherits body, ro_permissions = cr_permissions body\<rparr>"
  have check: "hoare (roles_inv :: 'z admin_db_scheme \<Rightarrow> bool) (if cr_inherits body \<noteq> [] then check_hierarchy (cr_name body) (cr_inherits body) else act_return ())
      (\<lambda>_. no_cycle_with (cr_name body) (cr_inherits body)) roles_inv"
  proof (cases "cr_inherits body = []")
    case True
    have "no_cycle_with (cr_name body) [] s" if "roles_inv s" for s :: "'z admin_db_scheme"
      using that acyclic_childless by (simp add: no_cycle_with_def roles_inv_def sound_roles_def)
    then show ?thesis unfolding True by (simp add: hoare_def act_return_def)
  qed (simp add: check_hierarchy_sound)
  have insert: "hoare (no_cycle_with (cr_name body) (cr_inherits body) :: 'z admin_db_scheme \<Rightarrow> bool) (insert_role ?row) (\<lambda>_. roles_inv) roles_inv"
    if keys: "validate_keys (cr_permissions body) = Inr ()"
  proof (unfold hoare_def, intro allI impI)
    fix s :: "'z admin_db_scheme"
    assume s: "no_cycle_with (cr_name body) (cr_inherits body) s"
    show "case insert_role ?row s of (Inl _, t) \<Rightarrow> roles_inv t | (Inr x, t) \<Rightarrow> roles_inv t"
    proof (cases "\<exists>r \<in> set (rbac_roles s). ro_name r = cr_name body")
      case True
      then show ?thesis using s by (simp add: insert_role_def no_cycle_with_def)
    next
      case False
      then have "sound_roles (rbac_roles s @ [?row])"
        using s keys by (intro sound_roles_insert) (auto simp: no_cycle_with_def roles_inv_def validate_keys_iff)
      then show ?thesis using s False by (simp add: insert_role_def no_cycle_with_def roles_inv_def)
    qed
  qed
  have sub: "no_cycle_with (cr_name body) (cr_inherits body) s \<Longrightarrow> roles_inv s" for s :: "'z admin_db_scheme"
    by (simp add: no_cycle_with_def)
  note gate = hoare_bind [OF keeps_require_admin [OF roles_inv_faults]]
  show ?thesis
  proof (cases "validate_keys (cr_permissions body)")
    case (Inl e)
    show ?thesis unfolding create_role_def Inl act_lift_simps act_bind_fail
      by (intro gate hoare_if hoare_fail)
  next
    case (Inr u)
    show ?thesis unfolding create_role_def Inr act_lift_simps act_bind_return
      by (intro gate hoare_if hoare_fail hoare_bind [OF check]
          hoare_bind [OF hoare_map_err [OF hoare_stmt [OF insert]]] hoare_return no_cycle_with_faults)
        (use Inr sub in auto)
  qed
qed

lemma keeps_update_role:
  "keeps roles_inv (update_role caller name body :: ('z admin_db_scheme, api_error, json) act)"
proof -
  let ?parents = "\<lambda>s :: 'z admin_db_scheme. roles_inv s \<and> (\<forall>ps. ur_inherits body = Some ps \<longrightarrow> no_cycle_with name ps s)"
  have ff: "fault_free ?parents"
    by (simp add: fault_free_def roles_inv_def no_cycle_with_def)
  have check: "hoare roles_inv (case ur_inherits body of Some new_inherits \<Rightarrow> check_hierarchy name new_inherits | None \<Rightarrow> act_return ())
      (\<lambda>_. ?parents) roles_inv"
    by (intro hoare_option hoare_return hoare_conseq [OF check_hierarchy_sound])
      (auto simp: no_cycle_with_def)
  have update: "hoare ?parents (update_rows name body) (\<lambda>_. roles_inv) roles_inv"
    if "\<And>pm. ur_permissions body = Some pm \<Longrightarrow> validate_keys pm = Inr ()"
      and "name = ''admin'' \<longrightarrow> ur_permissions body = None"
    using that sound_roles_update [of _ name body]
    by (auto simp: hoare_def update_rows_def roles_inv_def no_cycle_with_def validate_keys_iff)
  note gate = hoare_bind [OF keeps_require_admin [OF roles_inv_faults]]
  show ?thesis
  proof (cases "\<exists>e pm. ur_permissions body = Some pm \<and> validate_keys pm = Inl e")
    case True
    then show ?thesis unfolding update_role_def
      by (intro gate hoare_if hoare_fail) (auto intro: hoare_fail)
  next
    case False
    then have keys: "validate_keys pm = Inr ()" if "ur_permissions body = Some pm" for pm
      using that by (cases "validate_keys pm") auto
    then have "(case ur_permissions body of Some perms \<Rightarrow> act_lift (validate_keys perms) | None \<Rightarrow> act_return ()) =
        (act_return () :: ('z admin_db_scheme, api_error, unit) act)"
      by (cases "ur_permissions body") auto
    then show ?thesis unfolding update_role_def
      by (simp only: act_bind_return)
        (intro gate hoare_if hoare_fail hoare_bind [OF check] hoare_bind [OF hoare_query [OF update]]
          hoare_bind [OF hoare_if [OF keeps_invalidate hoare_return]] hoare_return ff keys; auto)
  qed
qed

lemma keeps_delete_role:
  "keeps roles_inv (delete_role caller name :: ('z admin_db_scheme, api_error, json) act)"
proof -
  have roles: "keeps (roles_inv :: 'z admin_db_scheme \<Rightarrow> bool) (delete_role_rows name)" if "name \<noteq> ''admin''"
    using that sound_roles_delete by (auto simp: hoare_def delete_role_rows_def roles_inv_def)
  have rows: "keeps (roles_inv :: 'z admin_db_scheme \<Rightarrow> bool) (delete_assignments (\<lambda>a. as_role a = name))" if "name \<noteq> ''admin''"
    using sound_assignments_delete [OF _ that, where P = "\<lambda>_. True"]
    by (auto simp: hoare_def delete_assignments_def roles_inv_def)
  show ?thesis unfolding delete_role_def
    by (intro hoare_bind [OF keeps_require_admin [OF roles_inv_faults]] hoare_if hoare_fail
        hoare_bind [OF keeps_invalidate] hoare_bind [OF hoare_query [OF roles]] hoare_bind [OF hoare_query [OF rows]]
        hoare_return roles_inv_faults; assumption)
qed

lemma keeps_assign_role:
  "keeps roles_inv (assign_role caller body :: ('z admin_db_scheme, api_error, json) act)"
proof -
  have known: "keeps (roles_inv :: 'z admin_db_scheme \<Rightarrow> bool) (role_exists name)" for name
    unfolding role_exists_def by (intro hoare_query hoare_get roles_inv_faults)
  have insert: "keeps (roles_inv :: 'z admin_db_scheme \<Rightarrow> bool) (insert_assignment u r)" for u r
    by (auto simp: hoare_def insert_assignment_def roles_inv_def sound_assignments_def)
  show ?thesis unfolding assign_role_def
    by (intro hoare_bind [OF keeps_require_admin [OF roles_inv_faults]] hoare_bind [OF known] hoare_if hoare_fail
        hoare_bind [OF hoare_query [OF insert]] hoare_bind [OF keeps_invalidate] hoare_return roles_inv_faults)
qed

lemma keeps_revoke_role:
  "keeps roles_inv (revoke_role caller body :: ('z admin_db_scheme, api_error, json) act)"
proof -
  let ?admins = "\<lambda>s :: 'z admin_db_scheme. length (filter (\<lambda>a. as_role a = ''admin'') (rbac_assignments s))"
  let ?counted = "\<lambda>n s. roles_inv s \<and> n = ?admins s"
  have count: "hoare roles_inv (query (act_get ?admins)) ?counted (\<lambda>_. True)"
    by (intro hoare_query hoare_get roles_inv_faults) auto
  have ff: "fault_free (?counted n)" for n
    by (simp add: fault_free_def roles_inv_def)
  have delete: "hoare (?counted n) (delete_assignments (\<lambda>a. as_user a = ra_user_id body \<and> as_role a = ra_role body))
      (\<lambda>_. roles_inv) (\<lambda>_. True)" if n: "\<not> (ra_role body = ''admin'' \<and> n \<le> 1)" for n
  proof (unfold hoare_def, intro allI impI)
    fix s :: "'z admin_db_scheme"
    assume s: "?counted n s"
    let ?rest = "filter (\<lambda>a. \<not> (as_user a = ra_user_id body \<and> as_role a = ra_role body)) (rbac_assignments s)"
    have d: "distinct (map (\<lambda>a. (as_user a, as_role a)) (rbac_assignments s))"
      using s by (simp add: roles_inv_def sound_assignments_def)
    have "\<exists>a \<in> set ?rest. as_role a = ''admin''"
    proof (cases "ra_role body = ''admin''")
      case True
      then show ?thesis using last_admin_remains [OF d, of "ra_user_id body"] n s by auto
    next
      case False
      then show ?thesis using s by (auto simp: roles_inv_def sound_assignments_def)
    qed
    then have "sound_assignments ?rest"
      using distinct_map_filter [OF d] by (simp add: sound_assignments_def)
    then show "case delete_assignments (\<lambda>a. as_user a = ra_user_id body \<and> as_role a = ra_role body) s of
        (Inl _, t) \<Rightarrow> True | (Inr x, t) \<Rightarrow> roles_inv t"
      using s by (simp add: delete_assignments_def roles_inv_def)
  qed
  have body: "hoare roles_inv (act_bind (query (act_get ?admins)) (\<lambda>admin_count.
        if ra_role body = ''admin'' \<and> admin_count \<le> 1 then act_fail (BadRequest ''cannot revoke the last admin'')
        else query (delete_assignments (\<lambda>a. as_user a = ra_user_id body \<and> as_role a = ra_role body))))
      (\<lambda>_. roles_inv) (\<lambda>_. True)"
    by (intro hoare_bind [OF count] hoare_if hoare_fail hoare_query [OF delete] ff) (rule TrueI | assumption)+
  show ?thesis unfolding revoke_role_def
    by (intro hoare_bind [OF keeps_require_admin [OF roles_inv_faults]]
        hoare_bind [OF hoare_transaction [OF body]] hoare_if hoare_fail
        hoare_bind [OF keeps_invalidate] hoare_return roles_inv_faults)
qed

section \<open>Sequences of requests\<close>

datatype role_op =
    CreateRole create_role_request
  | UpdateRole bytes update_role_request
  | DeleteRole bytes
  | AssignRole role_assignment
  | RevokeRole role_assignment

fun run_op :: "(sqlx_error \<Rightarrow> bytes) \<Rightarrow> uuid \<Rightarrow> role_op \<Rightarrow> ('z admin_db_scheme, api_error, json) act" where
  "run_op show_sqlx caller (CreateRole body) = create_role show_sqlx caller body"
| "run_op show_sqlx caller (UpdateRole name body) = update_role caller name body"
| "run_op show_sqlx caller (DeleteRole name) = delete_role caller name"
| "run_op show_sqlx caller (AssignRole body) = assign_role caller body"
| "run_op show_sqlx caller (RevokeRole body) = revoke_role caller body"

text \<open>A step is one request, by anybody, or a change of what the requests do not control: the
  clock and the statements the database is going to refuse.\<close>

inductive role_step :: "'z admin_db_scheme \<Rightarrow> 'z admin_db_scheme \<Rightarrow> bool" where
  request: "t = snd (run_op show_sqlx caller op s) \<Longrightarrow> role_step s t"
| environment: "role_step s (s\<lparr>w_faults := fs, db_now := n\<rparr>)"

inductive_cases role_stepE: "role_step s t"

lemma keeps_run_op: "keeps roles_inv (run_op show_sqlx caller op)"
  by (cases op) (simp_all add: keeps_create_role keeps_update_role keeps_delete_role keeps_assign_role keeps_revoke_role)

lemma role_step_inv: "roles_inv s \<Longrightarrow> role_step s t \<Longrightarrow> roles_inv t"
  using keeps_run [OF keeps_run_op] by (auto elim!: role_stepE simp: roles_inv_def)

interpretation role_admin: transition_system "roles_inv :: admin_db \<Rightarrow> bool" role_step roles_inv
  by unfold_locales (auto intro: role_step_inv)

text \<open>Without the permission \<open>*\<close> no request gets past its first line.\<close>

lemma gate_refuses:
  assumes "unique_roles s" "''*'' \<notin> set (sql_resolve_permissions caller s)"
  shows "\<exists>e fs. act_bind (require_admin caller) f s = (Inl e, s\<lparr>w_faults := fs\<rparr>)"
proof -
  obtain r t where rt: "require_admin caller s = (r, t)" by force
  obtain fs where t: "t = s\<lparr>w_faults := fs\<rparr>" using readerD(1) [OF reader_require_admin, of caller s] rt by auto
  have "''*'' \<notin> set (snd (resolved caller s))" using assms(2) resolved_tables(2) [OF assms(1)] by simp
  then have "r \<noteq> Inr x" for x using readerD(2) [OF reader_require_admin, of caller s x t] rt by auto
  then obtain e where "r = Inl e" by (cases r) auto
  then show ?thesis using rt t by (auto simp: act_bind_def)
qed

section \<open>Properties\<close>

definition sample_admin_db :: admin_db where
  "sample_admin_db =
     \<lparr>w_faults = [],
      rbac_assignments = [\<lparr>as_user = 1, as_role = ''admin'', as_assigned_at = 0\<rparr>],
      rbac_roles = [\<lparr>ro_name = ''admin'', ro_description = None, ro_inherits = [], ro_permissions = [''*'']\<rparr>,
                    \<lparr>ro_name = ''a'', ro_description = None, ro_inherits = [], ro_permissions = []\<rparr>,
                    \<lparr>ro_name = ''b'', ro_description = None, ro_inherits = [], ro_permissions = []\<rparr>],
      rbac_permissions = [], users = [\<lparr>us_id = 1, us_kind = ''human'', us_is_system = False, us_disabled_at = None\<rparr>],
      public_execution_principals = [], db_now = 0,
      invalidations = []\<rparr>"

lemma sample_admin_inv: "roles_inv sample_admin_db"
proof -
  have "inherits (hierarchy_of (rbac_roles sample_admin_db)) = {}"
    by (auto simp: inherits_def parents_of_def hierarchy_of_def sample_admin_db_def split: if_splits)
  then have "acyclic (inherits (hierarchy_of (rbac_roles sample_admin_db)))" by (simp add: acyclic_def)
  then show ?thesis
    by (simp add: roles_inv_def sound_roles_def sound_assignments_def sample_admin_db_def validate_perm_key_def
        perm_key_byte_def)
qed

text \<open>C9: Whatever sequence of role requests is made, by whomever, and whatever statements the
  database refuses in between, the hierarchy stays free of cycles, every permission key a role
  carries is well formed, the role \<open>admin\<close> keeps the permission \<open>*\<close>, and at least one user
  holds it. Requests run one after the other.\<close>

theorem roles_inv_always:
  assumes "roles_inv s" and "role_step\<^sup>*\<^sup>* s (t :: admin_db)"
  shows "roles_inv t"
  using role_admin.run_inv [OF assms(2,1)] .

theorem roles_inv_always_witness:
  "roles_inv (snd (run_op (\<lambda>_. ''error'') 1 (RevokeRole \<lparr>ra_user_id = 1, ra_role = ''admin''\<rparr>) sample_admin_db))"
proof -
  have "role_step\<^sup>*\<^sup>* sample_admin_db
      (snd (run_op (\<lambda>_. ''error'') 1 (RevokeRole \<lparr>ra_user_id = 1, ra_role = ''admin''\<rparr>) sample_admin_db))"
    by (intro r_into_rtranclp role_step.request) (rule refl)
  from roles_inv_always [OF sample_admin_inv this] show ?thesis .
qed

text \<open>C28: Only an administrator changes roles. A request by a caller whose resolved permissions do
  not contain \<open>*\<close> ends in an error and leaves every table as it was.\<close>

theorem role_requests_need_admin:
  assumes "unique_roles s" and "''*'' \<notin> set (sql_resolve_permissions caller s)"
  shows "\<exists>e fs. run_op show_sqlx caller op s = (Inl e, s\<lparr>w_faults := fs\<rparr>)"
  by (cases op)
    (simp_all add: create_role_def update_role_def delete_role_def assign_role_def revoke_role_def gate_refuses [OF assms])

theorem role_requests_need_admin_witness:
  "\<exists>e fs. run_op (\<lambda>_. ''error'') 2 (DeleteRole ''a'') sample_admin_db = (Inl e, sample_admin_db\<lparr>w_faults := fs\<rparr>)"
proof -
  have "unique_roles sample_admin_db" "''*'' \<notin> set (sql_resolve_permissions 2 sample_admin_db)"
    by (simp_all add: unique_roles_def sample_admin_db_def sql_resolve_permissions_def assigned_roles_def)
  from role_requests_need_admin [OF this] show ?thesis .
qed


end
