(* ===== verification/Rule_Ast.thy ===== *)
theory Rule_Ast
  imports Prelude
begin

text \<open>
  The rule syntax tree, from \<open>rules/ast.rs\<close>: the only thing the Core compiles to SQL.
  Boxed children are plain sub-trees; \<open>u32\<close> interval amounts are natural numbers (the
  parser bounds them by a million).
\<close>

datatype literal_type = LDate | LTimestamp | LUuid

datatype interval_unit = Days | Hours | Minutes | Seconds

fun unit_str :: "interval_unit \<Rightarrow> bytes" where
  "unit_str Days = ''days''"
| "unit_str Hours = ''hours''"
| "unit_str Minutes = ''minutes''"
| "unit_str Seconds = ''seconds''"

datatype bin_op = OpOr | OpAnd | OpEq | OpNe | OpLt | OpLe | OpGt | OpGe | OpMatch | OpAdd | OpSub | OpMul

fun op_sql :: "bin_op \<Rightarrow> bytes" where
  "op_sql OpOr = ''OR''"
| "op_sql OpAnd = ''AND''"
| "op_sql OpEq = ''=''"
| "op_sql OpNe = ''<>''"
| "op_sql OpLt = ''<''"
| "op_sql OpLe = ''<=''"
| "op_sql OpGt = ''>''"
| "op_sql OpGe = ''>=''"
| "op_sql OpMatch = ''~''"
| "op_sql OpAdd = ''+''"
| "op_sql OpSub = ''-''"
| "op_sql OpMul = ''*''"

fun is_comparison :: "bin_op \<Rightarrow> bool" where
  "is_comparison OpEq = True"
| "is_comparison OpNe = True"
| "is_comparison OpLt = True"
| "is_comparison OpLe = True"
| "is_comparison OpGt = True"
| "is_comparison OpGe = True"
| "is_comparison _ = False"

datatype func = FLength | FBtrim | FUpper | FLower | FCoalesce | FScale | FTrunc | FAbs
  | FJsonbTypeof | FJsonbArrayLength

definition func_names :: bytes where
  "func_names =
     ''length, btrim, trim, upper, lower, coalesce, scale, trunc, abs, jsonb_typeof, jsonb_array_length''"

definition func_from_name :: "bytes \<Rightarrow> func option" where
  "func_from_name name =
     (if name = ''length'' then Some FLength
      else if name = ''btrim'' \<or> name = ''trim'' then Some FBtrim
      else if name = ''upper'' then Some FUpper
      else if name = ''lower'' then Some FLower
      else if name = ''coalesce'' then Some FCoalesce
      else if name = ''scale'' then Some FScale
      else if name = ''trunc'' then Some FTrunc
      else if name = ''abs'' then Some FAbs
      else if name = ''jsonb_typeof'' then Some FJsonbTypeof
      else if name = ''jsonb_array_length'' then Some FJsonbArrayLength
      else None)"

fun sql_name :: "func \<Rightarrow> bytes" where
  "sql_name FLength = ''length''"
| "sql_name FBtrim = ''btrim''"
| "sql_name FUpper = ''upper''"
| "sql_name FLower = ''lower''"
| "sql_name FCoalesce = ''coalesce''"
| "sql_name FScale = ''scale''"
| "sql_name FTrunc = ''trunc''"
| "sql_name FAbs = ''abs''"
| "sql_name FJsonbTypeof = ''jsonb_typeof''"
| "sql_name FJsonbArrayLength = ''jsonb_array_length''"

definition arity :: "func \<Rightarrow> nat" where
  "arity f = (if f = FCoalesce then 2 else 1)"

lemma func_from_sql_name: "func_from_name (sql_name f) = Some f"
  by (cases f) (simp_all add: func_from_name_def)

datatype expr =
    EField bytes
  | EText bytes
  | ENumber bytes
  | EBool bool
  | ETyped literal_type bytes
  | EInterval nat interval_unit
  | ENot expr
  | ENeg expr
  | EBinary bin_op expr expr
  | EIsNull expr bool
  | EBetween expr expr expr bool
  | EIn expr "expr list" bool
  | ECall func "expr list"
  | EArrayWithin bytes "bytes list"
  | EFinite expr bool

text \<open>\<open>Expr::fields\<close>: the field names in order of first occurrence, appended to \<open>out\<close>.\<close>

fun expr_fields :: "expr \<Rightarrow> bytes list \<Rightarrow> bytes list" where
  "expr_fields (EField name) out = set_insert name out"
| "expr_fields (EArrayWithin name vs) out = set_insert name out"
| "expr_fields (EText v) out = out"
| "expr_fields (ENumber v) out = out"
| "expr_fields (EBool v) out = out"
| "expr_fields (ETyped t v) out = out"
| "expr_fields (EInterval a u) out = out"
| "expr_fields (ENot e) out = expr_fields e out"
| "expr_fields (ENeg e) out = expr_fields e out"
| "expr_fields (EIsNull e n) out = expr_fields e out"
| "expr_fields (EFinite e n) out = expr_fields e out"
| "expr_fields (EBinary op l r) out = expr_fields r (expr_fields l out)"
| "expr_fields (EBetween e lo hi n) out = expr_fields hi (expr_fields lo (expr_fields e out))"
| "expr_fields (EIn e items n) out = fold expr_fields items (expr_fields e out)"
| "expr_fields (ECall f args) out = fold expr_fields args out"

text \<open>The fields a tree mentions, as a set.\<close>

fun mentions :: "expr \<Rightarrow> bytes set" where
  "mentions (EField name) = {name}"
| "mentions (EArrayWithin name vs) = {name}"
| "mentions (ENot e) = mentions e"
| "mentions (ENeg e) = mentions e"
| "mentions (EIsNull e n) = mentions e"
| "mentions (EFinite e n) = mentions e"
| "mentions (EBinary op l r) = mentions l \<union> mentions r"
| "mentions (EBetween e lo hi n) = mentions e \<union> mentions lo \<union> mentions hi"
| "mentions (EIn e items n) = mentions e \<union> (\<Union>x \<in> set items. mentions x)"
| "mentions (ECall f args) = (\<Union>x \<in> set args. mentions x)"
| "mentions _ = {}"

lemma fold_expr_fields:
  assumes "\<And>x out. x \<in> set xs \<Longrightarrow> set (expr_fields x out) = set out \<union> mentions x"
  shows "set (fold expr_fields xs out) = set out \<union> (\<Union>x \<in> set xs. mentions x)"
  using assms by (induction xs arbitrary: out) auto

lemma set_expr_fields: "set (expr_fields e out) = set out \<union> mentions e"
proof (induction e arbitrary: out)
  case (EIn e items n)
  then show ?case using fold_expr_fields [of items] by auto
next
  case (ECall f args)
  then show ?case using fold_expr_fields [of args] by auto
qed auto

lemma fold_distinct:
  assumes "\<And>x out. x \<in> set xs \<Longrightarrow> distinct out \<Longrightarrow> distinct (f x out)" "distinct out"
  shows "distinct (fold f xs out)"
  using assms by (induction xs arbitrary: out) auto

lemma distinct_expr_fields: "distinct out \<Longrightarrow> distinct (expr_fields e out)"
  by (induction e arbitrary: out) (auto intro!: fold_distinct)

text \<open>The number of nodes, which the parser counts.\<close>

fun node_count :: "expr \<Rightarrow> nat" where
  "node_count (ENot e) = Suc (node_count e)"
| "node_count (ENeg e) = Suc (node_count e)"
| "node_count (EIsNull e n) = Suc (node_count e)"
| "node_count (EFinite e n) = Suc (node_count e)"
| "node_count (EBinary op l r) = Suc (node_count l + node_count r)"
| "node_count (EBetween e lo hi n) = Suc (node_count e + node_count lo + node_count hi)"
| "node_count (EIn e items n) = Suc (node_count e + sum_list (map node_count items))"
| "node_count (ECall f args) = Suc (sum_list (map node_count args))"
| "node_count _ = 1"

lemma node_count_pos [simp]: "0 < node_count e"
  by (cases e) auto

end
