(* ===== verification/Rule_Lexer.thy ===== *)
theory Rule_Lexer
  imports Rule_Ast
begin

text \<open>
  The lexer of the rule language, from the first half of \<open>rules/parser.rs\<close>. A lexer is the
  source text with a byte position; every scanning function takes the source and the
  position it starts from and returns its value with the new position, or the syntax error.
\<close>

definition MAX_STRING_BYTES :: nat where "MAX_STRING_BYTES = 256"
definition MAX_NUMBER_CHARS :: nat where "MAX_NUMBER_CHARS = 40"

record syntax_error =
  line :: nat
  column :: nat
  message :: bytes

text \<open>\<open>impl Display for SyntaxError\<close>\<close>

definition show_error :: "syntax_error \<Rightarrow> bytes" where
  "show_error e = show_nat (line e) @ '':'' @ show_nat (column e) @ '': '' @ message e"

datatype kw = KwAnd | KwOr | KwNot | KwIs | KwNull | KwTrue | KwFalse | KwBetween | KwIn | KwInterval

datatype tok =
    TIdent bytes
  | TKw kw
  | TNumber bytes
  | TStr bytes
  | TOp bin_op
  | TMinus
  | TLParen
  | TRParen
  | TComma
  | TEof
  | TBad syntax_error

text \<open>The tokens at which the lexer stops: \<open>matches!(tok, Tok::Eof | Tok::Bad(_))\<close>.\<close>

fun is_final :: "tok \<Rightarrow> bool" where
  "is_final TEof = True"
| "is_final (TBad e) = True"
| "is_final _ = False"

fun kw_upper :: "kw \<Rightarrow> bytes" where
  "kw_upper KwAnd = ''AND''"
| "kw_upper KwOr = ''OR''"
| "kw_upper KwNot = ''NOT''"
| "kw_upper KwIs = ''IS''"
| "kw_upper KwNull = ''NULL''"
| "kw_upper KwTrue = ''TRUE''"
| "kw_upper KwFalse = ''FALSE''"
| "kw_upper KwBetween = ''BETWEEN''"
| "kw_upper KwIn = ''IN''"
| "kw_upper KwInterval = ''INTERVAL''"

fun describe :: "tok \<Rightarrow> bytes" where
  "describe (TIdent name) = sq name"
| "describe (TKw k) = kw_upper k"
| "describe (TNumber n) = n"
| "describe (TStr s) = ''a string''"
| "describe (TOp op) = sq (op_sql op)"
| "describe TMinus = sq ''-''"
| "describe TLParen = sq ''(''"
| "describe TRParen = sq '')''"
| "describe TComma = sq '',''"
| "describe TEof = ''end of rule''"
| "describe (TBad e) = message e"

definition OP_CHARS :: bytes where
  "OP_CHARS = ''+-*/<>=~!@#%^&|`?''"

definition is_op_char :: "char \<Rightarrow> bool" where
  "is_op_char c \<longleftrightarrow> c \<in> set OP_CHARS"

text \<open>The operator characters after which a trailing sign belongs to the operator.\<close>

definition keeps_signs :: "char \<Rightarrow> bool" where
  "keeps_signs c \<longleftrightarrow> c \<in> set ''~!@#^&|`?%''"

definition is_bracket :: "char \<Rightarrow> bool" where
  "is_bracket c \<longleftrightarrow> c \<in> set ('';[]{}'' @ [BSLASH])"

definition keyword :: "bytes \<Rightarrow> kw option" where
  "keyword word =
     (let w = to_ascii_lowercase word in
      if w = ''and'' then Some KwAnd
      else if w = ''or'' then Some KwOr
      else if w = ''not'' then Some KwNot
      else if w = ''is'' then Some KwIs
      else if w = ''null'' then Some KwNull
      else if w = ''true'' then Some KwTrue
      else if w = ''false'' then Some KwFalse
      else if w = ''between'' then Some KwBetween
      else if w = ''in'' then Some KwIn
      else if w = ''interval'' then Some KwInterval
      else None)"

definition RESERVED :: "bytes list" where
  "RESERVED =
     [''all'', ''any'', ''array'', ''asymmetric'', ''both'', ''case'', ''cast'', ''collate'', ''current_date'',
      ''current_role'', ''current_time'', ''current_timestamp'', ''current_user'', ''distinct'', ''else'',
      ''end'', ''exists'', ''extract'', ''from'', ''ilike'', ''isnull'', ''leading'', ''like'', ''localtime'',
      ''localtimestamp'', ''notnull'', ''overlaps'', ''row'', ''select'', ''session_user'', ''similar'', ''some'',
      ''symmetric'', ''then'', ''trailing'', ''unknown'', ''user'', ''values'', ''when'', ''where'']"

section \<open>Scanning\<close>

text \<open>\<open>Lexer::error\<close>: the 1-based line and the 1-based column in characters of byte \<open>at\<close>.\<close>

definition lex_error :: "bytes \<Rightarrow> nat \<Rightarrow> bytes \<Rightarrow> syntax_error" where
  "lex_error src at msg =
     (let prior = take at src;
          last_line = rev (takeWhile (\<lambda>c. c \<noteq> CHR 0x0A) (rev prior))
      in \<lparr>line = length (filter (\<lambda>c. c = CHR 0x0A) prior) + 1,
          column = length (utf8_chars last_line) + 1,
          message = msg\<rparr>)"

definition get_byte :: "bytes \<Rightarrow> nat \<Rightarrow> char option" where
  "get_byte src i = (if i < length src then Some (src ! i) else None)"

text \<open>\<open>while bytes.get(i).is_some_and(P) { i += 1 }\<close>\<close>

definition scan_while :: "(char \<Rightarrow> bool) \<Rightarrow> bytes \<Rightarrow> nat \<Rightarrow> nat" where
  "scan_while P src i = i + length (takeWhile P (drop i src))"

definition slice :: "bytes \<Rightarrow> nat \<Rightarrow> nat \<Rightarrow> bytes" where
  "slice src i j = take (j - i) (drop i src)"

definition is_blank :: "char \<Rightarrow> bool" where
  "is_blank c \<longleftrightarrow> c = CHR '' '' \<or> c = CHR 0x09 \<or> c = CHR 0x0A \<or> c = CHR 0x0D"

definition is_word_char :: "char \<Rightarrow> bool" where
  "is_word_char c \<longleftrightarrow> is_alnum c \<or> c = CHR ''_''"

text \<open>The loop of \<open>Lexer::string\<close>, from byte \<open>i\<close> with the text read so far.\<close>

function lex_string_loop :: "bytes \<Rightarrow> nat \<Rightarrow> nat \<Rightarrow> bytes \<Rightarrow> syntax_error + (bytes \<times> nat)" where
  "lex_string_loop src start i value =
     (case get_byte src i of
        None \<Rightarrow> Inl (lex_error src start ''unterminated string literal'')
      | Some c \<Rightarrow>
          if c = SQ \<and> get_byte src (i + 1) = Some SQ then
            lex_string_loop src start (i + 2) (value @ [SQ])
          else if c = SQ then Inr (value, i)
          else if c = NUL then Inl (lex_error src i ''NUL is not allowed in a string literal'')
          else
            (let ch = c # takeWhile is_cont (drop (i + 1) src)
             in lex_string_loop src start (i + length ch) (value @ ch)))"
  by pat_completeness auto
termination
  by (relation "measure (\<lambda>(src, start, i, value). length src - i)")
    (auto simp: get_byte_def split: if_splits)

declare lex_string_loop.simps [simp del]

definition lex_string :: "bytes \<Rightarrow> nat \<Rightarrow> syntax_error + (bytes \<times> nat)" where
  "lex_string src start =
     res_bind (lex_string_loop src start (start + 1) []) (\<lambda>(value, i).
       if length value > MAX_STRING_BYTES then
         Inl (lex_error src start
           (''string literals are limited to '' @ show_nat MAX_STRING_BYTES @ '' bytes''))
       else Inr (value, i + 1))"

definition number_form :: bytes where
  "number_form = ''write numbers as digits with an optional fraction, like 12 or 0.5''"

definition lex_number :: "bytes \<Rightarrow> nat \<Rightarrow> syntax_error + (bytes \<times> nat)" where
  "lex_number src start =
     (let whole = scan_while is_digit src start in
      res_bind
        (if get_byte src whole = Some CHR ''.'' then
           (let fraction = scan_while is_digit src (whole + 1) in
            if fraction = whole + 1 then Inl (lex_error src start number_form) else Inr fraction)
         else Inr whole)
        (\<lambda>stop.
           if (case get_byte src stop of
                 Some b \<Rightarrow> is_alnum b \<or> b = CHR ''_'' \<or> b = CHR ''.''
               | None \<Rightarrow> False)
           then Inl (lex_error src start number_form)
           else if stop - start > MAX_NUMBER_CHARS then
             Inl (lex_error src start ''numeric literals are limited to 40 characters'')
           else Inr (slice src start stop, stop)))"

definition prefixed_string :: bytes where
  "prefixed_string = ''prefixed string literals are not allowed''"

definition lex_word :: "bytes \<Rightarrow> nat \<Rightarrow> syntax_error + (tok \<times> nat)" where
  "lex_word src start =
     (let stop = scan_while is_word_char src start in
      if get_byte src stop = Some CHR ''$'' then
        Inl (lex_error src stop (sq ''$'' @ '' is not allowed in names''))
      else
        (let word = slice src start stop in
         case keyword word of
           Some k \<Rightarrow>
             if get_byte src stop = Some SQ \<and> k \<noteq> KwInterval then
               Inl (lex_error src start prefixed_string)
             else Inr (TKw k, stop)
         | None \<Rightarrow>
             if get_byte src stop = Some SQ then Inl (lex_error src start prefixed_string)
             else if to_ascii_lowercase word \<in> set RESERVED then
               Inl (lex_error src start (sq word @ '' is not part of the rule language''))
             else Inr (TIdent word, stop)))"

text \<open>\<open>while len > 1 && matches!(bytes[start + len - 1], b'+' | b'-') { len -= 1 }\<close>\<close>

fun strip_signs :: "bytes \<Rightarrow> nat \<Rightarrow> nat" where
  "strip_signs run 0 = 0"
| "strip_signs run (Suc n) =
     (if Suc n > 1 \<and> (run ! n = CHR ''+'' \<or> run ! n = CHR ''-'') then strip_signs run n else Suc n)"

definition op_token :: "bytes \<Rightarrow> tok option" where
  "op_token op =
     (if op = ''='' then Some (TOp OpEq)
      else if op = ''<>'' \<or> op = ''!='' then Some (TOp OpNe)
      else if op = ''<'' then Some (TOp OpLt)
      else if op = ''<='' then Some (TOp OpLe)
      else if op = ''>'' then Some (TOp OpGt)
      else if op = ''>='' then Some (TOp OpGe)
      else if op = ''~'' then Some (TOp OpMatch)
      else if op = ''+'' then Some (TOp OpAdd)
      else if op = ''-'' then Some TMinus
      else if op = ''*'' then Some (TOp OpMul)
      else None)"

definition lex_operator :: "bytes \<Rightarrow> nat \<Rightarrow> syntax_error + (tok \<times> nat)" where
  "lex_operator src start =
     (let stop = scan_while is_op_char src start;
          run = slice src start stop in
      if contains_sub run ''--'' \<or> contains_sub run ''/*'' then
        Inl (lex_error src start ''comments are not allowed'')
      else
        (let len =
               (if length run > 1 \<and> (last run = CHR ''+'' \<or> last run = CHR ''-'') \<and>
                   \<not> list_ex keeps_signs run
                then strip_signs run (length run) else length run);
             op = take len run
         in case op_token op of
              Some t \<Rightarrow> Inr (t, start + len)
            | None \<Rightarrow> Inl (lex_error src start
                (''operator '' @ sq op @ '' is not allowed; allowed: = <> != < <= > >= + - * ~''))))"

text \<open>\<open>Lexer::next\<close>: the token, the byte it starts at, and the new position.\<close>

definition lex_next :: "bytes \<Rightarrow> nat \<Rightarrow> syntax_error + (tok \<times> nat \<times> nat)" where
  "lex_next src pos =
     (let start = scan_while is_blank src pos in
      case get_byte src start of
        None \<Rightarrow> Inr (TEof, start, start)
      | Some c \<Rightarrow>
          if \<not> is_ascii c then Inl (lex_error src start ''only ASCII is allowed outside string literals'')
          else if c = CHR ''('' then Inr (TLParen, start, start + 1)
          else if c = CHR '')'' then Inr (TRParen, start, start + 1)
          else if c = CHR '','' then Inr (TComma, start, start + 1)
          else if c = SQ then
            res_bind (lex_string src start) (\<lambda>(v, pos'). Inr (TStr v, start, pos'))
          else if c = DQ then
            Inl (lex_error src start ''quoted identifiers are not allowed; use the field name'')
          else if c = CHR ''$'' then
            Inl (lex_error src start (sq ''$'' @ '' is not allowed (no parameters or dollar quoting)''))
          else if c = CHR '':'' then
            Inl (lex_error src start ''casts are not allowed; Core types literals itself'')
          else if c = CHR ''.'' then
            Inl (lex_error src start (''qualified names and '' @ sq ''.'' @ '' are not allowed''))
          else if is_bracket c then
            Inl (lex_error src start (sq [c] @ '' is not allowed''))
          else if is_digit c then
            res_bind (lex_number src start) (\<lambda>(v, pos'). Inr (TNumber v, start, pos'))
          else if is_alpha c \<or> c = CHR ''_'' then
            res_bind (lex_word src start) (\<lambda>(t, pos'). Inr (t, start, pos'))
          else if is_op_char c then
            res_bind (lex_operator src start) (\<lambda>(t, pos'). Inr (t, start, pos'))
          else Inl (lex_error src start (sq [c] @ '' is not allowed'')))"

section \<open>Every token moves the position forward\<close>

lemma scan_while_ge: "i \<le> scan_while P src i"
  by (simp add: scan_while_def)

lemma scan_while_le: "i \<le> length src \<Longrightarrow> scan_while P src i \<le> length src"
  using length_takeWhile_le [of P "drop i src"] by (simp add: scan_while_def)

lemma scan_while_first: "i < length src \<Longrightarrow> P (src ! i) \<Longrightarrow> i < scan_while P src i"
  by (cases "drop i src") (auto simp: scan_while_def hd_drop_conv_nth [symmetric])

lemma slice_scan_while: "slice src i (scan_while P src i) = takeWhile P (drop i src)"
  by (simp add: slice_def scan_while_def takeWhile_eq_take [symmetric])

lemma get_byte_Some: "get_byte src i = Some c \<longleftrightarrow> i < length src \<and> src ! i = c"
  by (simp add: get_byte_def)

lemma lex_string_loop_bounds:
  "lex_string_loop src start i v = Inr (w, j) \<Longrightarrow> i \<le> j \<and> j < length src"
proof (induction src start i v rule: lex_string_loop.induct)
  case (1 src start i v)
  from "1.prems" show ?case
    using "1.IH" by (subst (asm) lex_string_loop.simps)
      (fastforce simp: get_byte_Some Let_def split: option.splits if_splits)
qed

lemma lex_string_bounds: "lex_string src start = Inr (v, p) \<Longrightarrow> start < p \<and> p \<le> length src"
  by (auto simp: lex_string_def dest!: lex_string_loop_bounds split: if_splits prod.splits)

lemma lex_number_bounds:
  assumes "lex_number src start = Inr (v, p)" "start < length src" "is_digit (src ! start)"
  shows "start < p \<and> p \<le> length src"
proof -
  have w: "start < scan_while is_digit src start" "scan_while is_digit src start \<le> length src"
    using assms(2,3) by (auto intro: scan_while_first scan_while_le)
  show ?thesis
  proof (cases "get_byte src (scan_while is_digit src start) = Some CHR ''.''")
    case True
    then have "Suc (scan_while is_digit src start) \<le> length src" by (simp add: get_byte_Some)
    then have "scan_while is_digit src (Suc (scan_while is_digit src start)) \<le> length src"
      by (rule scan_while_le)
    moreover have "Suc (scan_while is_digit src start)
        \<le> scan_while is_digit src (Suc (scan_while is_digit src start))"
      by (rule scan_while_ge)
    moreover have "p = scan_while is_digit src (Suc (scan_while is_digit src start))"
      using assms(1) True by (auto simp: lex_number_def Let_def split: if_splits)
    ultimately show ?thesis using w by linarith
  next
    case False
    then have "p = scan_while is_digit src start"
      using assms(1) by (auto simp: lex_number_def Let_def split: if_splits)
    with w show ?thesis by simp
  qed
qed

lemma lex_word_end: "lex_word src start = Inr (t, p) \<Longrightarrow> p = scan_while is_word_char src start"
  by (auto simp: lex_word_def Let_def split: if_splits option.splits)

lemma strip_signs_bounds: "0 < n \<Longrightarrow> 0 < strip_signs run n \<and> strip_signs run n \<le> n"
  by (induction n) (auto split: if_splits)

lemma lex_operator_bounds:
  assumes "lex_operator src start = Inr (t, p)" "start < length src" "is_op_char (src ! start)"
  shows "start < p \<and> p \<le> length src"
proof -
  let ?stop = "scan_while is_op_char src start"
  let ?run = "slice src start ?stop"
  have e: "start < ?stop" "?stop \<le> length src"
    using assms(2,3) scan_while_first [of start src is_op_char]
    by (auto intro: scan_while_le)
  then have len: "length ?run = ?stop - start" by (simp add: slice_def)
  obtain l where l: "p = start + l" "l = length ?run \<or> l = strip_signs ?run (length ?run)"
    using assms(1) by (auto simp: lex_operator_def Let_def split: if_splits option.splits)
  have "0 < length ?run" using e len by simp
  then have "0 < l \<and> l \<le> length ?run"
    using l(2) strip_signs_bounds [of "length ?run" ?run] by auto
  with l e len show ?thesis by auto
qed

lemma lex_next_cases:
  assumes "lex_next src pos = Inr (t, s, p)"
  shows "s = scan_while is_blank src pos \<and>
    (t = TEof \<and> p = s \<and> length src \<le> s \<or> s < length src \<and> s < p \<and> p \<le> length src)"
proof -
  let ?s = "scan_while is_blank src pos"
  show ?thesis
  proof (cases "get_byte src ?s")
    case None
    then show ?thesis using assms(1) by (auto simp: lex_next_def Let_def get_byte_def split: if_splits)
  next
    case (Some c)
    then have c: "?s < length src" "src ! ?s = c" by (auto simp: get_byte_Some)
    have word: "?s < p \<and> p \<le> length src" if "lex_word src ?s = Inr (t, p)" "is_word_char c"
    proof -
      have "p = scan_while is_word_char src ?s" using that(1) by (rule lex_word_end)
      with that(2) c show ?thesis by (auto intro: scan_while_first scan_while_le)
    qed
    have "s = ?s \<and> ?s < p \<and> p \<le> length src"
      using assms(1) Some c word lex_string_bounds lex_number_bounds lex_operator_bounds
      by (auto simp: lex_next_def Let_def is_word_char_def is_alnum_def split: if_splits)
    with c show ?thesis by auto
  qed
qed

lemma lex_next_forward:
  "lex_next src pos = Inr (t, s, p) \<Longrightarrow> t \<noteq> TEof \<Longrightarrow> pos < p \<and> p \<le> length src"
  using lex_next_cases scan_while_ge [of pos is_blank src] by fastforce

text \<open>\<open>Lexer::tokens\<close>: all tokens with their positions, up to the end or the first error.\<close>

function lex_tokens :: "bytes \<Rightarrow> nat \<Rightarrow> (tok \<times> nat) list" where
  "lex_tokens src pos =
     (case lex_next src pos of
        Inl error \<Rightarrow> [(TBad error, length src)]
      | Inr (t, at, pos') \<Rightarrow>
          if is_final t then [(t, at)] else (t, at) # lex_tokens src pos')"
  by pat_completeness auto
termination
proof (relation "measure (\<lambda>(src, pos). length src - pos)")
  fix src pos r t at pos' and y :: "nat \<times> nat"
  assume r: "lex_next src pos = Inr r" "(t, y) = r" "(at, pos') = y" and nf: "\<not> is_final t"
  have "t \<noteq> TEof" using nf by auto
  with r have "pos < pos'" "pos' \<le> length src"
    using lex_next_forward [of src pos t at pos'] by auto
  then show "((src, pos'), src, pos) \<in> measure (\<lambda>(src, pos). length src - pos)" by auto
qed auto

declare lex_tokens.simps [simp del]

section \<open>What the tokens look like\<close>

definition digits_ok :: "bytes \<Rightarrow> bool" where
  "digits_ok v \<longleftrightarrow>
     (let w = takeWhile is_digit v; r = dropWhile is_digit v in
      w \<noteq> [] \<and> (r = [] \<or> (hd r = CHR ''.'' \<and> tl r \<noteq> [] \<and> list_all is_digit (tl r))))"

definition number_ok :: "bytes \<Rightarrow> bool" where
  "number_ok v \<longleftrightarrow> digits_ok v \<and> length v \<le> MAX_NUMBER_CHARS"

definition ident_ok :: "bytes \<Rightarrow> bool" where
  "ident_ok w \<longleftrightarrow>
     w \<noteq> [] \<and> (is_alpha (hd w) \<or> hd w = CHR ''_'') \<and> list_all is_word_char w \<and>
     keyword w = None \<and> to_ascii_lowercase w \<notin> set RESERVED"

definition text_ok :: "bytes \<Rightarrow> bool" where
  "text_ok v \<longleftrightarrow> length v \<le> MAX_STRING_BYTES \<and> NUL \<notin> set v"

fun tok_ok :: "tok \<Rightarrow> bool" where
  "tok_ok (TIdent w) = ident_ok w"
| "tok_ok (TNumber v) = number_ok v"
| "tok_ok (TStr v) = text_ok v"
| "tok_ok (TOp op) = (op \<notin> {OpOr, OpAnd, OpSub})"
| "tok_ok _ = True"

lemma lex_string_loop_no_nul:
  "lex_string_loop src start i v = Inr (w, j) \<Longrightarrow> NUL \<notin> set v \<Longrightarrow> NUL \<notin> set w"
proof (induction src start i v rule: lex_string_loop.induct)
  case (1 src start i v)
  have cont: "NUL \<notin> set (takeWhile is_cont xs)" for xs
    by (auto dest!: set_takeWhileD simp: is_cont_def byte_def)
  from "1.prems" show ?case
    using "1.IH" cont by (subst (asm) (1) lex_string_loop.simps)
      (auto simp: Let_def split: option.splits if_splits)
qed

lemma lex_string_ok: "lex_string src start = Inr (v, p) \<Longrightarrow> text_ok v"
  by (auto simp: lex_string_def text_ok_def dest!: lex_string_loop_no_nul split: if_splits prod.splits)

lemma digits_ok_whole: "w \<noteq> [] \<Longrightarrow> list_all is_digit w \<Longrightarrow> digits_ok w"
  by (cases w) (auto simp: digits_ok_def list_all_iff)

lemma digits_ok_fraction:
  assumes "w \<noteq> []" "list_all is_digit w" "f \<noteq> []" "list_all is_digit f"
  shows "digits_ok (w @ ''.'' @ f)"
proof -
  have dot: "\<not> is_digit CHR ''.''" by (simp add: is_digit_def byte_def)
  have "takeWhile is_digit (w @ ''.'' @ f) = w" "dropWhile is_digit (w @ ''.'' @ f) = ''.'' @ f"
    using assms(2) dot by (auto simp: takeWhile_append2 dropWhile_append2 list_all_iff)
  with assms show ?thesis by (simp add: digits_ok_def)
qed

lemma slice_split: "i \<le> j \<Longrightarrow> j \<le> k \<Longrightarrow> slice src i k = slice src i j @ slice src j k"
proof -
  assume "i \<le> j" "j \<le> k"
  then have "k - i = (j - i) + (k - j)" "drop j src = drop (j - i) (drop i src)" by simp_all
  then show ?thesis by (simp only: slice_def take_add)
qed

lemma slice_one: "i < length src \<Longrightarrow> slice src i (Suc i) = [src ! i]"
  by (simp add: slice_def take_Suc_conv_app_nth [of 0] hd_drop_conv_nth)

lemma lex_number_ok:
  assumes num: "lex_number src start = Inr (v, p)" and start: "start < length src" "is_digit (src ! start)"
  shows "number_ok v"
proof -
  let ?w = "scan_while is_digit src start"
  have w: "start < ?w" using start by (rule scan_while_first)
  have wd: "slice src start ?w \<noteq> []" "list_all is_digit (slice src start ?w)"
    using w start by (auto simp: slice_scan_while list_all_iff dest: set_takeWhileD)
      (auto simp: scan_while_def)
  have len: "length v \<le> MAX_NUMBER_CHARS" and v: "v = slice src start p"
    using num by (auto simp: lex_number_def Let_def slice_def split: if_splits)
  show ?thesis
  proof (cases "get_byte src ?w = Some CHR ''.''")
    case True
    then have dot: "?w < length src" "src ! ?w = CHR ''.''" by (auto simp: get_byte_Some)
    have p: "p = scan_while is_digit src (Suc ?w)" "p \<noteq> Suc ?w"
      using num True by (auto simp: lex_number_def Let_def split: if_splits)
    have ge: "Suc ?w \<le> p" unfolding p(1) by (rule scan_while_ge)
    have "v = slice src start ?w @ slice src ?w p"
      unfolding v using w ge by (intro slice_split) auto
    also have "slice src ?w p = slice src ?w (Suc ?w) @ slice src (Suc ?w) p"
      using ge by (intro slice_split) auto
    also have "slice src ?w (Suc ?w) = ''.''" using dot by (simp add: slice_one)
    finally have "v = slice src start ?w @ ''.'' @ slice src (Suc ?w) p" .
    moreover have "slice src (Suc ?w) p = takeWhile is_digit (drop (Suc ?w) src)"
      unfolding p(1) by (rule slice_scan_while)
    moreover have "takeWhile is_digit (drop (Suc ?w) src) \<noteq> []"
      using p by (auto simp: scan_while_def)
    moreover have "list_all is_digit (takeWhile is_digit (drop (Suc ?w) src))"
      by (auto simp: list_all_iff dest: set_takeWhileD)
    ultimately show ?thesis using wd digits_ok_fraction len by (simp add: number_ok_def)
  next
    case False
    then have "p = ?w" using num by (auto simp: lex_number_def Let_def split: if_splits)
    then show ?thesis using wd len digits_ok_whole v by (simp add: number_ok_def)
  qed
qed

lemma lex_word_ok:
  assumes "lex_word src start = Inr (t, p)" "start < length src"
    "is_alpha (src ! start) \<or> src ! start = CHR ''_''"
  shows "tok_ok t \<and> \<not> is_final t"
proof -
  let ?w = "slice src start (scan_while is_word_char src start)"
  have "is_word_char (src ! start)" using assms(3) by (auto simp: is_word_char_def is_alnum_def)
  then have w: "?w \<noteq> []" "hd ?w = src ! start" "list_all is_word_char ?w"
    using assms(2) unfolding slice_scan_while
    by (cases "drop start src"; auto simp: list_all_iff hd_drop_conv_nth [symmetric]
        dest: set_takeWhileD)+
  show ?thesis
    using assms w by (auto simp: lex_word_def Let_def ident_ok_def split: if_splits option.splits)
qed

lemma lex_operator_ok: "lex_operator src start = Inr (t, p) \<Longrightarrow> tok_ok t \<and> \<not> is_final t"
  by (auto simp: lex_operator_def Let_def op_token_def split: if_splits)

lemma lex_next_ok: "lex_next src pos = Inr (t, s, p) \<Longrightarrow> tok_ok t \<and> (is_final t \<longrightarrow> t = TEof)"
  using lex_string_ok lex_number_ok lex_word_ok lex_operator_ok
  by (fastforce simp: lex_next_def Let_def get_byte_Some split: if_splits option.splits)

text \<open>A token list as the lexer makes it: good tokens, exactly the last one final.\<close>

definition stream_ok :: "(tok \<times> nat) list \<Rightarrow> bool" where
  "stream_ok ts \<longleftrightarrow>
     ts \<noteq> [] \<and> is_final (fst (last ts)) \<and>
     (\<forall>i < length ts - 1. \<not> is_final (fst (ts ! i))) \<and> (\<forall>x \<in> set ts. tok_ok (fst x))"

lemma stream_ok_Cons:
  "stream_ok ts \<Longrightarrow> tok_ok t \<Longrightarrow> \<not> is_final t \<Longrightarrow> stream_ok ((t, at) # ts)"
  by (auto simp: stream_ok_def nth_Cons split: nat.splits)

lemma stream_ok_single: "tok_ok t \<Longrightarrow> is_final t \<Longrightarrow> stream_ok [(t, at)]"
  by (simp add: stream_ok_def)

lemma lex_tokens_ok: "stream_ok (lex_tokens src pos)"
proof (induction src pos rule: lex_tokens.induct)
  case (1 src pos)
  show ?case
  proof (cases "lex_next src pos")
    case (Inl e)
    then show ?thesis by (simp add: lex_tokens.simps [of src pos] stream_ok_single)
  next
    case (Inr r)
    obtain t s p where r: "r = (t, s, p)" by (cases r) auto
    have ok: "tok_ok t" using lex_next_ok Inr r by blast
    show ?thesis
      using "1.IH" [OF Inr] Inr r ok
      by (auto simp: lex_tokens.simps [of src pos] intro: stream_ok_single stream_ok_Cons)
  qed
qed

end
