(* ===== verification/Rule_Parser.thy ===== *)
theory Rule_Parser
  imports Rule_Lexer
begin

text \<open>
  The parser of the rule language, from the second half of \<open>rules/parser.rs\<close>.

  A parser state is the token list with the index of the next token and the count of
  nodes made so far. The nesting depth, which \<open>nested\<close> raises and lowers around every
  call, is the recursion argument: \<open>parser_at k\<close> is the parser that may still nest \<open>k\<close>
  times, so the recursion of the source is structural here and the depth limit is the
  case \<open>0\<close>. The \<open>while\<close> loops within one level take a fuel argument, the number of tokens;
  theorem \<open>parse_returns\<close> shows that it never runs out.
\<close>

definition MAX_SOURCE_BYTES :: nat where "MAX_SOURCE_BYTES = 2048"
definition MAX_DEPTH :: nat where "MAX_DEPTH = 24"
definition MAX_NODES :: nat where "MAX_NODES = 256"
definition MAX_IN_ITEMS :: nat where "MAX_IN_ITEMS = 100"

record parser =
  lexer_src :: bytes
  tokens :: "(tok \<times> nat) list"
  at :: nat
  nodes :: nat

datatype parse_error = Syntax syntax_error | OutOfFuel

type_synonym 'a presult = "parse_error + ('a \<times> parser)"

section \<open>Primitives\<close>

definition peek :: "parser \<Rightarrow> tok" where
  "peek p = fst (tokens p ! at p)"

definition peek2 :: "parser \<Rightarrow> tok" where
  "peek2 p = fst (tokens p ! min (at p + 1) (length (tokens p) - 1))"

text \<open>\<open>bump\<close> returns the token \<open>peek\<close> sees; this is the state after it.\<close>

definition bump :: "parser \<Rightarrow> parser" where
  "bump p = (if is_final (peek p) then p else p\<lparr>at := at p + 1\<rparr>)"

definition error_here :: "parser \<Rightarrow> bytes \<Rightarrow> parse_error" where
  "error_here p msg =
     (case peek p of
        TBad error \<Rightarrow> Syntax error
      | _ \<Rightarrow> Syntax (lex_error (lexer_src p) (snd (tokens p ! at p)) msg))"

definition expect_tok :: "tok \<Rightarrow> bytes \<Rightarrow> parser \<Rightarrow> unit presult" where
  "expect_tok t what p =
     (if peek p = t then Inr ((), bump p)
      else Inl (error_here p (''expected '' @ what @ '', found '' @ describe (peek p))))"

definition node :: "expr \<Rightarrow> parser \<Rightarrow> expr presult" where
  "node e p =
     (let p' = p\<lparr>nodes := nodes p + 1\<rparr> in
      if nodes p' > MAX_NODES then
        Inl (error_here p' (''rules are limited to '' @ show_nat MAX_NODES @ '' nodes''))
      else Inr (e, p'))"

definition binary :: "bin_op \<Rightarrow> expr \<Rightarrow> expr \<Rightarrow> parser \<Rightarrow> expr presult" where
  "binary op l r p = node (EBinary op l r) p"

text \<open>The entry points the deeper levels are reached through.\<close>

record level =
  lv_unary :: "parser \<Rightarrow> expr presult"
  lv_not :: "parser \<Rightarrow> expr presult"
  lv_or :: "parser \<Rightarrow> expr presult"

definition nested :: "level option \<Rightarrow> (level \<Rightarrow> parser \<Rightarrow> 'a presult) \<Rightarrow> parser \<Rightarrow> 'a presult" where
  "nested deeper f p =
     (case deeper of
        None \<Rightarrow> Inl (error_here p (''rules are limited to a nesting depth of '' @ show_nat MAX_DEPTH))
      | Some lv \<Rightarrow> f lv p)"

section \<open>Loops\<close>

text \<open>
  The loop of the left-associative levels: while the next token is one of the level's
  operators, consume it, parse the right operand and wrap.
\<close>

fun left_loop ::
  "nat \<Rightarrow> (tok \<Rightarrow> bin_op option) \<Rightarrow> (parser \<Rightarrow> expr presult) \<Rightarrow> expr \<Rightarrow> parser \<Rightarrow> expr presult" where
  "left_loop fuel sel sub l p =
     (case sel (peek p) of
        None \<Rightarrow> Inr (l, p)
      | Some op \<Rightarrow>
          (case fuel of
             0 \<Rightarrow> Inl OutOfFuel
           | Suc n \<Rightarrow>
               res_bind (sub (bump p)) (\<lambda>(r, p1).
                 res_bind (binary op l r p1) (\<lambda>(l', p2). left_loop n sel sub l' p2))))"

declare left_loop.simps [simp del]

definition p_left :: "(tok \<Rightarrow> bin_op option) \<Rightarrow> (parser \<Rightarrow> expr presult) \<Rightarrow> parser \<Rightarrow> expr presult" where
  "p_left sel sub p = res_bind (sub p) (\<lambda>(l, p1). left_loop (length (tokens p1)) sel sub l p1)"

definition p_or :: "(parser \<Rightarrow> expr presult) \<Rightarrow> parser \<Rightarrow> expr presult" where
  "p_or = p_left (\<lambda>t. if t = TKw KwOr then Some OpOr else None)"

definition p_and :: "(parser \<Rightarrow> expr presult) \<Rightarrow> parser \<Rightarrow> expr presult" where
  "p_and = p_left (\<lambda>t. if t = TKw KwAnd then Some OpAnd else None)"

definition p_other :: "(parser \<Rightarrow> expr presult) \<Rightarrow> parser \<Rightarrow> expr presult" where
  "p_other = p_left (\<lambda>t. if t = TOp OpMatch then Some OpMatch else None)"

definition p_additive :: "(parser \<Rightarrow> expr presult) \<Rightarrow> parser \<Rightarrow> expr presult" where
  "p_additive = p_left (\<lambda>t. if t = TOp OpAdd then Some OpAdd else if t = TMinus then Some OpSub else None)"

definition p_multiplicative :: "(parser \<Rightarrow> expr presult) \<Rightarrow> parser \<Rightarrow> expr presult" where
  "p_multiplicative = p_left (\<lambda>t. if t = TOp OpMul then Some OpMul else None)"

definition p_not :: "level option \<Rightarrow> (parser \<Rightarrow> expr presult) \<Rightarrow> parser \<Rightarrow> expr presult" where
  "p_not deeper sub p =
     (if peek p = TKw KwNot then
        res_bind (nested deeper lv_not (bump p)) (\<lambda>(e, p1). node (ENot e) p1)
      else sub p)"

fun is_loop :: "nat \<Rightarrow> expr \<Rightarrow> parser \<Rightarrow> expr presult" where
  "is_loop fuel e p =
     (if peek p \<noteq> TKw KwIs then Inr (e, p)
      else
        (case fuel of
           0 \<Rightarrow> Inl OutOfFuel
         | Suc n \<Rightarrow>
             (let p1 = bump p;
                  negated = (peek p1 = TKw KwNot);
                  p2 = (if negated then bump p1 else p1)
              in res_bind (expect_tok (TKw KwNull) ''NULL (only IS [NOT] NULL is supported)'' p2) (\<lambda>(_, p3).
                   res_bind (node (EIsNull e negated) p3) (\<lambda>(e', p4). is_loop n e' p4)))))"

declare is_loop.simps [simp del]

definition p_is :: "(parser \<Rightarrow> expr presult) \<Rightarrow> parser \<Rightarrow> expr presult" where
  "p_is sub p = res_bind (sub p) (\<lambda>(e, p1). is_loop (length (tokens p1)) e p1)"

definition p_comparison :: "(parser \<Rightarrow> expr presult) \<Rightarrow> parser \<Rightarrow> expr presult" where
  "p_comparison sub p =
     res_bind (sub p) (\<lambda>(l, p1).
       case peek p1 of
         TOp op \<Rightarrow>
           if is_comparison op then
             res_bind (sub (bump p1)) (\<lambda>(r, p2). binary op l r p2)
           else Inr (l, p1)
       | _ \<Rightarrow> Inr (l, p1))"

text \<open>The items of an \<open>IN\<close> list after the first.\<close>

fun in_loop ::
  "nat \<Rightarrow> (parser \<Rightarrow> expr presult) \<Rightarrow> expr list \<Rightarrow> parser \<Rightarrow> expr list presult" where
  "in_loop fuel sub items p =
     (if peek p \<noteq> TComma then Inr (items, p)
      else
        (case fuel of
           0 \<Rightarrow> Inl OutOfFuel
         | Suc n \<Rightarrow>
             res_bind (sub (bump p)) (\<lambda>(item, p1).
               let items' = items @ [item] in
               if length items' > MAX_IN_ITEMS then
                 Inl (error_here p1 (''IN lists are limited to '' @ show_nat MAX_IN_ITEMS @ '' items''))
               else in_loop n sub items' p1)))"

declare in_loop.simps [simp del]

definition p_range :: "(parser \<Rightarrow> expr presult) \<Rightarrow> parser \<Rightarrow> expr presult" where
  "p_range sub p =
     res_bind (sub p) (\<lambda>(e, p1).
       let negated = (peek p1 = TKw KwNot \<and> (peek2 p1 = TKw KwBetween \<or> peek2 p1 = TKw KwIn));
           p2 = (if negated then bump p1 else p1)
       in if peek p2 = TKw KwBetween then
            res_bind (sub (bump p2)) (\<lambda>(lo, p3).
              res_bind (expect_tok (TKw KwAnd) ''AND in BETWEEN'' p3) (\<lambda>(_, p4).
                res_bind (sub p4) (\<lambda>(hi, p5). node (EBetween e lo hi negated) p5)))
          else if peek p2 = TKw KwIn then
            res_bind (expect_tok TLParen (sq ''('' @ '' after IN'') (bump p2)) (\<lambda>(_, p3).
              res_bind (sub p3) (\<lambda>(item, p4).
                res_bind (in_loop (length (tokens p4)) sub [item] p4) (\<lambda>(items, p5).
                  res_bind (expect_tok TRParen (sq '')'' @ '' closing the IN list'') p5) (\<lambda>(_, p6).
                    node (EIn e items negated) p6))))
          else Inr (e, p2))"

section \<open>Atoms\<close>

text \<open>\<open>str::parse::<u32>\<close>: digits with an optional plus sign, below \<open>2 ^ 32\<close>.\<close>

definition parse_u32 :: "bytes \<Rightarrow> nat option" where
  "parse_u32 s =
     (let ds = (case s of c # cs \<Rightarrow> if c = CHR ''+'' then cs else s | [] \<Rightarrow> []) in
      if ds \<noteq> [] \<and> list_all is_digit ds \<and> read_digits 0 ds < 2 ^ 32
      then Some (read_digits 0 ds) else None)"

definition interval_unit_of :: "bytes \<Rightarrow> interval_unit option" where
  "interval_unit_of u =
     (if u = ''day'' \<or> u = ''days'' then Some Days
      else if u = ''hour'' \<or> u = ''hours'' then Some Hours
      else if u = ''minute'' \<or> u = ''minutes'' then Some Minutes
      else if u = ''second'' \<or> u = ''seconds'' then Some Seconds
      else None)"

definition step_back :: "parser \<Rightarrow> parser" where
  "step_back p = p\<lparr>at := at p - 1\<rparr>"

definition p_interval :: "parser \<Rightarrow> expr presult" where
  "p_interval p =
     (let p1 = bump p;
          invalid = Inl (error_here (step_back p1)
            (''intervals are written '' @ sq ''<n> days|hours|minutes|seconds''))
      in case peek p of
           TStr text \<Rightarrow>
             (case split_whitespace text of
                [amount, unit] \<Rightarrow>
                  (case interval_unit_of unit of
                     None \<Rightarrow> invalid
                   | Some u \<Rightarrow>
                       (case parse_u32 amount of
                          Some n \<Rightarrow>
                            if list_all is_digit amount \<and> n \<le> 1000000 then node (EInterval n u) p1
                            else invalid
                        | None \<Rightarrow> invalid))
              | _ \<Rightarrow> invalid)
         | _ \<Rightarrow> Inl (error_here (step_back p1)
             (''expected a quoted interval such as interval '' @ sq ''62 days'')))"

text \<open>The arguments of a call after the first.\<close>

fun args_loop ::
  "nat \<Rightarrow> (parser \<Rightarrow> expr presult) \<Rightarrow> expr list \<Rightarrow> parser \<Rightarrow> expr list presult" where
  "args_loop fuel sub args p =
     (if peek p \<noteq> TComma then Inr (args, p)
      else
        (case fuel of
           0 \<Rightarrow> Inl OutOfFuel
         | Suc n \<Rightarrow> res_bind (sub (bump p)) (\<lambda>(arg, p1). args_loop n sub (args @ [arg]) p1)))"

declare args_loop.simps [simp del]

definition p_args :: "level \<Rightarrow> parser \<Rightarrow> expr list presult" where
  "p_args lv p =
     res_bind (lv_or lv p) (\<lambda>(arg, p1). args_loop (length (tokens p1)) (lv_or lv) [arg] p1)"

definition p_call :: "level option \<Rightarrow> bytes \<Rightarrow> parser \<Rightarrow> expr presult" where
  "p_call deeper name p =
     (case func_from_name (to_ascii_lowercase name) of
        None \<Rightarrow> Inl (error_here p
          (''function '' @ sq name @ '' is not allowed; allowed: '' @ func_names))
      | Some f \<Rightarrow>
          res_bind (nested deeper p_args (bump (bump p))) (\<lambda>(args, p1).
            res_bind (expect_tok TRParen (sq '')'' @ '' closing the call'') p1) (\<lambda>(_, p2).
              if length args \<noteq> arity f then
                Inl (error_here p2
                  (name @ ''() takes '' @ show_nat (arity f) @ '' argument'' @
                   (if arity f = 1 then '''' else ''s'') @ '' here''))
              else node (ECall f args) p2)))"

definition p_atom :: "level option \<Rightarrow> parser \<Rightarrow> expr presult" where
  "p_atom deeper p =
     (let p1 = bump p in
      case peek p of
        TNumber value \<Rightarrow> node (ENumber value) p1
      | TStr value \<Rightarrow> node (EText value) p1
      | TKw KwTrue \<Rightarrow> node (EBool True) p1
      | TKw KwFalse \<Rightarrow> node (EBool False) p1
      | TKw KwNull \<Rightarrow> Inl (error_here p ''NULL is only allowed in IS [NOT] NULL'')
      | TKw KwInterval \<Rightarrow> p_interval p1
      | TLParen \<Rightarrow>
          res_bind (nested deeper lv_or p1) (\<lambda>(e, p2).
            res_bind (expect_tok TRParen (sq '')'') p2) (\<lambda>(_, p3). Inr (e, p3)))
      | TIdent name \<Rightarrow>
          if peek p1 = TLParen then p_call deeper name p
          else if list_ex is_upper name then
            Inl (error_here p (''field names are lowercase: '' @ sq name))
          else node (EField name) p1
      | t \<Rightarrow> Inl (error_here p (''expected a field, literal or function, found '' @ describe t)))"

definition p_unary :: "level option \<Rightarrow> parser \<Rightarrow> expr presult" where
  "p_unary deeper p =
     (case peek p of
        TMinus \<Rightarrow>
          res_bind (nested deeper lv_unary (bump p)) (\<lambda>(e, p1). node (ENeg e) p1)
      | TOp OpAdd \<Rightarrow> Inl (error_here p (''unary '' @ sq ''+'' @ '' is not allowed''))
      | _ \<Rightarrow> p_atom deeper p)"

section \<open>Levels\<close>

definition p_operand :: "level option \<Rightarrow> parser \<Rightarrow> expr presult" where
  "p_operand deeper = p_other (p_additive (p_multiplicative (p_unary deeper)))"

definition p_test :: "level option \<Rightarrow> parser \<Rightarrow> expr presult" where
  "p_test deeper = p_is (p_comparison (p_range (p_operand deeper)))"

definition make_level :: "level option \<Rightarrow> level" where
  "make_level deeper =
     \<lparr>lv_unary = p_unary deeper,
      lv_not = p_not deeper (p_test deeper),
      lv_or = p_or (p_and (p_not deeper (p_test deeper)))\<rparr>"

primrec parser_at :: "nat \<Rightarrow> level" where
  "parser_at 0 = make_level None"
| "parser_at (Suc k) = make_level (Some (parser_at k))"

text \<open>The match on the token after the expression, at the end of \<open>parse\<close>.\<close>

definition parse_end :: "expr \<Rightarrow> parser \<Rightarrow> parse_error + expr" where
  "parse_end e p =
     (case peek p of
        TEof \<Rightarrow> Inr e
      | TOp op \<Rightarrow>
          if is_comparison op then
            Inl (error_here p ''comparisons do not chain; add parentheses, as PostgreSQL requires'')
          else Inl (error_here p (''unexpected '' @ describe (TOp op)))
      | TKw KwIs \<Rightarrow> Inl (error_here p ''add parentheses around the IS test'')
      | t \<Rightarrow> Inl (error_here p (''unexpected '' @ describe t)))"

definition parse :: "bytes \<Rightarrow> parse_error + expr" where
  "parse src =
     (if length src > MAX_SOURCE_BYTES then
        Inl (Syntax (lex_error src 0
          (''rules are limited to '' @ show_nat MAX_SOURCE_BYTES @ '' bytes'')))
      else
        (let p0 = \<lparr>lexer_src = src, tokens = lex_tokens src 0, at = 0, nodes = 0\<rparr> in
         if peek p0 = TEof then Inl (error_here p0 ''the rule is empty'')
         else res_bind (lv_or (parser_at MAX_DEPTH) p0) (\<lambda>(e, p). parse_end e p)))"

section \<open>The contract of a sub-parser\<close>

text \<open>
  A parser state is well formed when its tokens come from the lexer, it stands on one of
  them and it has not passed the node limit. \<open>reach p p' k\<close>: \<open>p'\<close> is a well-formed state of the
  same parse, not before \<open>p\<close>, with \<open>k\<close> more nodes.
\<close>

definition wf :: "parser \<Rightarrow> bool" where
  "wf p \<longleftrightarrow> stream_ok (tokens p) \<and> at p < length (tokens p) \<and> nodes p \<le> MAX_NODES"

definition reach :: "parser \<Rightarrow> parser \<Rightarrow> nat \<Rightarrow> bool" where
  "reach p p' k \<longleftrightarrow>
     wf p' \<and> tokens p' = tokens p \<and> lexer_src p' = lexer_src p \<and> at p \<le> at p' \<and> nodes p' = nodes p + k"

text \<open>The postcondition of a run: a syntax error, or a result and a state with \<open>Q\<close>.\<close>

definition outcome :: "('a \<Rightarrow> parser \<Rightarrow> bool) \<Rightarrow> 'a presult \<Rightarrow> bool" where
  "outcome Q r \<longleftrightarrow> (case r of Inl e \<Rightarrow> e \<noteq> OutOfFuel | Inr (x, p') \<Rightarrow> Q x p')"

lemma outcome_simps [simp]:
  "outcome Q (Inl (Syntax e))"
  "\<not> outcome Q (Inl OutOfFuel)"
  "outcome Q (Inr (x, p')) = Q x p'"
  by (simp_all add: outcome_def)

lemma outcome_bind:
  assumes "outcome Q m" "\<And>x p'. Q x p' \<Longrightarrow> outcome R (f (x, p'))"
  shows "outcome R (res_bind m f)"
proof (cases m)
  case (Inl e)
  with assms(1) show ?thesis by (cases e) auto
next
  case (Inr y)
  with assms show ?thesis by (cases y) auto
qed

lemma outcome_mono: "outcome Q r \<Longrightarrow> (\<And>x p'. Q x p' \<Longrightarrow> R x p') \<Longrightarrow> outcome R r"
  by (auto simp: outcome_def split: sum.splits)

lemma error_here_Syntax [simp]: "error_here p msg \<noteq> OutOfFuel"
  by (simp add: error_here_def split: tok.splits)

lemma parse_end_error: "parse_end e p \<noteq> Inl OutOfFuel"
  by (simp add: parse_end_def split: tok.split kw.split)

lemma parse_end_Inr: "parse_end e p = Inr e' \<Longrightarrow> e' = e"
  by (auto simp: parse_end_def split: tok.splits kw.splits if_splits)

lemma outcome_error_here [simp]: "outcome Q (Inl (error_here p msg))"
  by (simp add: outcome_def error_here_def split: tok.splits)

lemma reach_refl: "wf p \<Longrightarrow> reach p p 0"
  by (simp add: reach_def)

lemma reach_trans: "reach p q j \<Longrightarrow> reach q r k \<Longrightarrow> reach p r (j + k)"
  by (auto simp: reach_def)

lemma reach_wf: "reach p q k \<Longrightarrow> wf q"
  by (simp add: reach_def)

lemma bump_reach:
  assumes "wf p" "\<not> is_final (peek p)"
  shows "reach p (bump p) 0 \<and> at (bump p) = Suc (at p)"
proof -
  have "at p \<noteq> length (tokens p) - 1"
    using assms by (auto simp: wf_def stream_ok_def peek_def last_conv_nth)
  with assms have "Suc (at p) < length (tokens p)" by (auto simp: wf_def)
  with assms show ?thesis by (auto simp: reach_def bump_def wf_def)
qed

lemma bump_reach_any: "wf p \<Longrightarrow> reach p (bump p) 0"
  using bump_reach reach_refl by (cases "is_final (peek p)") (auto simp: bump_def)

lemma peek_ok: "wf p \<Longrightarrow> tok_ok (peek p)"
  by (auto simp: wf_def stream_ok_def peek_def)

text \<open>What the parser hands to the type checker.\<close>

fun parsed_ok :: "expr \<Rightarrow> bool" where
  "parsed_ok (EField name) = (ident_ok name \<and> \<not> list_ex is_upper name)"
| "parsed_ok (EText v) = text_ok v"
| "parsed_ok (ENumber v) = number_ok v"
| "parsed_ok (EBool b) = True"
| "parsed_ok (ETyped t v) = False"
| "parsed_ok (EInterval n u) = (n \<le> 1000000)"
| "parsed_ok (ENot e) = parsed_ok e"
| "parsed_ok (ENeg e) = parsed_ok e"
| "parsed_ok (EBinary op l r) = (parsed_ok l \<and> parsed_ok r)"
| "parsed_ok (EIsNull e n) = parsed_ok e"
| "parsed_ok (EBetween e lo hi n) = (parsed_ok e \<and> parsed_ok lo \<and> parsed_ok hi)"
| "parsed_ok (EIn e items n) =
     (parsed_ok e \<and> items \<noteq> [] \<and> length items \<le> MAX_IN_ITEMS \<and> (\<forall>x \<in> set items. parsed_ok x))"
| "parsed_ok (ECall f args) = (length args = arity f \<and> (\<forall>x \<in> set args. parsed_ok x))"
| "parsed_ok (EArrayWithin name vs) = False"
| "parsed_ok (EFinite e n) = False"

text \<open>From \<open>p\<close>: the tree \<open>e\<close> was parsed and its nodes counted, on top of \<open>k\<close> others.\<close>

definition parsed :: "parser \<Rightarrow> nat \<Rightarrow> expr \<Rightarrow> parser \<Rightarrow> bool" where
  "parsed p k e p' \<longleftrightarrow> reach p p' (k + node_count e) \<and> at p < at p' \<and> parsed_ok e"

definition parsed_list :: "parser \<Rightarrow> nat \<Rightarrow> expr list \<Rightarrow> parser \<Rightarrow> bool" where
  "parsed_list p k es p' \<longleftrightarrow>
     reach p p' (k + sum_list (map node_count es)) \<and> at p < at p' \<and> es \<noteq> [] \<and> (\<forall>e \<in> set es. parsed_ok e)"

lemma parsed_list_single: "parsed p k e p' \<Longrightarrow> parsed_list p k [e] p'"
  by (simp add: parsed_def parsed_list_def)

lemma node_outcome:
  assumes "reach p p' k" "at p < at p'" "parsed_ok e" "node_count e = Suc k"
  shows "outcome (parsed p 0) (node e p')"
  using assms by (auto simp: node_def Let_def parsed_def reach_def wf_def)

lemma expect_outcome:
  assumes "wf p" "\<not> is_final t"
  shows "outcome (\<lambda>_ p'. reach p p' 0 \<and> at p < at p') (expect_tok t what p)"
  using bump_reach [of p] assms by (auto simp: expect_tok_def)

locale sub_parser =
  fixes run :: "parser \<Rightarrow> expr presult"
  assumes runs: "wf p \<Longrightarrow> outcome (parsed p 0) (run p)"
begin

lemma runs_from:
  assumes "reach p p' k"
  shows "outcome (parsed p k) (run p')"
proof -
  have "wf p'" using assms by (rule reach_wf)
  then have "outcome (parsed p' 0) (run p')" by (rule runs)
  then show ?thesis
    by (rule outcome_mono) (use assms in \<open>auto simp: parsed_def reach_def\<close>)
qed

text \<open>A run of operands and operators to the left has the contract again.\<close>

lemma left_loop_outcome:
  assumes "parsed p 0 l p'" "\<And>t op. sel t = Some op \<Longrightarrow> \<not> is_final t"
    "length (tokens p') \<le> at p' + fuel"
  shows "outcome (parsed p 0) (left_loop fuel sel run l p')"
  using assms
proof (induction fuel arbitrary: l p')
  case 0
  then show ?case by (auto simp: parsed_def reach_def wf_def)
next
  case (Suc n)
  show ?case
  proof (cases "sel (peek p')")
    case None
    then show ?thesis using Suc.prems by (simp add: left_loop.simps)
  next
    case (Some op)
    have l: "reach p p' (node_count l)" "at p < at p'" "parsed_ok l"
      using Suc.prems(1) by (auto simp: parsed_def)
    have b: "reach p' (bump p') 0" "at (bump p') = Suc (at p')"
      using bump_reach [of p'] l Some Suc.prems(2) by (auto dest: reach_wf)
    have "outcome (parsed p (node_count l)) (run (bump p'))"
      using reach_trans [OF l(1) b(1)] by (auto intro: runs_from)
    then have sub: "outcome (\<lambda>r q. parsed p (node_count l) r q \<and> at (bump p') < at q) (run (bump p'))"
      using runs [OF reach_wf [OF b(1)]] by (auto simp: outcome_def parsed_def split: sum.splits prod.splits)
    have "outcome (parsed p 0)
        (res_bind (run (bump p')) (\<lambda>(r, p1).
           res_bind (binary op l r p1) (\<lambda>(l', p2). left_loop n sel run l' p2)))"
    proof (rule outcome_bind [OF sub], clarsimp)
      fix r q assume q: "parsed p (node_count l) r q" "at (bump p') < at q"
      have "outcome (\<lambda>e q'. parsed p 0 e q' \<and> at q' = at q \<and> tokens q' = tokens q) (binary op l r q)"
        using q l by (auto simp: binary_def node_def Let_def parsed_def reach_def wf_def)
      then show "outcome (parsed p 0)
          (res_bind (binary op l r q) (\<lambda>(l', p2). left_loop n sel run l' p2))"
      proof (rule outcome_bind, clarsimp)
        fix e q' assume "parsed p 0 e q'" "at q' = at q" "tokens q' = tokens q"
        moreover have "length (tokens q) \<le> at q + n"
          using Suc.prems(3) q b(2) l(1) by (auto simp: parsed_def reach_def)
        ultimately show "outcome (parsed p 0) (left_loop n sel run e q')"
          using Suc.prems(2) by (intro Suc.IH) auto
      qed
    qed
    with Some show ?thesis by (subst left_loop.simps) simp
  qed
qed

lemma p_left_sub:
  assumes "\<And>t op. sel t = Some op \<Longrightarrow> \<not> is_final t"
  shows "sub_parser (p_left sel run)"
proof
  fix p assume "wf p"
  from runs [OF this] show "outcome (parsed p 0) (p_left sel run p)"
    unfolding p_left_def by (rule outcome_bind, clarsimp) (rule left_loop_outcome, assumption, erule assms, simp)
qed

lemma is_loop_outcome:
  assumes "parsed p 0 e p'" "length (tokens p') \<le> at p' + fuel"
  shows "outcome (parsed p 0) (is_loop fuel e p')"
  using assms
proof (induction fuel arbitrary: e p')
  case 0
  then show ?case by (auto simp: parsed_def reach_def wf_def)
next
  case (Suc n)
  show ?case
  proof (cases "peek p' = TKw KwIs")
    case False
    then show ?thesis using Suc.prems by (subst is_loop.simps) simp
  next
    case True
    define q where "q = (if peek (bump p') = TKw KwNot then bump (bump p') else bump p')"
    have e: "reach p p' (node_count e)" "at p < at p'" "parsed_ok e" "wf p'"
      using Suc.prems(1) by (auto simp: parsed_def reach_def)
    have b: "reach p' (bump p') 0" "at (bump p') = Suc (at p')"
      using bump_reach [of p'] e(4) True by auto
    have q: "reach p' q 0" "at p' < at q"
      unfolding q_def using b bump_reach_any [of "bump p'"] reach_wf reach_trans [OF b(1)]
      by (auto simp: reach_def)
    have "outcome (parsed p 0)
        (res_bind (expect_tok (TKw KwNull) ''NULL (only IS [NOT] NULL is supported)'' q) (\<lambda>(_, p3).
           res_bind (node (EIsNull e (peek (bump p') = TKw KwNot)) p3) (\<lambda>(e', p4). is_loop n e' p4)))"
    proof (rule outcome_bind [OF expect_outcome], use q reach_wf in blast, simp, clarsimp)
      fix p3 assume p3: "reach q p3 0" "at q < at p3"
      have "outcome (\<lambda>e q'. parsed p 0 e q' \<and> at q' = at p3 \<and> tokens q' = tokens p')
          (node (EIsNull e (peek (bump p') = TKw KwNot)) p3)"
        using p3 q e by (auto simp: node_def Let_def parsed_def reach_def wf_def)
      then show "outcome (parsed p 0)
          (res_bind (node (EIsNull e (peek (bump p') = TKw KwNot)) p3) (\<lambda>(e', p4). is_loop n e' p4))"
        by (rule outcome_bind, clarsimp) (rule Suc.IH, assumption, use Suc.prems p3 q in auto)
    qed
    with True show ?thesis by (subst is_loop.simps) (simp add: Let_def q_def)
  qed
qed

lemma p_is_sub: "sub_parser (p_is run)"
proof
  fix p assume "wf p"
  from runs [OF this] show "outcome (parsed p 0) (p_is run p)"
    unfolding p_is_def by (rule outcome_bind, clarsimp) (rule is_loop_outcome, assumption, simp)
qed

lemma p_comparison_sub: "sub_parser (p_comparison run)"
proof
  fix p assume "wf p"
  from runs [OF this] show "outcome (parsed p 0) (p_comparison run p)"
    unfolding p_comparison_def
  proof (rule outcome_bind, clarify)
    fix l p1 assume l: "parsed p 0 l p1"
    have "outcome (parsed p 0) (res_bind (run (bump p1)) (\<lambda>(r, p2). binary op l r p2))"
      if "peek p1 = TOp op" for op
    proof (rule outcome_bind [OF runs_from [of p "bump p1" "node_count l"]])
      have "reach p p1 (node_count l)" using l by (simp add: parsed_def)
      from reach_trans [OF this bump_reach_any] show "reach p (bump p1) (node_count l)"
        using reach_wf [OF \<open>reach p p1 (node_count l)\<close>] by simp
      fix r p2 assume "parsed p (node_count l) r p2"
      then show "outcome (parsed p 0) (case (r, p2) of (r, p2) \<Rightarrow> binary op l r p2)"
        using l by (auto simp: binary_def parsed_def intro!: node_outcome)
    qed
    with l show "outcome (parsed p 0) (case peek p1 of TOp op \<Rightarrow>
        if is_comparison op then res_bind (run (bump p1)) (\<lambda>(r, p2). binary op l r p2)
        else Inr (l, p1) | _ \<Rightarrow> Inr (l, p1))"
      by (auto split: tok.splits)
  qed
qed

text \<open>One more element after a comma.\<close>

lemma next_item:
  assumes "parsed_list p k es p'" "peek p' = TComma"
  shows "outcome (\<lambda>e q. parsed_list p k (es @ [e]) q \<and> at p' + 1 < at q) (run (bump p'))"
proof -
  have es: "reach p p' (k + sum_list (map node_count es))" using assms by (simp add: parsed_list_def)
  have b: "reach p' (bump p') 0" "at (bump p') = Suc (at p')"
    using bump_reach [of p'] reach_wf [OF es] assms(2) by auto
  from runs [OF reach_wf [OF b(1)]] show ?thesis
    by (rule outcome_mono) (use es b assms(1) in \<open>auto simp: parsed_def parsed_list_def reach_def\<close>)
qed

lemma in_loop_outcome:
  assumes "parsed_list p k es p'" "length es \<le> MAX_IN_ITEMS" "length (tokens p') \<le> at p' + fuel"
  shows "outcome (\<lambda>es p'. parsed_list p k es p' \<and> length es \<le> MAX_IN_ITEMS) (in_loop fuel run es p')"
  using assms
proof (induction fuel arbitrary: es p')
  case 0
  then show ?case by (auto simp: parsed_list_def reach_def wf_def)
next
  case (Suc n)
  show ?case
  proof (cases "peek p' = TComma")
    case False
    then show ?thesis using Suc.prems by (subst in_loop.simps) simp
  next
    case True
    have "outcome (\<lambda>es p'. parsed_list p k es p' \<and> length es \<le> MAX_IN_ITEMS)
        (res_bind (run (bump p')) (\<lambda>(item, p1).
           let items' = es @ [item] in
           if length items' > MAX_IN_ITEMS then
             Inl (error_here p1 (''IN lists are limited to '' @ show_nat MAX_IN_ITEMS @ '' items''))
           else in_loop n run items' p1))"
      by (rule outcome_bind [OF next_item [OF Suc.prems(1) True]])
        (use Suc.prems in \<open>auto simp: Let_def not_less intro!: Suc.IH, auto simp: parsed_list_def reach_def\<close>)
    with True show ?thesis by (subst in_loop.simps) simp
  qed
qed

lemma args_loop_outcome:
  assumes "parsed_list p k es p'" "length (tokens p') \<le> at p' + fuel"
  shows "outcome (parsed_list p k) (args_loop fuel run es p')"
  using assms
proof (induction fuel arbitrary: es p')
  case 0
  then show ?case by (auto simp: parsed_list_def reach_def wf_def)
next
  case (Suc n)
  show ?case
  proof (cases "peek p' = TComma")
    case False
    then show ?thesis using Suc.prems by (subst args_loop.simps) simp
  next
    case True
    have "outcome (parsed_list p k)
        (res_bind (run (bump p')) (\<lambda>(arg, p1). args_loop n run (es @ [arg]) p1))"
      by (rule outcome_bind [OF next_item [OF Suc.prems(1) True]])
        (use Suc.prems in \<open>auto intro!: Suc.IH, auto simp: parsed_list_def reach_def\<close>)
    with True show ?thesis by (subst args_loop.simps) simp
  qed
qed

lemma between_outcome:
  assumes "parsed p 0 e q" "wf q"
  shows "outcome (parsed p 0)
    (res_bind (run (bump q)) (\<lambda>(lo, p3).
       res_bind (expect_tok (TKw KwAnd) ''AND in BETWEEN'' p3) (\<lambda>(_, p4).
         res_bind (run p4) (\<lambda>(hi, p5). node (EBetween e lo hi negated) p5))))"
proof (rule outcome_bind [OF runs_from [of p "bump q" "node_count e"]])
  show "reach p (bump q) (node_count e)"
    using reach_trans [of p q "node_count e" "bump q" 0] bump_reach_any [of q] assms
    by (simp add: parsed_def)
next
  fix lo p3 assume lo: "parsed p (node_count e) lo p3"
  then have "wf p3" by (simp add: parsed_def reach_def)
  show "outcome (parsed p 0) (case (lo, p3) of (lo, p3) \<Rightarrow>
      res_bind (expect_tok (TKw KwAnd) ''AND in BETWEEN'' p3) (\<lambda>(_, p4).
         res_bind (run p4) (\<lambda>(hi, p5). node (EBetween e lo hi negated) p5)))"
  proof (simp, rule outcome_bind [OF expect_outcome [OF \<open>wf p3\<close>]], simp, clarsimp)
    fix p4 assume p4: "reach p3 p4 0" "at p3 < at p4"
    have "reach p p4 (node_count e + node_count lo)"
      using reach_trans [of p p3 "node_count e + node_count lo" p4 0] lo p4 by (simp add: parsed_def)
    from runs_from [OF this]
    show "outcome (parsed p 0) (res_bind (run p4) (\<lambda>(hi, p5). node (EBetween e lo hi negated) p5))"
      by (rule outcome_bind)
        (use lo assms in \<open>auto simp: parsed_def intro!: node_outcome\<close>)
  qed
qed

lemma in_outcome:
  assumes "parsed p 0 e q" "wf q"
  shows "outcome (parsed p 0)
    (res_bind (expect_tok TLParen what (bump q)) (\<lambda>(_, p3).
       res_bind (run p3) (\<lambda>(item, p4).
         res_bind (in_loop (length (tokens p4)) run [item] p4) (\<lambda>(items, p5).
           res_bind (expect_tok TRParen what' p5) (\<lambda>(_, p6). node (EIn e items negated) p6)))))"
proof (rule outcome_bind [OF expect_outcome])
  show b: "wf (bump q)" using bump_reach_any [OF assms(2)] by (rule reach_wf)
  fix u p3 assume "reach (bump q) p3 0 \<and> at (bump q) < at p3"
  then have "reach p p3 (node_count e)"
    using reach_trans [of p q "node_count e" "bump q" 0] reach_trans [of p "bump q" "node_count e" p3 0]
      bump_reach_any [of q] assms by (simp add: parsed_def)
  then have item: "outcome (parsed p (node_count e)) (run p3)" by (rule runs_from)
  have close: "outcome (parsed p 0)
      (res_bind (expect_tok TRParen what' p5) (\<lambda>(_, p6). node (EIn e items negated) p6))"
    if "parsed_list p (node_count e) items p5 \<and> length items \<le> MAX_IN_ITEMS" for items p5
    by (rule outcome_bind [OF expect_outcome])
      (use that assms in \<open>auto simp: parsed_list_def parsed_def reach_def intro!: node_outcome\<close>)
  show "outcome (parsed p 0) (case (u, p3) of (_, p3) \<Rightarrow>
      res_bind (run p3) (\<lambda>(item, p4).
         res_bind (in_loop (length (tokens p4)) run [item] p4) (\<lambda>(items, p5).
           res_bind (expect_tok TRParen what' p5) (\<lambda>(_, p6). node (EIn e items negated) p6))))"
    by (simp, rule outcome_bind [OF item], simp)
      (rule outcome_bind [OF in_loop_outcome [OF parsed_list_single]], assumption,
       auto simp: MAX_IN_ITEMS_def intro: close [unfolded MAX_IN_ITEMS_def])
qed simp

lemma p_range_sub: "sub_parser (p_range run)"
proof
  fix p assume "wf p"
  from runs [OF this] show "outcome (parsed p 0) (p_range run p)"
    unfolding p_range_def
  proof (rule outcome_bind, clarify)
    fix e p1 assume e: "parsed p 0 e p1"
    define negated where
      "negated = (peek p1 = TKw KwNot \<and> (peek2 p1 = TKw KwBetween \<or> peek2 p1 = TKw KwIn))"
    define p2 where "p2 = (if negated then bump p1 else p1)"
    have "wf p1" using e by (simp add: parsed_def reach_def)
    then have p2: "parsed p 0 e p2" "wf p2"
      using e bump_reach_any [of p1] by (auto simp: p2_def parsed_def reach_def)
    show "outcome (parsed p 0)
        (let negated = (peek p1 = TKw KwNot \<and> (peek2 p1 = TKw KwBetween \<or> peek2 p1 = TKw KwIn));
             p2 = (if negated then bump p1 else p1)
         in if peek p2 = TKw KwBetween then
            res_bind (run (bump p2)) (\<lambda>(lo, p3).
              res_bind (expect_tok (TKw KwAnd) ''AND in BETWEEN'' p3) (\<lambda>(_, p4).
                res_bind (run p4) (\<lambda>(hi, p5). node (EBetween e lo hi negated) p5)))
          else if peek p2 = TKw KwIn then
            res_bind (expect_tok TLParen (sq ''('' @ '' after IN'') (bump p2)) (\<lambda>(_, p3).
              res_bind (run p3) (\<lambda>(item, p4).
                res_bind (in_loop (length (tokens p4)) run [item] p4) (\<lambda>(items, p5).
                  res_bind (expect_tok TRParen (sq '')'' @ '' closing the IN list'') p5) (\<lambda>(_, p6).
                    node (EIn e items negated) p6))))
          else Inr (e, p2))"
      unfolding Let_def negated_def [symmetric] p2_def [symmetric]
      using between_outcome [OF p2] in_outcome [OF p2] p2(1) by simp
  qed
qed

end

section \<open>Every level keeps the contract\<close>

definition level_ok :: "level \<Rightarrow> bool" where
  "level_ok lv \<longleftrightarrow> sub_parser (lv_unary lv) \<and> sub_parser (lv_not lv) \<and> sub_parser (lv_or lv)"

abbreviation deeper_ok :: "level option \<Rightarrow> bool" where
  "deeper_ok \<equiv> pred_option level_ok"

lemma nested_outcome:
  assumes "deeper_ok deeper" "\<And>lv. level_ok lv \<Longrightarrow> outcome Q (f lv p)"
  shows "outcome Q (nested deeper f p)"
  using assms by (cases deeper) (auto simp: nested_def)

lemma level_runs:
  assumes "deeper_ok deeper" "reach p p' k"
    "entry = lv_unary \<or> entry = lv_not \<or> entry = lv_or"
  shows "outcome (parsed p k) (nested deeper entry p')"
  using assms by (intro nested_outcome) (auto simp: level_ok_def intro: sub_parser.runs_from)

lemma p_interval_outcome:
  assumes "reach p p' 0" "at p < at p'"
  shows "outcome (parsed p 0) (p_interval p')"
proof -
  have "outcome (parsed p 0) (node (EInterval n u) (bump p'))" if "n \<le> 1000000" for n u
    using that assms reach_trans [OF assms(1) bump_reach_any] reach_wf [OF assms(1)]
    by (intro node_outcome [of _ _ 0]) (auto simp: bump_def)
  then show ?thesis
    by (auto simp: p_interval_def Let_def split: tok.splits list.splits option.splits)
qed

lemma p_args_outcome:
  assumes "level_ok lv" "reach p p' 0"
  shows "outcome (parsed_list p 0) (p_args lv p')"
  unfolding p_args_def
proof (rule outcome_bind)
  have sub: "sub_parser (lv_or lv)" using assms(1) by (simp add: level_ok_def)
  show "outcome (parsed p 0) (lv_or lv p')" by (rule sub_parser.runs_from [OF sub assms(2)])
  fix e p1 assume "parsed p 0 e p1"
  then show "outcome (parsed_list p 0)
      (case (e, p1) of (arg, p1) \<Rightarrow> args_loop (length (tokens p1)) (lv_or lv) [arg] p1)"
    by (auto intro!: sub_parser.args_loop_outcome [OF sub] parsed_list_single)
qed

lemma p_call_outcome:
  assumes "deeper_ok deeper" "wf p"
  shows "outcome (parsed p 0) (p_call deeper name p)"
proof (cases "func_from_name (to_ascii_lowercase name)")
  case None
  then show ?thesis by (simp add: p_call_def)
next
  case (Some f)
  have r: "reach p (bump (bump p)) 0"
    using bump_reach_any [of p] bump_reach_any [of "bump p"] assms(2) reach_wf
      reach_trans [of p "bump p" 0 "bump (bump p)" 0] by auto
  have args: "outcome (parsed_list p 0) (nested deeper p_args (bump (bump p)))"
    using assms(1) r by (intro nested_outcome p_args_outcome) auto
  have close: "outcome (parsed p 0) (if length args \<noteq> arity f then Inl (error_here p2 msg)
      else node (ECall f args) p2)"
    if "parsed_list p 0 args p1" "reach p1 p2 0" for args p1 p2 msg
    using that by (auto simp: parsed_list_def reach_def intro!: node_outcome)
  show ?thesis
    unfolding p_call_def Some option.case
  proof (rule outcome_bind [OF args], unfold prod.case, rule outcome_bind [OF expect_outcome])
    fix args' p1 assume l: "parsed_list p 0 args' p1"
    then show "wf p1" by (simp add: parsed_list_def reach_def)
    fix u p2 assume "reach p1 p2 0 \<and> at p1 < at p2"
    with close [OF l] show "outcome (parsed p 0) (case (u, p2) of (_, p2) \<Rightarrow>
        if length args' \<noteq> arity f then Inl (error_here p2
          (name @ ''() takes '' @ show_nat (arity f) @ '' argument'' @
           (if arity f = 1 then '''' else ''s'') @ '' here''))
        else node (ECall f args') p2)" by simp
  qed simp
qed

lemma p_atom_outcome:
  assumes "deeper_ok deeper" "wf p"
  shows "outcome (parsed p 0) (p_atom deeper p)"
proof (cases "is_final (peek p)")
  case True
  then show ?thesis by (auto simp: p_atom_def Let_def elim!: is_final.elims)
next
  case False
  then have b: "reach p (bump p) 0" "at p < at (bump p)" using bump_reach [OF assms(2)] by auto
  have leaf: "outcome (parsed p 0) (node e (bump p))" if "parsed_ok e" "node_count e = 1" for e
    using b that by (intro node_outcome [of _ _ 0]) auto
  have paren: "outcome (parsed p 0) (res_bind (nested deeper lv_or (bump p)) (\<lambda>(e, p2).
      res_bind (expect_tok TRParen what p2) (\<lambda>(_, p3). Inr (e, p3))))" for what
    by (rule outcome_bind [OF level_runs [OF assms(1) b(1)]], simp, simp,
        rule outcome_bind [OF expect_outcome]) (auto simp: parsed_def reach_def)
  have field: "outcome (parsed p 0)
      (if peek (bump p) = TLParen then p_call deeper name p
       else if list_ex is_upper name then Inl (error_here p msg) else node (EField name) (bump p))"
    if "peek p = TIdent name" for name msg
    using p_call_outcome [OF assms] leaf [of "EField name"] peek_ok [OF assms(2)] that by simp
  show ?thesis
    using leaf paren field p_interval_outcome [OF b] peek_ok [OF assms(2)]
    by (auto simp: p_atom_def Let_def split: tok.splits kw.splits)
qed

lemma p_unary_sub: "deeper_ok deeper \<Longrightarrow> sub_parser (p_unary deeper)"
proof
  fix p assume deep: "deeper_ok deeper" and "wf p"
  have "outcome (parsed p 0) (res_bind (nested deeper lv_unary (bump p)) (\<lambda>(e, p1). node (ENeg e) p1))"
    by (rule outcome_bind [OF level_runs [OF deep bump_reach_any [OF \<open>wf p\<close>]]])
      (auto simp: parsed_def intro!: node_outcome)
  with p_atom_outcome [OF deep \<open>wf p\<close>] show "outcome (parsed p 0) (p_unary deeper p)"
    by (auto simp: p_unary_def split: tok.splits bin_op.splits)
qed

lemma p_not_sub: "deeper_ok deeper \<Longrightarrow> sub_parser run \<Longrightarrow> sub_parser (p_not deeper run)"
proof
  fix p assume deep: "deeper_ok deeper" and run: "sub_parser run" and "wf p"
  have "outcome (parsed p 0) (res_bind (nested deeper lv_not (bump p)) (\<lambda>(e, p1). node (ENot e) p1))"
    by (rule outcome_bind [OF level_runs [OF deep bump_reach_any [OF \<open>wf p\<close>]]])
      (auto simp: parsed_def intro!: node_outcome)
  with sub_parser.runs [OF run \<open>wf p\<close>] show "outcome (parsed p 0) (p_not deeper run p)"
    by (auto simp: p_not_def)
qed

lemmas left_levels = p_or_def p_and_def p_other_def p_additive_def p_multiplicative_def

lemma left_sub: "sub_parser run \<Longrightarrow> sub_parser (p_or run)" "sub_parser run \<Longrightarrow> sub_parser (p_and run)"
  "sub_parser run \<Longrightarrow> sub_parser (p_other run)" "sub_parser run \<Longrightarrow> sub_parser (p_additive run)"
  "sub_parser run \<Longrightarrow> sub_parser (p_multiplicative run)"
  unfolding left_levels by (erule sub_parser.p_left_sub, auto split: if_splits)+

lemma make_level_ok:
  assumes "deeper_ok deeper"
  shows "level_ok (make_level deeper)"
proof -
  have "sub_parser (p_test deeper)"
    unfolding p_test_def p_operand_def
    by (intro sub_parser.p_is_sub sub_parser.p_comparison_sub sub_parser.p_range_sub left_sub
        p_unary_sub assms)
  then show ?thesis
    by (simp add: level_ok_def make_level_def p_unary_sub p_not_sub left_sub assms)
qed

lemma parser_at_ok: "level_ok (parser_at k)"
  by (induction k) (auto intro!: make_level_ok)

interpretation rule_parser: sub_parser "lv_or (parser_at k)" for k
  using parser_at_ok by (simp add: level_ok_def)

lemma start_wf: "wf \<lparr>lexer_src = src, tokens = lex_tokens src 0, at = 0, nodes = 0\<rparr>"
  using lex_tokens_ok [of src 0] by (auto simp: wf_def stream_ok_def)

lemma parse_not_out_of_fuel: "parse src \<noteq> Inl OutOfFuel"
proof -
  have "lv_or (parser_at MAX_DEPTH) \<lparr>lexer_src = src, tokens = lex_tokens src 0, at = 0, nodes = 0\<rparr>
      \<noteq> Inl OutOfFuel"
    using rule_parser.runs [OF start_wf, of src MAX_DEPTH] by auto
  then show ?thesis by (auto simp: parse_def Let_def res_bind_eq_Inl parse_end_error)
qed

lemma parse_Inr_parsed:
  assumes "parse src = Inr e"
  shows "parsed_ok e" "node_count e \<le> MAX_NODES"
proof -
  let ?p0 = "\<lparr>lexer_src = src, tokens = lex_tokens src 0, at = 0, nodes = 0\<rparr>"
  obtain p where "lv_or (parser_at MAX_DEPTH) ?p0 = Inr (e, p)"
    using assms by (auto simp: parse_def Let_def dest: parse_end_Inr split: if_splits)
  with rule_parser.runs [OF start_wf, of src MAX_DEPTH] have "parsed ?p0 0 e p" by simp
  then show "parsed_ok e" "node_count e \<le> MAX_NODES" by (auto simp: parsed_def reach_def wf_def)
qed

section \<open>The parser\<close>

text \<open>
  C19: parsing always returns: on every text the parser yields a tree or a syntax error, and the
  fuel of its loops (the number of tokens) never runs out.
\<close>
theorem parse_returns: "(\<exists>e. parse src = Inr e) \<or> (\<exists>err. parse src = Inl (Syntax err))"
  using parse_not_out_of_fuel [of src] by (cases "parse src") (metis parse_error.exhaust, blast)


lemma top_level:
  "lv_or (parser_at MAX_DEPTH) =
     p_or (p_and (p_not (Some (parser_at 23)) (p_test (Some (parser_at 23)))))"
proof -
  have "parser_at MAX_DEPTH = make_level (Some (parser_at 23))"
    by (simp add: MAX_DEPTH_def eval_nat_numeral)
  then show ?thesis by (simp add: make_level_def)
qed


end
