(* ===== verification/Rule_Pattern.thy ===== *)
theory Rule_Pattern
  imports Prelude
begin

text \<open>
  Regular-expression patterns, from \<open>rules/pattern.rs\<close>. The patterns are parsed by the crate
  \<open>regex-syntax\<close>, a parameter here: a function from the text to its error message or its syntax
  tree. The datatypes below have the constructors of that tree, without the source spans and
  payloads the validator never looks at.
\<close>

datatype special_literal = Bell | FormFeed | Tab | LineFeed | CarriageReturn | VerticalTab | Space

datatype literal_kind = Verbatim | Meta | Superfluous | Octal | HexFixed | HexBrace | Special special_literal

datatype assertion_kind = StartLine | EndLine | StartText | EndText | WordBoundary | NotWordBoundary
  | WordBoundaryStart | WordBoundaryEnd | WordBoundaryStartAngle | WordBoundaryEndAngle
  | WordBoundaryStartHalf | WordBoundaryEndHalf

datatype repetition_range = Exactly nat | AtLeast nat | Bounded nat nat

datatype repetition_kind = ZeroOrOne | ZeroOrMore | OneOrMore | RRange repetition_range

text \<open>\<open>NonCapturing\<close> holds the number of its flag items.\<close>

datatype group_kind = CaptureIndex | CaptureName | NonCapturing nat

datatype class_item = IEmpty | ILiteral literal_kind | IRange literal_kind literal_kind | IAscii bool
  | IUnicode | IPerl | IBracketed | IUnion "class_item list"

datatype class_set = SetItem class_item | SetBinaryOp

datatype regex = REmpty | RFlags | RLiteral literal_kind | RDot | RAssertion assertion_kind | RClassUnicode
  | RClassPerl | RClassBracketed class_set | RRepetition repetition_kind regex | RGroup group_kind regex
  | RAlternation "regex list" | RConcat "regex list"

definition MAX_PATTERN_CHARS :: nat where "MAX_PATTERN_CHARS = 128"
definition MAX_REPEAT :: nat where "MAX_REPEAT = 100"

section \<open>The validator\<close>

fun literal_ok :: "literal_kind \<Rightarrow> bytes + unit" where
  "literal_ok Verbatim = Inr ()"
| "literal_ok Meta = Inr ()"
| "literal_ok (Special Tab) = Inr ()"
| "literal_ok (Special LineFeed) = Inr ()"
| "literal_ok (Special CarriageReturn) = Inr ()"
| "literal_ok _ =
     Inl (''only plain characters, escaped metacharacters and '' @ [BSLASH] @ ''t '' @ [BSLASH] @ ''n '' @
       [BSLASH] @ ''r are allowed'')"

fun item_ok :: "class_item \<Rightarrow> bytes + unit" where
  "item_ok IEmpty = Inr ()"
| "item_ok IPerl = Inr ()"
| "item_ok (ILiteral l) = literal_ok l"
| "item_ok (IRange s e) = res_bind (literal_ok s) (\<lambda>_. literal_ok e)"
| "item_ok (IAscii negated) = guard (\<not> negated) ''negated POSIX classes are not allowed''"
| "item_ok IUnicode = Inl ''Unicode classes are not allowed''"
| "item_ok IBracketed = Inl ''nested brackets are not allowed''"
| "item_ok (IUnion items) = each_res item_ok items"

fun class_ok :: "class_set \<Rightarrow> bytes + unit" where
  "class_ok SetBinaryOp = Inl ''class set operations are not allowed''"
| "class_ok (SetItem item) = item_ok item"

text \<open>The count a repetition is limited by: its upper bound, or its lower one when it is open.\<close>

fun range_count :: "repetition_range \<Rightarrow> nat" where
  "range_count (Exactly n) = n"
| "range_count (AtLeast n) = n"
| "range_count (Bounded m n) = n"

definition count_ok :: "repetition_kind \<Rightarrow> bytes + unit" where
  "count_ok k =
     (case k of
        RRange r \<Rightarrow> guard (range_count r \<le> MAX_REPEAT) ''counted repetition is limited to 100''
      | _ \<Rightarrow> Inr ())"

fun walk :: "regex \<Rightarrow> bool \<Rightarrow> bytes + unit" where
  "walk REmpty repeated = Inr ()"
| "walk RDot repeated = Inr ()"
| "walk RClassPerl repeated = Inr ()"
| "walk RFlags repeated = Inl ''inline flags are not allowed''"
| "walk (RLiteral l) repeated = literal_ok l"
| "walk (RAssertion a) repeated =
     guard (a = StartLine \<or> a = EndLine) ''only the ^ and $ anchors are allowed''"
| "walk RClassUnicode repeated = Inl ''Unicode classes are not allowed''"
| "walk (RClassBracketed c) repeated = class_ok c"
| "walk (RRepetition k r) repeated =
     (if repeated then Inl ''a quantifier cannot apply to an expression that already has one''
      else res_bind (count_ok k) (\<lambda>_. walk r True))"
| "walk (RGroup g r) repeated =
     (case g of
        CaptureIndex \<Rightarrow> walk r repeated
      | NonCapturing flags \<Rightarrow> if flags = 0 then walk r repeated else Inl ''inline flags are not allowed''
      | CaptureName \<Rightarrow> Inl ''named groups are not allowed'')"
| "walk (RAlternation rs) repeated = each_res (\<lambda>r. walk r repeated) rs"
| "walk (RConcat rs) repeated = each_res (\<lambda>r. walk r repeated) rs"

definition validate_pattern :: "(bytes \<Rightarrow> bytes + regex) \<Rightarrow> bytes \<Rightarrow> bytes + unit" where
  "validate_pattern regex_parse pattern =
     (let refuse = (\<lambda>why. ''pattern '' @ sq pattern @ '': '' @ why) in
      if pattern = [] then Inl (refuse ''the pattern is empty'')
      else if length (utf8_chars pattern) > MAX_PATTERN_CHARS then
        Inl (refuse (''patterns are limited to '' @ show_nat MAX_PATTERN_CHARS @ '' characters''))
      else if starts_with pattern ''***'' then Inl (refuse (sq ''***'' @ '' directors are not allowed''))
      else res_bind (map_err refuse (regex_parse pattern)) (\<lambda>r. map_err refuse (walk r False)))"

section \<open>What an accepted pattern is\<close>

text \<open>The nesting of quantifiers: the measure of catastrophic backtracking.\<close>

fun star_height :: "regex \<Rightarrow> nat" where
  "star_height (RRepetition k r) = Suc (star_height r)"
| "star_height (RGroup g r) = star_height r"
| "star_height (RAlternation rs) = Max (insert 0 (set (map star_height rs)))"
| "star_height (RConcat rs) = Max (insert 0 (set (map star_height rs)))"
| "star_height _ = 0"

text \<open>The leaves and groups both engines read alike, with bounded counts.\<close>

fun portable :: "regex \<Rightarrow> bool" where
  "portable REmpty = True"
| "portable RDot = True"
| "portable RClassPerl = True"
| "portable RFlags = False"
| "portable (RLiteral l) = (literal_ok l = Inr ())"
| "portable (RAssertion a) = (a = StartLine \<or> a = EndLine)"
| "portable RClassUnicode = False"
| "portable (RClassBracketed c) = (class_ok c = Inr ())"
| "portable (RRepetition k r) =
     ((case k of RRange q \<Rightarrow> range_count q \<le> 100 | _ \<Rightarrow> True) \<and> portable r)"
| "portable (RGroup g r) = ((g = CaptureIndex \<or> g = NonCapturing 0) \<and> portable r)"
| "portable (RAlternation rs) = (\<forall>r \<in> set rs. portable r)"
| "portable (RConcat rs) = (\<forall>r \<in> set rs. portable r)"

lemma star_height_list: "Max (insert 0 (set (map star_height rs))) \<le> k \<longleftrightarrow> (\<forall>r \<in> set rs. star_height r \<le> k)"
  by (subst Max_le_iff) auto

lemma walk_iff: "walk r repeated = Inr () \<longleftrightarrow> portable r \<and> star_height r \<le> (if repeated then 0 else 1)"
proof (induction r arbitrary: repeated)
  case (RRepetition k r)
  show ?case
    using RRepetition [of True]
    by (auto simp: count_ok_def MAX_REPEAT_def split: repetition_kind.splits)
next
  case (RGroup g r)
  then show ?case by (cases g) auto
next
  case (RAlternation rs)
  show ?case
    unfolding walk.simps each_res_Inr portable.simps star_height.simps star_height_list
    using RAlternation by auto
next
  case (RConcat rs)
  show ?case
    unfolding walk.simps each_res_Inr portable.simps star_height.simps star_height_list
    using RConcat by auto
qed auto


end
