(* ===== verification/Data_Types.thy ===== *)
theory Data_Types
  imports Idents
begin

text \<open>
  Field types, from \<open>data_types.rs\<close>: the type of a declared field, its PostgreSQL type and
  default, the table of fields the data paths use, the row-to-JSON projection that hides
  sensitive columns, and the coercions that need no floating-point parser.

  \<open>BigDecimal\<close> is a parameter: \<open>big\<close> maps the text of a decimal to its printed form, \<open>None\<close> when it
  does not parse. So is the printing of JSON, \<open>json_text\<close>.
\<close>

definition MAX_NUMERIC_PRECISION :: nat where "MAX_NUMERIC_PRECISION = 1000"

record decimal_type =
  d_precision :: "nat option"
  d_scale :: "nat option"

datatype field_type =
    TyText | TyNumber | TyDecimal decimal_type | TyBoolean | TyDate | TyTimestamp | TyJson | TyFile
  | TyUuid | TyEntityLink | TyTextArray | TyNumberArray

record field =
  fd_type :: field_type
  fd_sensitive :: bool

type_synonym field_table = "(bytes \<times> field) list"

section \<open>The type of a field\<close>

definition decimal_from_field :: "field_contract \<Rightarrow> bytes + decimal_type" where
  "decimal_from_field f =
     (case (f_precision f, f_scale f) of
        (None, None) \<Rightarrow> Inr \<lparr>d_precision = None, d_scale = None\<rparr>
      | (Some p, Some s) \<Rightarrow>
          if 1 \<le> p \<and> p \<le> MAX_NUMERIC_PRECISION \<and> s \<le> p then
            Inr \<lparr>d_precision = Some p, d_scale = Some s\<rparr>
          else if p = 0 then
            Inl (''decimal field '' @ sq (f_name f) @ '' precision must be at least 1'')
          else if p > MAX_NUMERIC_PRECISION then
            Inl (''decimal field '' @ sq (f_name f) @ '' precision must not exceed '' @
              show_nat MAX_NUMERIC_PRECISION)
          else
            Inl (''decimal field '' @ sq (f_name f) @ '' scale ('' @ show_nat s @
              '') must not exceed precision ('' @ show_nat p @ '')'')
      | _ \<Rightarrow> Inl (''decimal field '' @ sq (f_name f) @
          '' must declare precision and scale together, or neither''))"

fun is_decimal :: "field_type \<Rightarrow> bool" where
  "is_decimal (TyDecimal d) = True"
| "is_decimal _ = False"

fun is_json :: "field_type \<Rightarrow> bool" where
  "is_json TyJson = True"
| "is_json _ = False"

definition parse_decimal :: "(bytes \<Rightarrow> bytes option) \<Rightarrow> bytes \<Rightarrow> bytes \<Rightarrow> bytes + bytes" where
  "parse_decimal big value label =
     (case big value of
        Some d \<Rightarrow> Inr d
      | None \<Rightarrow> Inl (''invalid decimal '' @ label @ '': '' @ sq value))"

definition validate_default ::
  "(bytes \<Rightarrow> bytes option) \<Rightarrow> field_type \<Rightarrow> bytes \<Rightarrow> json \<Rightarrow> bytes + unit" where
  "validate_default big t name value =
     (if \<not> is_decimal t \<or> is_null value then Inr ()
      else
        (case as_str value of
           None \<Rightarrow> Inl (''decimal field '' @ sq name @ '' default_value must be a JSON string'')
         | Some literal \<Rightarrow> res_bind (parse_decimal big literal name) (\<lambda>_. Inr ())))"

definition type_of_name :: "field_contract \<Rightarrow> bytes + field_type" where
  "type_of_name f =
     (let t = f_type f in
      if t = ''text'' then Inr TyText
      else if t = ''number'' then Inr TyNumber
      else if t = ''decimal'' then res_bind (decimal_from_field f) (\<lambda>d. Inr (TyDecimal d))
      else if t = ''boolean'' then Inr TyBoolean
      else if t = ''date'' then Inr TyDate
      else if t = ''timestamp'' then Inr TyTimestamp
      else if t = ''json'' then Inr TyJson
      else if t = ''file'' then Inr TyFile
      else if t = ''uuid'' then Inr TyUuid
      else if t = ''entity_link'' then Inr TyEntityLink
      else if t = ''[text]'' then Inr TyTextArray
      else if t = ''[number]'' then Inr TyNumberArray
      else Inl (''field '' @ sq (f_name f) @ '' has unknown type '' @ sq t))"

definition from_field :: "(bytes \<Rightarrow> bytes option) \<Rightarrow> field_contract \<Rightarrow> bytes + field_type" where
  "from_field big f =
     res_bind (type_of_name f) (\<lambda>t.
       if \<not> is_decimal t \<and> (f_precision f \<noteq> None \<or> f_scale f \<noteq> None) then
         Inl (''field '' @ sq (f_name f) @ '' can only declare precision and scale when type is '' @
           sq ''decimal'')
       else
         (case f_default_value f of
            Some d \<Rightarrow> res_bind (validate_default big t (f_name f) d) (\<lambda>_. Inr t)
          | None \<Rightarrow> Inr t))"

fun postgres_type :: "field_type \<Rightarrow> bytes" where
  "postgres_type TyText = ''TEXT''"
| "postgres_type TyFile = ''TEXT''"
| "postgres_type TyNumber = ''DOUBLE PRECISION''"
| "postgres_type (TyDecimal d) =
     (case (d_precision d, d_scale d) of
        (Some p, Some s) \<Rightarrow> ''NUMERIC('' @ show_nat p @ '','' @ show_nat s @ '')''
      | _ \<Rightarrow> ''NUMERIC'')"
| "postgres_type TyBoolean = ''BOOLEAN''"
| "postgres_type TyDate = ''DATE''"
| "postgres_type TyTimestamp = ''TIMESTAMPTZ''"
| "postgres_type TyJson = ''JSONB''"
| "postgres_type TyUuid = ''UUID''"
| "postgres_type TyEntityLink = ''UUID''"
| "postgres_type TyTextArray = ''TEXT[]''"
| "postgres_type TyNumberArray = ''DOUBLE PRECISION[]''"

fun parameter_cast :: "field_type \<Rightarrow> bytes" where
  "parameter_cast TyNumber = ''::float8''"
| "parameter_cast (TyDecimal d) = ''::numeric''"
| "parameter_cast TyBoolean = ''::boolean''"
| "parameter_cast TyDate = ''::date''"
| "parameter_cast TyTimestamp = ''::timestamptz''"
| "parameter_cast TyUuid = ''::uuid''"
| "parameter_cast TyEntityLink = ''::uuid''"
| "parameter_cast TyJson = ''::jsonb''"
| "parameter_cast TyTextArray = ''::text[]''"
| "parameter_cast TyNumberArray = ''::float8[]''"
| "parameter_cast TyText = []"
| "parameter_cast TyFile = []"

section \<open>The table of fields\<close>

definition field_of :: "(bytes \<Rightarrow> bytes option) \<Rightarrow> field_contract \<Rightarrow> bytes + field" where
  "field_of big f = res_bind (from_field big f) (\<lambda>t. Inr \<lparr>fd_type = t, fd_sensitive = f_sensitive f\<rparr>)"

definition readable :: "field_type \<Rightarrow> field" where
  "readable t = \<lparr>fd_type = t, fd_sensitive = False\<rparr>"

definition system_field_types :: field_table where
  "system_field_types =
     [(''id'', readable TyUuid), (''created_at'', readable TyTimestamp), (''updated_at'', readable TyTimestamp)]"

definition field_types :: "(bytes \<Rightarrow> bytes option) \<Rightarrow> entity_contract \<Rightarrow> bytes + field_table" where
  "field_types big e =
     res_bind (map_res (\<lambda>f. res_bind (field_of big f) (\<lambda>d. Inr (f_name f, d))) (e_fields e)) (\<lambda>kvs.
       Inr (map_extend (map_extend [] kvs) system_field_types))"

definition sorted_names :: "field_table \<Rightarrow> (field \<Rightarrow> bool) \<Rightarrow> bytes list" where
  "sorted_names types pick = sort_unstable (map fst (filter (\<lambda>(n, f). pick f) types))"

definition row_entry :: "bytes \<Rightarrow> field_table \<Rightarrow> bytes \<Rightarrow> bytes" where
  "row_entry record_ref types name =
     quote_literal name @ '', '' @ record_ref @ ''.'' @ quote_ident name @
     (case map_of types name of
        Some f \<Rightarrow> if is_decimal (fd_type f) then ''::text'' else []
      | None \<Rightarrow> [])"

definition row_json :: "bytes \<Rightarrow> field_table \<Rightarrow> bytes" where
  "row_json record_ref types =
     (let names = sorted_names types (\<lambda>f. \<not> fd_sensitive f) in
      if names = [] then sq ''{}'' @ ''::jsonb''
      else join '' || '' (map (\<lambda>chunk.
             ''jsonb_build_object('' @ join '', '' (map (row_entry record_ref types) chunk) @ '')'')
             (chunks 40 names)))"

section \<open>Values\<close>

fun sql_default ::
  "(json \<Rightarrow> bytes) \<Rightarrow> (bytes \<Rightarrow> bytes option) \<Rightarrow> json \<Rightarrow> field_type \<Rightarrow> bytes option" where
  "sql_default json_text big JNull t = None"
| "sql_default json_text big (JBool b) t = Some (if b then ''true'' else ''false'')"
| "sql_default json_text big (JNumber n) t = Some (json_text (JNumber n))"
| "sql_default json_text big (JString s) t =
     (if is_decimal t then
        (case parse_decimal big s ''default_value'' of Inr d \<Rightarrow> Some d | Inl e \<Rightarrow> None)
      else Some (quote_literal s))"
| "sql_default json_text big (JArray xs) t =
     (if is_json t then Some (quote_literal (json_text (JArray xs)) @ ''::jsonb'') else None)"
| "sql_default json_text big (JObject m) t =
     (if is_json t then Some (quote_literal (json_text (JObject m)) @ ''::jsonb'') else None)"

fun json_value_to_string :: "(json \<Rightarrow> bytes) \<Rightarrow> json \<Rightarrow> bytes" where
  "json_value_to_string json_text (JString s) = s"
| "json_value_to_string json_text (JNumber n) = json_text (JNumber n)"
| "json_value_to_string json_text (JBool b) = (if b then ''true'' else ''false'')"
| "json_value_to_string json_text JNull = []"
| "json_value_to_string json_text (JArray xs) = json_text (JArray xs)"
| "json_value_to_string json_text (JObject m) = json_text (JObject m)"

fun coerce_bool :: "json \<Rightarrow> bool" where
  "coerce_bool (JBool b) = b"
| "coerce_bool (JNumber n) = (case as_i64 n of Some i \<Rightarrow> i \<noteq> 0 | None \<Rightarrow> False)"
| "coerce_bool (JString s) = (s = ''true'' \<or> s = ''1'')"
| "coerce_bool _ = False"

fun coerce_str_vec :: "json \<Rightarrow> bytes list" where
  "coerce_str_vec (JArray xs) = List.map_filter as_str xs"
| "coerce_str_vec _ = []"

definition enum_check_expr :: "(bytes \<Rightarrow> bytes option) \<Rightarrow> field_contract \<Rightarrow> bytes option" where
  "enum_check_expr big f =
     (case f_enum_values f of
        None \<Rightarrow> None
      | Some vals \<Rightarrow>
          if vals = [] then None
          else
            (let col = quote_ident (f_name f);
                 list = join '', '' (map (\<lambda>v. [SQ] @ replace_char SQ [SQ, SQ] v @ [SQ]) vals)
             in case from_field big f of
                  Inl e \<Rightarrow> None
                | Inr TyTextArray \<Rightarrow> Some (col @ '' <@ ARRAY['' @ list @ '']::TEXT[]'')
                | Inr _ \<Rightarrow> Some (col @ '' IN ('' @ list @ '')'')))"

section \<open>Properties\<close>

definition readable_part :: "field_table \<Rightarrow> bytes \<Rightarrow> field_type option" where
  "readable_part types name =
     (case map_of types name of
        Some f \<Rightarrow> if fd_sensitive f then None else Some (fd_type f)
      | None \<Rightarrow> None)"

lemma sorted_names_readable:
  assumes "distinct (map fst types)"
  shows "set (sorted_names types (\<lambda>f. \<not> fd_sensitive f)) = dom (readable_part types)"
    and "distinct (sorted_names types (\<lambda>f. \<not> fd_sensitive f))"
proof -
  show "set (sorted_names types (\<lambda>f. \<not> fd_sensitive f)) = dom (readable_part types)"
  proof -
    have "readable_part types n \<noteq> None \<longleftrightarrow> (\<exists>f. (n, f) \<in> set types \<and> \<not> fd_sensitive f)" for n
      using map_of_eq_Some_iff [OF assms, of n]
      by (cases "map_of types n") (auto simp: readable_part_def, metis)
    then show ?thesis by (auto simp: sorted_names_def dom_def image_iff)
  qed
  show "distinct (sorted_names types (\<lambda>f. \<not> fd_sensitive f))"
    using assms by (simp add: sorted_names_def distinct_map_filter)
qed

lemma row_entry_readable:
  "readable_part types name = Some t \<Longrightarrow>
     row_entry r types name =
       quote_literal name @ '', '' @ r @ ''.'' @ quote_ident name @ (if is_decimal t then ''::text'' else [])"
  by (auto simp: row_entry_def readable_part_def split: option.splits if_splits)

lemma chunks_set: "xs' \<in> set (chunks n xs) \<Longrightarrow> x \<in> set xs' \<Longrightarrow> x \<in> set xs"
  by (induction n xs rule: chunks.induct)
    (subst (asm) (2) chunks.simps, auto split: if_splits dest: in_set_takeD in_set_dropD)

text \<open>
  C29: the row projection reads only readable columns and is stable. Two field tables that agree
  on their readable fields - whatever sensitive fields they have and in whatever order their hash
  maps iterate - give the same SQL text, so neither the name nor the type of a sensitive field
  can reach it.
\<close>
theorem row_json_hides_sensitive:
  assumes "distinct (map fst types)" "distinct (map fst types')"
    and same: "readable_part types = readable_part types'"
  shows "row_json r types = row_json r types'"
proof -
  let ?names = "\<lambda>ts. sorted_names ts (\<lambda>f. \<not> fd_sensitive f)"
  have names: "?names types = ?names types'"
    using sorted_names_readable assms
    by (intro sorted_distinct_unique) (auto simp: sorted_names_def sorted_sort_unstable)
  have "row_entry r types n = row_entry r types' n" if "n \<in> set (?names types)" for n
    using that sorted_names_readable(1) [OF assms(1)] same row_entry_readable by (metis domD)
  then have "map (row_entry r types) c = map (row_entry r types') c" if "c \<in> set (chunks 40 (?names types))" for c
    using that by (auto dest: chunks_set)
  then show ?thesis unfolding row_json_def Let_def names by (auto intro!: arg_cong [where f = "join _"])
qed

theorem row_json_hides_sensitive_witness:
  "row_json ''t'' [(''id'', readable TyUuid), (''pin'', \<lparr>fd_type = TyText, fd_sensitive = True\<rparr>)] =
   row_json ''t'' [(''id'', readable TyUuid)]"
  by (rule row_json_hides_sensitive)
    (auto simp: readable_part_def readable_def fun_eq_iff)

text \<open>
  A manifest cannot hide or retype a system column: in the field table of every entity,
  \<open>id\<close>, \<open>created_at\<close> and \<open>updated_at\<close> are readable with their own types, and every other declared
  field has the type and sensitivity of its last declaration.
\<close>
theorem field_types_system:
  assumes "field_types big e = Inr types"
  shows "distinct (map fst types) \<and>
    map_of types ''id'' = Some (readable TyUuid) \<and>
    map_of types ''created_at'' = Some (readable TyTimestamp) \<and>
    map_of types ''updated_at'' = Some (readable TyTimestamp) \<and>
    (\<forall>pre f post. e_fields e = pre @ f # post \<and> f_name f \<notin> f_name ` set post \<and> \<not> is_system_field (f_name f)
       \<longrightarrow> (\<exists>t. from_field big f = Inr t \<and>
              map_of types (f_name f) = Some \<lparr>fd_type = t, fd_sensitive = f_sensitive f\<rparr>))"
proof -
  let ?g = "\<lambda>f. res_bind (field_of big f) (\<lambda>d. Inr (f_name f, d))"
  obtain kvs where kvs: "map_res ?g (e_fields e) = Inr kvs"
    and types: "types = map_extend (map_extend [] kvs) system_field_types"
    using assms by (auto simp: field_types_def)
  have "distinct (map fst (map_extend [] kvs))" by (rule distinct_map_extend) simp
  then have "distinct (map fst types)" unfolding types by (rule distinct_map_extend)
  moreover have "map_of types ''id'' = Some (readable TyUuid)"
    "map_of types ''created_at'' = Some (readable TyTimestamp)"
    "map_of types ''updated_at'' = Some (readable TyTimestamp)"
    by (simp_all add: types map_of_map_extend system_field_types_def)
  moreover have "\<exists>t. from_field big f = Inr t \<and>
      map_of types (f_name f) = Some \<lparr>fd_type = t, fd_sensitive = f_sensitive f\<rparr>"
    if f: "e_fields e = pre @ f # post" "f_name f \<notin> f_name ` set post" "\<not> is_system_field (f_name f)"
    for pre f post
  proof -
  from kvs f(1) obtain k1 d k2 where k: "kvs = k1 @ (f_name f, d) # k2" "field_of big f = Inr d"
    "list_all2 (\<lambda>x y. ?g x = Inr y) post k2"
    by (auto simp: map_res_Inr list_all2_append1 list_all2_Cons1)
  have "fst ` set k2 = f_name ` set post"
    using k(3) by (induction post k2 rule: list_all2_induct) auto
  then have "f_name f \<notin> fst ` set (rev k2)" using f(2) by simp
  then have "map_of (rev kvs) (f_name f) = Some d"
    by (simp add: k(1) map_add_def map_of_eq_None_iff [THEN iffD2])
  then have "map_of types (f_name f) = Some d"
    using f(3)
      by (simp add: types map_of_map_extend system_field_types_def is_system_field_def SYSTEM_FIELDS_def)
  with k(2) show "\<exists>t. from_field big f = Inr t \<and>
      map_of types (f_name f) = Some \<lparr>fd_type = t, fd_sensitive = f_sensitive f\<rparr>"
    by (auto simp: field_of_def)
  qed
  ultimately show ?thesis by blast
qed

theorem field_types_system_witness:
  "\<exists>types. field_types (\<lambda>_. None) \<lparr>e_name = ''note'',
       e_fields = [default_field\<lparr>f_name := ''id'', f_type := ''text'', f_sensitive := True\<rparr>],
       e_share = None, e_identity_kind = None, e_identity_key = None, e_indexes = [], e_checks = [],
       e_derived_from = None, e_unknown = []\<rparr> = Inr types \<and>
     map_of types ''id'' = Some (readable TyUuid)"
proof -
  let ?e = "\<lparr>e_name = ''note'',
       e_fields = [default_field\<lparr>f_name := ''id'', f_type := ''text'', f_sensitive := True\<rparr>],
       e_share = None, e_identity_kind = None, e_identity_key = None, e_indexes = [], e_checks = [],
       e_derived_from = None, e_unknown = []\<rparr>"
  have "\<exists>types. field_types (\<lambda>_. None) ?e = Inr types"
    by (simp add: field_types_def field_of_def from_field_def type_of_name_def default_field_def)
  then obtain types where "field_types (\<lambda>_. None) ?e = Inr types" ..
  with field_types_system [OF this] show ?thesis by blast
qed

end
