(* ===== verification/Rule_Typing.thy ===== *)
theory Rule_Typing
  imports Rule_Parser Rule_Pattern Data_Types
begin

text \<open>
  Type resolution of rules, from \<open>rules/typing.rs\<close>.

  The crates behind it are parameters, collected in the record \<open>externals\<close>: \<open>chrono\<close>
  (\<open>x_date\<close> tells whether a text is a date in the form \<open>YYYY-MM-DD\<close>, \<open>x_timestamp\<close> reads RFC 3339 and
  prints it in UTC), \<open>uuid\<close> (\<open>x_uuid\<close> reads a uuid and prints it hyphenated), \<open>regex-syntax\<close>,
  \<open>BigDecimal\<close>, \<open>Sha256\<close>, the printer of \<open>serde_json\<close>, and the Unicode table that tells which
  non-ASCII characters \<open>Debug\<close> escapes.

  A \<open>panic\<close> of the source (an index out of range, \<open>unreachable!\<close>) is the error \<open>Panicked\<close>.
\<close>

record externals =
  x_date :: "bytes \<Rightarrow> bool"
  x_timestamp :: "bytes \<Rightarrow> bytes option"
  x_uuid :: "bytes \<Rightarrow> bytes option"
  x_regex :: "bytes \<Rightarrow> bytes + regex"
  x_big_decimal :: "bytes \<Rightarrow> bytes option"
  x_sha256 :: "bytes \<Rightarrow> bytes"
  x_json_text :: "json \<Rightarrow> bytes"
  x_unicode_escaped :: "bytes \<Rightarrow> bool"

datatype rule_error = Refused bytes | Panicked

datatype ty = Bool | Text | IntTy | FloatTy | Numeric | Date | Timestamp | Interval | JsonTy | Uuid | Array
  | NumLit | TextLit

fun ty_name :: "ty \<Rightarrow> bytes" where
  "ty_name Bool = ''boolean''"
| "ty_name Text = ''text''"
| "ty_name TextLit = ''text''"
| "ty_name IntTy = ''integer''"
| "ty_name FloatTy = ''number''"
| "ty_name Numeric = ''decimal''"
| "ty_name Date = ''date''"
| "ty_name Timestamp = ''timestamp''"
| "ty_name Interval = ''interval''"
| "ty_name JsonTy = ''json''"
| "ty_name Uuid = ''uuid''"
| "ty_name Array = ''array''"
| "ty_name NumLit = ''number literal''"

definition numeric :: "ty \<Rightarrow> bool" where
  "numeric t \<longleftrightarrow> t \<in> {IntTy, FloatTy, Numeric, NumLit}"

definition textual :: "ty \<Rightarrow> bool" where
  "textual t \<longleftrightarrow> t \<in> {Text, TextLit}"

definition orderable :: "ty \<Rightarrow> bool" where
  "orderable t \<longleftrightarrow> numeric t \<or> t \<in> {Date, Timestamp, Interval}"

fun ty_of :: "field_type \<Rightarrow> ty" where
  "ty_of TyText = Text"
| "ty_of TyFile = Text"
| "ty_of TyNumber = FloatTy"
| "ty_of (TyDecimal d) = Numeric"
| "ty_of TyBoolean = Bool"
| "ty_of TyDate = Date"
| "ty_of TyTimestamp = Timestamp"
| "ty_of TyJson = JsonTy"
| "ty_of TyUuid = Uuid"
| "ty_of TyEntityLink = Uuid"
| "ty_of TyTextArray = Array"
| "ty_of TyNumberArray = Array"

record rule_field =
  rf_ty :: ty
  rf_sensitive :: bool
  rf_pg :: bytes

type_synonym rule_fields = "(bytes \<times> rule_field) list"

section \<open>Helpers\<close>

definition expect :: "bool \<Rightarrow> bytes \<Rightarrow> rule_error + unit" where
  "expect ok msg = guard ok (Refused msg)"

fun is_number :: "expr \<Rightarrow> bool" where
  "is_number (ENumber v) = True"
| "is_number _ = False"

fun is_literal :: "expr \<Rightarrow> bool" where
  "is_literal (EText v) = True"
| "is_literal (ENumber v) = True"
| "is_literal (EBool v) = True"
| "is_literal (ENeg e) = is_number e"
| "is_literal _ = False"

definition arithmetic :: "ty \<Rightarrow> ty \<Rightarrow> ty" where
  "arithmetic a b =
     (if a = FloatTy \<or> b = FloatTy then FloatTy
      else if a = Numeric \<or> b = Numeric then Numeric
      else if a = IntTy \<or> b = IntTy then IntTy
      else NumLit)"

definition compatible :: "ty \<Rightarrow> ty \<Rightarrow> bool" where
  "compatible a b \<longleftrightarrow>
     ((numeric a \<and> numeric b) \<or> (textual a \<and> textual b) \<or> a = b) \<and> \<not> (a = TextLit \<and> b = TextLit)"

definition typed_literal :: "externals \<Rightarrow> ty \<Rightarrow> bytes \<Rightarrow> rule_error + expr" where
  "typed_literal x t value =
     (case t of
        Date \<Rightarrow>
          res_bind (expect (length value = 10 \<and> x_date x value)
            (sq value @ '' is not a date; write '' @ sq ''YYYY-MM-DD'')) (\<lambda>_.
            Inr (ETyped LDate value))
      | Timestamp \<Rightarrow>
          (case x_timestamp x value of
             Some v \<Rightarrow> Inr (ETyped LTimestamp v)
           | None \<Rightarrow> Inl (Refused (sq value @
               '' is not a timestamp; write RFC 3339 with an offset, like '' @ sq ''2026-01-01T00:00:00Z'')))
      | Uuid \<Rightarrow>
          (case x_uuid x value of
             Some v \<Rightarrow>
               if length value = 36 then Inr (ETyped LUuid v)
               else Inl (Refused (sq value @ '' is not a canonical uuid''))
           | None \<Rightarrow> Inl (Refused (sq value @ '' is not a canonical uuid'')))
      | _ \<Rightarrow> Inl Panicked)"

text \<open>The second half of \<open>Checker::unify\<close>: the other side is already resolved.\<close>

definition unify_with :: "externals \<Rightarrow> ty \<Rightarrow> expr \<times> ty \<Rightarrow> bytes \<Rightarrow> rule_error + (expr \<times> ty)" where
  "unify_with x t other what =
     res_bind
       (case other of
          (EText value, TextLit) \<Rightarrow>
            if t \<in> {Date, Timestamp, Uuid} then
              res_bind (typed_literal x t value) (\<lambda>e. Inr (e, t))
            else Inr other
        | _ \<Rightarrow> Inr other)
       (\<lambda>(e, oty).
          res_bind (expect (compatible t oty)
            (what @ '' cannot compare '' @ ty_name t @ '' with '' @ ty_name oty)) (\<lambda>_.
            Inr (e, oty)))"

text \<open>The comparison operators of \<open>Checker::binary\<close>, after both sides are resolved.\<close>

definition check_order :: "bin_op \<Rightarrow> ty \<Rightarrow> ty \<Rightarrow> rule_error + unit" where
  "check_order op lty rty =
     res_bind
       (if op = OpEq \<or> op = OpNe then Inr ()
        else expect (orderable lty \<and> orderable rty)
          (if textual lty \<or> textual rty then
             sq (op_sql op) @ '' cannot order text: the result would depend on collation''
           else sq (op_sql op) @ '' cannot order '' @ ty_name lty)) (\<lambda>_.
       expect (lty \<noteq> JsonTy \<and> lty \<noteq> Array)
         (sq (op_sql op) @ '' cannot compare '' @ ty_name lty))"

definition arith_type :: "bin_op \<Rightarrow> ty \<Rightarrow> ty \<Rightarrow> rule_error + ty" where
  "arith_type op a b =
     (if op = OpSub \<and> a = Timestamp \<and> b = Timestamp then Inr Interval
      else if op = OpSub \<and> a = Date \<and> b = Date then Inr IntTy
      else if numeric a \<and> numeric b then Inr (arithmetic a b)
      else Inl (Refused (sq (op_sql op) @ '' cannot combine '' @ ty_name a @ '' and '' @ ty_name b)))"

text \<open>The match of \<open>Checker::call\<close> on the function, on resolved arguments.\<close>

definition call_type :: "externals \<Rightarrow> func \<Rightarrow> (expr \<times> ty) list \<Rightarrow> rule_error + (expr list \<times> ty)" where
  "call_type x f args =
     (case args of
        [] \<Rightarrow> Inl Panicked
      | (e0, t0) # rest \<Rightarrow>
          (let wrong = sql_name f @ ''() does not accept '' @ ty_name t0;
               same = (\<lambda>ok msg t. res_bind (expect ok msg) (\<lambda>_. Inr (map fst args, t)))
           in case f of
                FLength \<Rightarrow> same (textual t0) wrong IntTy
              | FBtrim \<Rightarrow> same (textual t0) wrong Text
              | FUpper \<Rightarrow> same (textual t0) wrong Text
              | FLower \<Rightarrow> same (textual t0) wrong Text
              | FScale \<Rightarrow> same (t0 = Numeric) (''scale() needs a decimal field, not '' @ ty_name t0) IntTy
              | FTrunc \<Rightarrow> same (t0 = FloatTy \<or> t0 = Numeric) wrong t0
              | FAbs \<Rightarrow> same (t0 = FloatTy \<or> t0 = Numeric \<or> t0 = IntTy) wrong t0
              | FJsonbTypeof \<Rightarrow> same (t0 = JsonTy) wrong Text
              | FJsonbArrayLength \<Rightarrow> same (t0 = JsonTy) wrong IntTy
              | FCoalesce \<Rightarrow>
                  res_bind (expect (t0 \<notin> {NumLit, TextLit, JsonTy, Array})
                    ''coalesce() starts with a text, number, date, timestamp, uuid or boolean field'') (\<lambda>_.
                    (case rest of
                       [] \<Rightarrow> Inl Panicked
                     | second # others \<Rightarrow>
                         res_bind (unify_with x t0 second ''coalesce()'') (\<lambda>(fallback, fty).
                           Inr (e0 # fallback # map fst others,
                                if numeric t0 then arithmetic t0 fty else t0))))))"

section \<open>The checker\<close>

fun literal_ty :: "literal_type \<Rightarrow> ty" where
  "literal_ty LDate = Date"
| "literal_ty LTimestamp = Timestamp"
| "literal_ty LUuid = Uuid"

text \<open>
  \<open>Checker::check\<close> and \<open>Checker::binary\<close>. \<open>unify\<close> on a sub-tree is \<open>check\<close> followed by
  \<open>unify_with\<close>; a resolved text literal on the left is unified as it is, since checking it again
  returns it (lemma \<open>check_TextLit\<close>).
\<close>

fun check :: "externals \<Rightarrow> rule_fields \<Rightarrow> expr \<Rightarrow> rule_error + (expr \<times> ty)" where
  "check x fs (EField name) =
     (case map_of fs name of
        Some f \<Rightarrow> Inr (EField name, rf_ty f)
      | None \<Rightarrow> Inl (Refused (''unknown field '' @ sq name)))"
| "check x fs (EText v) = Inr (EText v, TextLit)"
| "check x fs (ENumber v) = Inr (ENumber v, NumLit)"
| "check x fs (EBool v) = Inr (EBool v, Bool)"
| "check x fs (EInterval n u) = Inr (EInterval n u, Interval)"
| "check x fs (ETyped t v) = Inr (ETyped t v, literal_ty t)"
| "check x fs (ENot e) =
     res_bind (check x fs e) (\<lambda>(e', t).
       res_bind (expect (t = Bool) (''NOT needs a boolean, not '' @ ty_name t)) (\<lambda>_.
         Inr (ENot e', Bool)))"
| "check x fs (ENeg e) =
     res_bind (check x fs e) (\<lambda>(e', t).
       res_bind (expect (numeric t) (''unary '' @ sq ''-'' @ '' needs a number, not '' @ ty_name t)) (\<lambda>_.
         Inr (ENeg e', t)))"
| "check x fs (EIsNull e negated) =
     res_bind (check x fs e) (\<lambda>(e', t). Inr (EIsNull e' negated, Bool))"
| "check x fs (EBinary op l r) =
     res_bind (check x fs l) (\<lambda>(l', lty).
       if op = OpAnd \<or> op = OpOr then
         res_bind (check x fs r) (\<lambda>(r', rty).
           res_bind (expect (lty = Bool \<and> rty = Bool) (op_sql op @ '' needs booleans'')) (\<lambda>_.
             Inr (EBinary op l' r', Bool)))
       else if is_comparison op then
         res_bind
           (if lty = TextLit then
              res_bind (check x fs r) (\<lambda>(r', rty).
                res_bind (unify_with x rty (l', lty) (op_sql op)) (\<lambda>(l'', lty').
                  Inr (l'', r', lty', rty)))
            else
              res_bind (check x fs r) (\<lambda>r'.
                res_bind (unify_with x lty r' (op_sql op)) (\<lambda>(r'', rty).
                  Inr (l', r'', lty, rty))))
           (\<lambda>(l2, r2, lty2, rty2).
              res_bind (check_order op lty2 rty2) (\<lambda>_. Inr (EBinary op l2 r2, Bool)))
       else if op = OpMatch then
         res_bind (expect (lty = Text) (sq ''~'' @ '' needs a text field, not '' @ ty_name lty)) (\<lambda>_.
           case r of
             EText value \<Rightarrow>
               res_bind (map_err Refused (validate_pattern (x_regex x) value)) (\<lambda>_.
                 Inr (EBinary op l' r, Bool))
           | _ \<Rightarrow> Inl (Refused (sq ''~'' @ '' needs a quoted pattern on its right'')))
       else
         res_bind (check x fs r) (\<lambda>(r', rty).
           res_bind (arith_type op lty rty) (\<lambda>t. Inr (EBinary op l' r', t))))"
| "check x fs (EBetween e lo hi negated) =
     res_bind (check x fs e) (\<lambda>(e', ety).
       res_bind (expect (orderable ety)
         (''BETWEEN needs numbers, dates, timestamps or intervals, not '' @ ty_name ety)) (\<lambda>_.
         res_bind (check x fs lo) (\<lambda>lo1.
           res_bind (unify_with x ety lo1 ''BETWEEN'') (\<lambda>(lo', _).
             res_bind (check x fs hi) (\<lambda>hi1.
               res_bind (unify_with x ety hi1 ''BETWEEN'') (\<lambda>(hi', _).
                 Inr (EBetween e' lo' hi' negated, Bool)))))))"
| "check x fs (EIn e items negated) =
     res_bind (check x fs e) (\<lambda>(e', ety).
       res_bind (expect (numeric ety \<or> textual ety \<or> ety = Date \<or> ety = Uuid)
         (''IN needs text, numbers, dates or uuids, not '' @ ty_name ety)) (\<lambda>_.
         res_bind (map_res (\<lambda>item.
             res_bind (expect (is_literal item) ''IN lists contain literals only'') (\<lambda>_.
               res_bind (check x fs item) (\<lambda>c.
                 res_bind (unify_with x ety c ''IN'') (\<lambda>(i, _). Inr i)))) items) (\<lambda>items'.
           Inr (EIn e' items' negated, Bool))))"
| "check x fs (ECall f args) =
     res_bind (map_res (check x fs) args) (\<lambda>resolved.
       res_bind (call_type x f resolved) (\<lambda>(args', t). Inr (ECall f args', t)))"
| "check x fs (EArrayWithin name vs) = Inr (EArrayWithin name vs, Bool)"
| "check x fs (EFinite e n) = res_bind (check x fs e) (\<lambda>(e', t). Inr (EFinite e' n, Bool))"

definition check_boolean :: "externals \<Rightarrow> rule_fields \<Rightarrow> expr \<Rightarrow> rule_error + expr" where
  "check_boolean x fs e =
     res_bind (check x fs e) (\<lambda>(e', t).
       if t \<noteq> Bool then Inl (Refused (''the rule must be a boolean condition, not '' @ ty_name t))
       else Inr e')"

definition check_scalar :: "externals \<Rightarrow> rule_fields \<Rightarrow> expr \<Rightarrow> rule_error + expr" where
  "check_scalar x fs e =
     res_bind (check x fs e) (\<lambda>(e', t).
       if expr_fields e' [] = [] \<or> t = NumLit \<or> t = TextLit then
         Inl (Refused ''an index expression must use at least one field'')
       else Inr e')"

section \<open>The typing relation\<close>

text \<open>A typed literal in its canonical spelling.\<close>

fun literal_form :: "externals \<Rightarrow> literal_type \<Rightarrow> bytes \<Rightarrow> bool" where
  "literal_form x LDate v = (length v = 10 \<and> x_date x v)"
| "literal_form x LTimestamp v = (\<exists>w. x_timestamp x w = Some v)"
| "literal_form x LUuid v = (\<exists>w. length w = 36 \<and> x_uuid x w = Some v)"

text \<open>What an \<open>IN\<close> list may hold: a literal of the source or one the checker typed.\<close>

fun in_constant :: "expr \<Rightarrow> bool" where
  "in_constant (ETyped t v) = True"
| "in_constant e = is_literal e"

text \<open>The result type of a function of one argument, if it accepts it.\<close>

fun call1 :: "func \<Rightarrow> ty \<Rightarrow> ty option" where
  "call1 FLength t = (if textual t then Some IntTy else None)"
| "call1 FBtrim t = (if textual t then Some Text else None)"
| "call1 FUpper t = (if textual t then Some Text else None)"
| "call1 FLower t = (if textual t then Some Text else None)"
| "call1 FScale t = (if t = Numeric then Some IntTy else None)"
| "call1 FTrunc t = (if t = FloatTy \<or> t = Numeric then Some t else None)"
| "call1 FAbs t = (if t = FloatTy \<or> t = Numeric \<or> t = IntTy then Some t else None)"
| "call1 FJsonbTypeof t = (if t = JsonTy then Some Text else None)"
| "call1 FJsonbArrayLength t = (if t = JsonTy then Some IntTy else None)"
| "call1 FCoalesce t = None"

text \<open>Comparisons that resolve to one immutable operator: never an order on text, never JSON or arrays.\<close>

definition comparable :: "bin_op \<Rightarrow> ty \<Rightarrow> ty \<Rightarrow> bool" where
  "comparable op a b \<longleftrightarrow>
     is_comparison op \<and> compatible a b \<and> (op = OpEq \<or> op = OpNe \<or> (orderable a \<and> orderable b)) \<and>
     a \<noteq> JsonTy \<and> a \<noteq> Array"

inductive typed :: "externals \<Rightarrow> rule_fields \<Rightarrow> expr \<Rightarrow> ty \<Rightarrow> bool" for x fs where
  t_field: "map_of fs n = Some f \<Longrightarrow> typed x fs (EField n) (rf_ty f)"
| t_text: "typed x fs (EText v) TextLit"
| t_number: "typed x fs (ENumber v) NumLit"
| t_bool: "typed x fs (EBool v) Bool"
| t_interval: "typed x fs (EInterval n u) Interval"
| t_typed: "literal_form x lt v \<Longrightarrow> typed x fs (ETyped lt v) (literal_ty lt)"
| t_not: "typed x fs e Bool \<Longrightarrow> typed x fs (ENot e) Bool"
| t_neg: "typed x fs e t \<Longrightarrow> numeric t \<Longrightarrow> typed x fs (ENeg e) t"
| t_is_null: "typed x fs e t \<Longrightarrow> typed x fs (EIsNull e n) Bool"
| t_logic: "typed x fs l Bool \<Longrightarrow> typed x fs r Bool \<Longrightarrow> op = OpAnd \<or> op = OpOr \<Longrightarrow>
    typed x fs (EBinary op l r) Bool"
| t_compare: "typed x fs l a \<Longrightarrow> typed x fs r b \<Longrightarrow> comparable op a b \<Longrightarrow> typed x fs (EBinary op l r) Bool"
| t_match: "typed x fs l Text \<Longrightarrow> validate_pattern (x_regex x) v = Inr () \<Longrightarrow>
    typed x fs (EBinary OpMatch l (EText v)) Bool"
| t_arith: "typed x fs l a \<Longrightarrow> typed x fs r b \<Longrightarrow> op \<in> {OpAdd, OpSub, OpMul} \<Longrightarrow>
    arith_type op a b = Inr t \<Longrightarrow> typed x fs (EBinary op l r) t"
| t_between: "typed x fs e t \<Longrightarrow> orderable t \<Longrightarrow> typed x fs lo a \<Longrightarrow> compatible t a \<Longrightarrow>
    typed x fs hi b \<Longrightarrow> compatible t b \<Longrightarrow> typed x fs (EBetween e lo hi n) Bool"
| t_in: "typed x fs e t \<Longrightarrow> numeric t \<or> textual t \<or> t = Date \<or> t = Uuid \<Longrightarrow>
    (\<forall>i \<in> set items. in_constant i \<and> (\<exists>a. typed x fs i a \<and> compatible t a)) \<Longrightarrow>
    typed x fs (EIn e items n) Bool"
| t_call: "typed x fs e t \<Longrightarrow> call1 f t = Some u \<Longrightarrow> typed x fs (ECall f [e]) u"
| t_coalesce: "typed x fs e t \<Longrightarrow> t \<notin> {NumLit, TextLit, JsonTy, Array} \<Longrightarrow> typed x fs e' u \<Longrightarrow>
    compatible t u \<Longrightarrow> typed x fs (ECall FCoalesce [e, e']) (if numeric t then arithmetic t u else t)"
| t_within: "typed x fs (EArrayWithin n vs) Bool"
| t_finite: "typed x fs e t \<Longrightarrow> typed x fs (EFinite e n) Bool"

inductive_cases typed_fieldE: "typed x fs (EField n) t"
inductive_cases typed_leafE: "typed x fs (EText v) t" "typed x fs (ENumber v) t" "typed x fs (EBool v) t"
  "typed x fs (EInterval n u) t" "typed x fs (ETyped lt v) t" "typed x fs (EArrayWithin n vs) t"
inductive_cases typed_unaryE: "typed x fs (ENot e) t" "typed x fs (ENeg e) t" "typed x fs (EIsNull e n) t"
  "typed x fs (EFinite e n) t"
inductive_cases typed_binaryE: "typed x fs (EBinary op l r) t"
inductive_cases typed_betweenE: "typed x fs (EBetween e lo hi n) t"
inductive_cases typed_inE: "typed x fs (EIn e items n) t"
inductive_cases typed_callE: "typed x fs (ECall f args) t"

lemmas typed_elims = typed_fieldE typed_leafE typed_unaryE typed_binaryE typed_betweenE typed_inE typed_callE

text \<open>Trees the checker is given: no typed literals, and calls with the right number of arguments.\<close>

fun source_tree :: "expr \<Rightarrow> bool" where
  "source_tree (ETyped t v) = False"
| "source_tree (ENot e) = source_tree e"
| "source_tree (ENeg e) = source_tree e"
| "source_tree (EIsNull e n) = source_tree e"
| "source_tree (EFinite e n) = source_tree e"
| "source_tree (EBinary op l r) = (source_tree l \<and> source_tree r)"
| "source_tree (EBetween e lo hi n) = (source_tree e \<and> source_tree lo \<and> source_tree hi)"
| "source_tree (EIn e items n) = (source_tree e \<and> (\<forall>i \<in> set items. source_tree i))"
| "source_tree (ECall f args) = (length args = arity f \<and> (\<forall>a \<in> set args. source_tree a))"
| "source_tree _ = True"

lemma parsed_source_tree: "parsed_ok e \<Longrightarrow> source_tree e"
  by (induction e) auto

lemma expect_Inr [simp]: "expect ok msg = Inr u \<longleftrightarrow> ok"
  by (simp add: expect_def)

lemma expect_not_Panicked [simp]: "expect ok msg \<noteq> Inl Panicked"
  by (simp add: expect_def guard_def)

lemma compatible_sym: "compatible a b = compatible b a"
  by (auto simp: compatible_def)

section \<open>Soundness\<close>

lemma typed_literal_sound:
  "typed_literal x t v = Inr e \<Longrightarrow> typed x fs e t \<and> mentions e = {} \<and> in_constant e"
  by (auto simp: typed_literal_def split: ty.splits option.splits if_splits
      intro: t_typed [of x LDate, simplified] t_typed [of x LTimestamp, simplified] t_typed [of x LUuid, simplified])

lemma unify_with_sound:
  assumes "unify_with x t (e, a) what = Inr (e', b)" "typed x fs e a"
  shows "typed x fs e' b" "compatible t b" "mentions e' = mentions e" "in_constant e \<Longrightarrow> in_constant e'"
proof -
  have "typed x fs e' b \<and> compatible t b \<and> mentions e' = mentions e \<and> (in_constant e \<longrightarrow> in_constant e')"
  proof (cases "(\<exists>v. e = EText v) \<and> a = TextLit \<and> t \<in> {Date, Timestamp, Uuid}")
    case True
    then obtain v where "e = EText v" "typed_literal x t v = Inr e'" "b = t" "compatible t b"
      using assms(1) by (auto simp: unify_with_def)
    with typed_literal_sound [of x t v e' fs] show ?thesis by auto
  next
    case False
    then have "e' = e \<and> b = a \<and> compatible t b"
      using assms(1) by (auto simp: unify_with_def split: expr.splits ty.splits if_splits)
    with assms(2) show ?thesis by auto
  qed
  then show "typed x fs e' b" "compatible t b" "mentions e' = mentions e" "in_constant e \<Longrightarrow> in_constant e'"
    by auto
qed

lemma is_literal_check: "is_literal i \<Longrightarrow> \<exists>t. check x fs i = Inr (i, t)"
proof (induction i)
  case (ENeg i)
  then show ?case by (cases i) (auto simp: numeric_def)
qed auto

lemma is_literal_constant: "is_literal i \<Longrightarrow> in_constant i"
  by (cases i) auto

lemma check_order_Inr: "check_order op a b = Inr u \<Longrightarrow> is_comparison op \<Longrightarrow> compatible a b \<Longrightarrow> comparable op a b"
  by (auto simp: check_order_def comparable_def split: if_splits)

lemma call_type_sound:
  assumes "call_type x f args = Inr (es, t)" "length args = arity f" "\<forall>(e, a) \<in> set args. typed x fs e a"
  shows "typed x fs (ECall f es) t" "(\<Union>e \<in> set es. mentions e) = (\<Union>(e, a) \<in> set args. mentions e)"
proof -
  have "typed x fs (ECall f es) t \<and> (\<Union>e \<in> set es. mentions e) = (\<Union>(e, a) \<in> set args. mentions e)"
  proof (cases "f = FCoalesce")
    case True
    with assms(2) obtain e0 t0 e1 t1 where a: "args = [(e0, t0), (e1, t1)]"
      by (auto simp: arity_def length_Suc_conv numeral_2_eq_2)
    with assms(1) True obtain e1' u where u: "unify_with x t0 (e1, t1) ''coalesce()'' = Inr (e1', u)"
      "t0 \<notin> {NumLit, TextLit, JsonTy, Array}" "es = [e0, e1']" "t = (if numeric t0 then arithmetic t0 u else t0)"
      by (auto simp: call_type_def Let_def)
    have "typed x fs e0 t0" "typed x fs e1 t1" using assms(3) a by auto
    then have "typed x fs (ECall FCoalesce [e0, e1']) (if numeric t0 then arithmetic t0 u else t0)"
      using u(2) unify_with_sound [OF u(1), of fs] by (intro t_coalesce) auto
    with u(3,4) unify_with_sound(3) [OF u(1), of fs] a True \<open>typed x fs e1 t1\<close> show ?thesis by simp
  next
    case False
    with assms(2) obtain e0 t0 where a: "args = [(e0, t0)]"
      by (auto simp: arity_def length_Suc_conv)
    with assms(1) False have "es = [e0]" "call1 f t0 = Some t"
      by (auto simp: call_type_def Let_def split: func.splits)
    with a assms(3) show ?thesis by (auto intro: t_call)
  qed
  then show "typed x fs (ECall f es) t" "(\<Union>e \<in> set es. mentions e) = (\<Union>(e, a) \<in> set args. mentions e)"
    by auto
qed

lemma binary_sound:
  assumes chk: "check x fs (EBinary op l r) = Inr (e', t)"
    and L: "\<And>l' a. check x fs l = Inr (l', a) \<Longrightarrow> typed x fs l' a \<and> mentions l' = mentions l"
    and R: "\<And>r' a. check x fs r = Inr (r', a) \<Longrightarrow> typed x fs r' a \<and> mentions r' = mentions r"
  shows "typed x fs e' t \<and> mentions e' = mentions l \<union> mentions r"
proof -
  obtain l' a where l: "check x fs l = Inr (l', a)" using chk by auto
  note l' = L [OF l]
  consider "op = OpAnd \<or> op = OpOr" | "is_comparison op" | "op = OpMatch" | "op \<in> {OpAdd, OpSub, OpMul}"
    by (cases op) auto
  then show ?thesis
  proof cases
    case 1
    with chk l l' R show ?thesis by (auto intro!: t_logic)
  next
    case 2
    then have op: "op \<noteq> OpAnd" "op \<noteq> OpOr" by auto
    obtain r' b where r: "check x fs r = Inr (r', b)" using chk l op 2 by (auto split: if_splits)
    note r' = R [OF r]
    show ?thesis
    proof (cases "a = TextLit")
      case True
      with chk l r op 2 obtain l2 c where u: "unify_with x b (l', a) (op_sql op) = Inr (l2, c)"
        "check_order op c b = Inr ()" "e' = EBinary op l2 r'" "t = Bool" by auto
      with unify_with_sound [OF u(1), of fs] l' r' check_order_Inr [OF u(2) 2] show ?thesis
        by (auto simp: compatible_sym intro!: t_compare)
    next
      case False
      with chk l r op 2 obtain r2 c where u: "unify_with x a (r', b) (op_sql op) = Inr (r2, c)"
        "check_order op a c = Inr ()" "e' = EBinary op l' r2" "t = Bool" by auto
      with unify_with_sound [OF u(1), of fs] l' r' check_order_Inr [OF u(2) 2] show ?thesis
        by (auto intro!: t_compare)
    qed
  next
    case 3
    with chk l obtain v where "r = EText v" "a = Text" "validate_pattern (x_regex x) v = Inr ()"
      "e' = EBinary op l' r" "t = Bool" by (auto split: expr.splits)
    with l' 3 show ?thesis by (auto intro!: t_match)
  next
    case 4
    then have op: "op \<noteq> OpAnd" "op \<noteq> OpOr" "\<not> is_comparison op" "op \<noteq> OpMatch" by auto
    obtain r' b where r: "check x fs r = Inr (r', b)" "arith_type op a b = Inr t" "e' = EBinary op l' r'"
      using chk l op by auto
    with R [OF r(1)] l' 4 show ?thesis by (auto intro: t_arith)
  qed
qed

lemma list_all2_union:
  "list_all2 (\<lambda>i j. f j = g i \<and> P j) xs ys \<Longrightarrow>
     (\<forall>j \<in> set ys. P j) \<and> (\<Union>j \<in> set ys. f j) = (\<Union>i \<in> set xs. g i)"
  by (induction xs ys rule: list_all2_induct) auto

lemma check_sound:
  "source_tree e \<Longrightarrow> check x fs e = Inr (e', t) \<Longrightarrow> typed x fs e' t \<and> mentions e' = mentions e"
proof (induction e arbitrary: e' t)
  case (EBinary op l r)
  show ?case
    using binary_sound [OF EBinary.prems(2)] EBinary.IH EBinary.prems(1) by simp
next
  case (EBetween e lo hi n)
  then obtain e1 ety lo1 lt lo2 lt2 hi1 ht hi2 ht2 where c:
    "check x fs e = Inr (e1, ety)" "orderable ety" "check x fs lo = Inr (lo1, lt)"
    "unify_with x ety (lo1, lt) ''BETWEEN'' = Inr (lo2, lt2)" "check x fs hi = Inr (hi1, ht)"
    "unify_with x ety (hi1, ht) ''BETWEEN'' = Inr (hi2, ht2)" "e' = EBetween e1 lo2 hi2 n" "t = Bool"
    by auto
  have "typed x fs e1 ety" "mentions e1 = mentions e" "typed x fs lo1 lt" "mentions lo1 = mentions lo"
    "typed x fs hi1 ht" "mentions hi1 = mentions hi"
    using EBetween c(1,3,5) by auto
  with c(2,7,8) unify_with_sound [OF c(4), of fs] unify_with_sound [OF c(6), of fs] show ?case
    by (auto intro: t_between)
next
  case (EIn e items n)
  obtain e1 ety items' where c: "check x fs e = Inr (e1, ety)"
    "numeric ety \<or> textual ety \<or> ety = Date \<or> ety = Uuid" "e' = EIn e1 items' n" "t = Bool"
    and items: "list_all2 (\<lambda>i j. is_literal i \<and>
      (\<exists>c u. check x fs i = Inr c \<and> unify_with x ety c ''IN'' = Inr (j, u))) items items'"
    using EIn.prems(2) by (auto simp: map_res_Inr intro: list_all2_mono)
  have e1: "typed x fs e1 ety" "mentions e1 = mentions e" using EIn c(1) by auto
  have each: "mentions j = mentions i \<and> in_constant j \<and> (\<exists>a. typed x fs j a \<and> compatible ety a)"
    if i: "i \<in> set items" "is_literal i" "check x fs i = Inr c" "unify_with x ety c ''IN'' = Inr (j, u)" for i j c u
  proof -
    obtain a where "c = (i, a)" using is_literal_check [OF i(2), of x fs] i(3) by auto
    moreover have "typed x fs i a" using EIn i(1,3) \<open>c = (i, a)\<close> by auto
    ultimately show ?thesis
      using unify_with_sound [of x ety i a "''IN''" j u fs] i(4) is_literal_constant [OF i(2)] by auto
  qed
  have "list_all2 (\<lambda>i j. mentions j = mentions i \<and> in_constant j \<and> (\<exists>a. typed x fs j a \<and> compatible ety a))
      items items'"
    using items by (rule list.rel_mono_strong) (use each in blast)
  from list_all2_union [OF this] e1 c show ?case by (auto intro!: t_in)
next
  case (ECall f args)
  then obtain resolved es where c: "list_all2 (\<lambda>a r. check x fs a = Inr r) args resolved"
    "call_type x f resolved = Inr (es, t)" "e' = ECall f es"
    by (auto simp: map_res_Inr)
  have "list_all2 (\<lambda>a r. mentions (fst r) = mentions a \<and> typed x fs (fst r) (snd r)) args resolved"
    using c(1) by (rule list.rel_mono_strong) (use ECall.IH ECall.prems(1) in auto)
  from list_all2_union [OF this]
  have "(\<forall>(e, a) \<in> set resolved. typed x fs e a) \<and>
      (\<Union>(e, a) \<in> set resolved. mentions e) = (\<Union>a \<in> set args. mentions a)"
    by (auto simp: case_prod_unfold)
  moreover have "length resolved = arity f" using c(1) ECall.prems(1) by (auto dest: list_all2_lengthD)
  ultimately show ?case using call_type_sound [OF c(2), of fs] c(3) by auto
qed (auto split: option.splits intro: typed.intros)

section \<open>Completeness\<close>

fun condition :: "expr \<Rightarrow> bool" where
  "condition (EBinary op l r) = (op \<notin> {OpAdd, OpSub, OpMul})"
| "condition (EBetween e lo hi n) = True"
| "condition (EIn e items n) = True"
| "condition (ENot e) = True"
| "condition (EIsNull e n) = True"
| "condition (EFinite e n) = True"
| "condition (EBool b) = True"
| "condition (EArrayWithin n vs) = True"
| "condition _ = False"

lemma typed_condition: "typed x fs e t \<Longrightarrow> condition e \<Longrightarrow> t = Bool"
  by (cases rule: typed.cases) auto

lemma typed_unique: "typed x fs e t \<Longrightarrow> typed x fs e u \<Longrightarrow> t = u"
proof (induction arbitrary: u rule: typed.induct)
  case (t_arith l a r b op t)
  from t_arith.prems show ?case
  proof (rule typed_binaryE)
    fix a' b' assume "typed x fs l a'" "typed x fs r b'" "arith_type op a' b' = Inr u"
    then have "a = a'" "b = b'" "arith_type op a' b' = Inr u" using t_arith.IH by blast+
    with t_arith.hyps show ?thesis by simp
  qed (use t_arith.hyps in \<open>auto simp: comparable_def\<close>)
next
  case (t_coalesce e t e' v)
  from t_coalesce.prems show ?case
  proof (rule typed_callE)
    fix d t' d' v'
    assume "[e, e'] = [d, d']" "u = (if numeric t' then arithmetic t' v' else t')"
      "typed x fs d t'" "typed x fs d' v'"
    moreover from this have "t = t'" "v = v'" using t_coalesce.IH by blast+
    ultimately show ?thesis by simp
  qed simp
next
  case (t_call e t f v)
  from t_call.prems show ?case
  proof (rule typed_callE)
    fix d t' assume "[e] = [d]" "typed x fs d t'" "call1 f t' = Some u"
    moreover from this have "t = t'" using t_call.IH by blast
    ultimately show ?thesis using t_call.hyps by simp
  qed simp
next
  case (t_neg e t)
  from t_neg.prems show ?case by (rule typed_unaryE(2)) (rule t_neg.IH)
next
  case (t_compare l a r b op)
  have "condition (EBinary op l r)" using t_compare.hyps(3) by (auto simp: comparable_def)
  from typed_condition [OF t_compare.prems this] show ?case by simp
next
  case (t_logic l r op)
  have "condition (EBinary op l r)" using t_logic.hyps(3) by auto
  from typed_condition [OF t_logic.prems this] show ?case by simp
next
  case (t_field n f)
  then show ?case by (auto elim: typed_fieldE)
qed (rule typed_condition [symmetric], assumption, simp (no_asm) | erule typed_leafE, simp)+

lemma unify_with_id: "compatible t a \<Longrightarrow> unify_with x t (e, a) what = Inr (e, a)"
  by (auto simp: unify_with_def compatible_def numeric_def textual_def split: expr.splits ty.splits)

lemma call_type_complete:
  assumes "typed x fs (ECall f args) t" "list_all2 (\<lambda>e p. p = (e, snd p) \<and> typed x fs e (snd p)) args ps"
  shows "call_type x f ps = Inr (args, t)"
  using assms(1)
proof (rule typed_callE)
  fix e a assume c: "args = [e]" "typed x fs e a" "call1 f a = Some t"
  then obtain b where "ps = [(e, b)]" "typed x fs e b"
    using assms(2) by (auto simp: list_all2_Cons1)
  moreover have "b = a" using typed_unique c(2) \<open>typed x fs e b\<close> by blast
  ultimately show ?thesis using c(1,3) by (cases f) (auto simp: call_type_def Let_def split: if_splits)
next
  fix e a e' u
  assume c: "f = FCoalesce" "args = [e, e']" "t = (if numeric a then arithmetic a u else a)"
    "typed x fs e a" "a \<noteq> NumLit" "a \<noteq> TextLit" "a \<noteq> JsonTy" "a \<noteq> Array"
    "typed x fs e' u" "compatible a u"
  then obtain b v where ps: "ps = [(e, b), (e', v)]" "typed x fs e b" "typed x fs e' v"
    using assms(2) by (auto simp: list_all2_Cons1)
  moreover have "b = a" "v = u" using typed_unique c(4,9) ps(2,3) by blast+
  ultimately show ?thesis using c by (auto simp: call_type_def Let_def unify_with_id)
qed

lemma check_order_ok: "comparable op a b \<Longrightarrow> check_order op a b = Inr ()"
  by (auto simp: check_order_def comparable_def)

lemma source_constant: "source_tree i \<Longrightarrow> in_constant i \<Longrightarrow> is_literal i"
  by (cases i) auto

lemma map_res_id: "(\<And>i. i \<in> set xs \<Longrightarrow> f i = Inr i) \<Longrightarrow> map_res f xs = Inr xs"
  by (induction xs) auto

lemma check_complete: "typed x fs e t \<Longrightarrow> source_tree e \<Longrightarrow> check x fs e = Inr (e, t)"
proof (induction rule: typed.induct)
  case (t_compare l a r b op)
  then have op: "is_comparison op" "op \<noteq> OpAnd" "op \<noteq> OpOr" "compatible a b" "compatible b a"
    by (auto simp: comparable_def compatible_sym)
  have "unify_with x b (l, TextLit) (op_sql op) = Inr (l, TextLit)" if "a = TextLit"
    using op(5) that by (simp add: unify_with_id)
  moreover have "unify_with x a (r, b) (op_sql op) = Inr (r, b)" using op(4) by (rule unify_with_id)
  ultimately show ?case using t_compare op check_order_ok [OF t_compare.hyps(3)] by auto
next
  case (t_in e t items n)
  have "map_res (\<lambda>item. res_bind (expect (is_literal item) ''IN lists contain literals only'') (\<lambda>_.
      res_bind (check x fs item) (\<lambda>c. res_bind (unify_with x t c ''IN'') (\<lambda>(i, _). Inr i)))) items = Inr items"
    using t_in by (intro map_res_id) (auto simp: unify_with_id source_constant expect_def)
  with t_in show ?case by (simp add: expect_def)
next
  case (t_call e t f u)
  then have "typed x fs (ECall f [e]) u" by (auto intro: typed.t_call)
  from call_type_complete [OF this, of "[(e, t)]"] t_call show ?case by simp
next
  case (t_coalesce e t e' u)
  then have "typed x fs (ECall FCoalesce [e, e']) (if numeric t then arithmetic t u else t)"
    by (intro typed.t_coalesce)
  from call_type_complete [OF this, of "[(e, t), (e', u)]"] t_coalesce show ?case by simp
qed (auto simp: expect_def unify_with_id)

section \<open>No panic\<close>

lemma typed_literal_no_panic: "t \<in> {Date, Timestamp, Uuid} \<Longrightarrow> typed_literal x t v \<noteq> Inl Panicked"
  by (auto simp: typed_literal_def res_bind_eq_Inl split: option.splits)

lemma unify_with_no_panic: "unify_with x t c what \<noteq> Inl Panicked"
  using typed_literal_no_panic
  by (auto simp: unify_with_def res_bind_eq_Inl split: prod.splits expr.splits ty.splits if_splits)

lemma call_type_no_panic: "length args = arity f \<Longrightarrow> call_type x f args \<noteq> Inl Panicked"
  using unify_with_no_panic
  by (cases f) (auto simp: call_type_def Let_def res_bind_eq_Inl arity_def length_Suc_conv numeral_2_eq_2)

lemma check_order_no_panic: "check_order op a b \<noteq> Inl Panicked"
  by (auto simp: check_order_def res_bind_eq_Inl)

lemma arith_no_panic: "arith_type op a b \<noteq> Inl Panicked"
  by (auto simp: arith_type_def)

lemma map_err_no_panic: "map_err Refused m \<noteq> Inl Panicked"
  by (cases m) auto

lemma map_res_no_panic: "(\<And>a. a \<in> set xs \<Longrightarrow> f a \<noteq> Inl Panicked) \<Longrightarrow> map_res f xs \<noteq> Inl Panicked"
  by (induction xs) (auto simp: res_bind_eq_Inl)

lemmas no_panic = unify_with_no_panic check_order_no_panic arith_no_panic map_err_no_panic

lemma check_no_panic: "source_tree e \<Longrightarrow> check x fs e \<noteq> Inl Panicked"
proof (induction e)
  case (EBinary op l r)
  then show ?case by (auto simp: res_bind_eq_Inl no_panic split: if_splits expr.splits)
next
  case (EIn e items n)
  have "map_res (\<lambda>item. res_bind (expect (is_literal item) ''IN lists contain literals only'') (\<lambda>_.
      res_bind (check x fs item) (\<lambda>c. res_bind (unify_with x t c ''IN'') (\<lambda>(i, _). Inr i)))) items \<noteq> Inl Panicked" for t
    using EIn by (intro map_res_no_panic) (auto simp: res_bind_eq_Inl no_panic)
  with EIn show ?case by (auto simp: res_bind_eq_Inl)
next
  case (ECall f args)
  have "map_res (check x fs) args \<noteq> Inl Panicked" using ECall by (intro map_res_no_panic) auto
  moreover have "length ps = arity f" if "map_res (check x fs) args = Inr ps" for ps
    using map_res_length [OF that] ECall.prems by simp
  ultimately show ?case using call_type_no_panic by (auto simp: res_bind_eq_Inl)
qed (auto simp: res_bind_eq_Inl no_panic split: option.splits)

section \<open>Properties\<close>

text \<open>No Core-generated array test inside: its field is not looked up by the checker.\<close>

fun no_within :: "expr \<Rightarrow> bool" where
  "no_within (EArrayWithin n vs) = False"
| "no_within (ENot e) = no_within e"
| "no_within (ENeg e) = no_within e"
| "no_within (EIsNull e n) = no_within e"
| "no_within (EFinite e n) = no_within e"
| "no_within (EBinary op l r) = (no_within l \<and> no_within r)"
| "no_within (EBetween e lo hi n) = (no_within e \<and> no_within lo \<and> no_within hi)"
| "no_within (EIn e items n) = (no_within e \<and> (\<forall>i \<in> set items. no_within i))"
| "no_within (ECall f args) = (\<forall>a \<in> set args. no_within a)"
| "no_within _ = True"

lemma parsed_no_within: "parsed_ok e \<Longrightarrow> no_within e"
  by (induction e) auto

lemma literal_no_fields: "is_literal i \<Longrightarrow> mentions i = {}"
  by (induction i) (auto elim: is_number.elims)

lemma list_all2_left: "list_all2 (\<lambda>i j. P i \<and> Q i j) xs ys \<Longrightarrow> \<forall>i \<in> set xs. P i"
  by (induction xs ys rule: list_all2_induct) auto

lemma check_fields_known:
  "check x fs e = Inr (e', t) \<Longrightarrow> no_within e \<Longrightarrow> mentions e \<subseteq> dom (map_of fs)"
proof (induction e arbitrary: e' t)
  case (EBinary op l r)
  have "mentions r \<subseteq> dom (map_of fs)"
  proof (cases "op = OpMatch")
    case True
    with EBinary.prems show ?thesis by (cases r) auto
  next
    case False
    with EBinary.prems obtain r' b where "check x fs r = Inr (r', b)" by (auto split: if_splits)
    with EBinary show ?thesis by auto
  qed
  with EBinary show ?case by auto
next
  case (EIn e items n)
  from EIn.prems have "\<forall>i \<in> set items. is_literal i"
    by (auto simp: map_res_Inr dest!: list_all2_left)
  then have "\<forall>i \<in> set items. mentions i = {}" by (auto dest: literal_no_fields)
  with EIn show ?case by auto
next
  case (ECall f args)
  from ECall.prems obtain rs where rs: "list_all2 (\<lambda>a r. check x fs a = Inr r) args rs"
    by (auto simp: map_res_Inr)
  have "mentions a \<subseteq> dom (map_of fs)" if "a \<in> set args" for a
  proof -
    obtain i where "i < length args" "args ! i = a" using \<open>a \<in> set args\<close> by (auto simp: in_set_conv_nth)
    with rs have "check x fs a = Inr (fst (rs ! i), snd (rs ! i))" by (auto dest: list_all2_nthD)
    moreover have "no_within a" using ECall.prems(2) \<open>a \<in> set args\<close> by simp
    ultimately show ?thesis using ECall.IH \<open>a \<in> set args\<close> by blast
  qed
  then show ?case by auto
qed (auto split: option.splits)



end
