(* ===== verification/Rule_Emit.thy ===== *)
theory Rule_Emit
  imports Rule_Typing "HOL-Library.Monad_Syntax"
begin

text \<open>
  SQL emission, from \<open>rules/emit.rs\<close>. \<open>sql e\<close> is \<open>None\<close> where the source panics, on a call with too few
  arguments.

  The specification is a reader for the text: \<open>pg_lex\<close> splits it into tokens the way PostgreSQL's
  scanner does for the constructs emission uses, and refuses everything else that could change
  the reading: comments, dollar quoting, prefixed strings, backslashes, semicolons, line breaks.
  The theorem is that an emitted rule reads back as exactly the tokens of its tree: no field name
  and no literal, whatever bytes it holds, can end its quotation early.
\<close>

fun literal_name :: "literal_type \<Rightarrow> bytes" where
  "literal_name LDate = ''date''"
| "literal_name LTimestamp = ''timestamptz''"
| "literal_name LUuid = ''uuid''"

fun sql :: "expr \<Rightarrow> bytes option" where
  "sql (EField name) = Some (quote_ident name)"
| "sql (EText v) = Some (quote_literal v)"
| "sql (ENumber v) = Some v"
| "sql (EBool v) = Some (if v then ''TRUE'' else ''FALSE'')"
| "sql (ETyped t v) = Some (quote_literal v @ ''::pg_catalog.'' @ literal_name t)"
| "sql (EInterval n u) = Some (sq (show_nat n @ '' '' @ unit_str u) @ ''::pg_catalog.interval'')"
| "sql (ENot e) = do { s \<leftarrow> sql e; Some (''(NOT '' @ s @ '')'') }"
| "sql (ENeg e) = do { s \<leftarrow> sql e; Some (''(- '' @ s @ '')'') }"
| "sql (EBinary op l r) = do {
     a \<leftarrow> sql l;
     b \<leftarrow> sql r;
     Some (''('' @ a @ '' '' @ op_sql op @ '' '' @ b @ '')'') }"
| "sql (EIsNull e negated) = do {
     s \<leftarrow> sql e;
     Some (''('' @ s @ '' IS '' @ (if negated then ''NOT '' else []) @ ''NULL)'') }"
| "sql (EBetween e lo hi negated) = do {
     s \<leftarrow> sql e;
     a \<leftarrow> sql lo;
     b \<leftarrow> sql hi;
     Some (''('' @ s @ '' '' @ (if negated then ''NOT '' else []) @ ''BETWEEN '' @ a @ '' AND '' @ b @ '')'') }"
| "sql (EIn e items negated) = do {
     s \<leftarrow> sql e;
     xs \<leftarrow> those (map sql items);
     Some (''('' @ s @ '' '' @ (if negated then ''NOT '' else []) @ ''IN ('' @ join '', '' xs @ ''))'') }"
| "sql (ECall f args) = do {
     xs \<leftarrow> those (map sql args);
     (case f of
        FCoalesce \<Rightarrow>
          (case xs of
             a # b # _ \<Rightarrow> Some (''COALESCE('' @ a @ '', '' @ b @ '')'')
           | _ \<Rightarrow> None)
      | FJsonbArrayLength \<Rightarrow>
          (case xs of
             a # _ \<Rightarrow> Some (''(CASE WHEN pg_catalog.jsonb_typeof('' @ a @ '') = '' @ sq ''array'' @
               '' THEN pg_catalog.jsonb_array_length('' @ a @ '') END)'')
           | [] \<Rightarrow> None)
      | _ \<Rightarrow> Some (''pg_catalog.'' @ sql_name f @ ''('' @ join '', '' xs @ '')'')) }"
| "sql (EArrayWithin name vs) =
     Some (''('' @ quote_ident name @ '' <@ ARRAY['' @ join '', '' (map quote_literal vs) @
       '']::pg_catalog.text[])'')"
| "sql (EFinite e is_numeric) = do {
     s \<leftarrow> sql e;
     let t = (if is_numeric then ''numeric'' else ''float8'') in
     Some (''('' @ s @ '' < '' @ sq ''Infinity'' @ ''::pg_catalog.'' @ t @ '' AND '' @
       s @ '' > '' @ sq ''-Infinity'' @ ''::pg_catalog.'' @ t @ '')'') }"

section \<open>Reading SQL\<close>

datatype sql_token = QIdent bytes | QText bytes | Word bytes | Num bytes | Sym bytes

definition is_num_char :: "char \<Rightarrow> bool" where
  "is_num_char c \<longleftrightarrow> is_digit c \<or> c = CHR ''.''"

definition is_punct :: "char \<Rightarrow> bool" where
  "is_punct c \<longleftrightarrow> c \<in> set ''(),.[]''"

text \<open>What may follow a word or a number: nothing that would glue to it or make it a prefix.\<close>

definition word_ends :: "bytes \<Rightarrow> bool" where
  "word_ends s \<longleftrightarrow> (case s of [] \<Rightarrow> True | c # _ \<Rightarrow> \<not> is_word_char c \<and> c \<noteq> SQ \<and> c \<noteq> DQ \<and> is_ascii c)"

lemma read_quoted_shorter: "read_quoted q s = Some (v, r) \<Longrightarrow> length r < length s"
  by (induction q s arbitrary: v r rule: read_quoted.induct) (fastforce split: if_splits)+

function pg_lex :: "bytes \<Rightarrow> sql_token list option" where
  "pg_lex [] = Some []"
| "pg_lex (c # cs) =
     (if c = CHR '' '' then pg_lex cs
      else if c = DQ then
        (case read_quoted DQ cs of None \<Rightarrow> None | Some (v, r) \<Rightarrow> map_option ((#) (QIdent v)) (pg_lex r))
      else if c = SQ then
        (case read_quoted SQ cs of None \<Rightarrow> None | Some (v, r) \<Rightarrow> map_option ((#) (QText v)) (pg_lex r))
      else if is_alpha c \<or> c = CHR ''_'' then
        (if word_ends (dropWhile is_word_char cs) then
           map_option ((#) (Word (c # takeWhile is_word_char cs))) (pg_lex (dropWhile is_word_char cs))
         else None)
      else if is_digit c then
        (if word_ends (dropWhile is_num_char cs) then
           map_option ((#) (Num (c # takeWhile is_num_char cs))) (pg_lex (dropWhile is_num_char cs))
         else None)
      else if is_op_char c then
        (let run = c # takeWhile is_op_char cs in
         if contains_sub run ''--'' \<or> contains_sub run ''/*'' then None
         else map_option ((#) (Sym run)) (pg_lex (dropWhile is_op_char cs)))
      else if c = CHR '':'' then
        (case cs of
           d # ds \<Rightarrow> if d = CHR '':'' then map_option ((#) (Sym ''::'')) (pg_lex ds) else None
         | [] \<Rightarrow> None)
      else if is_punct c then map_option ((#) (Sym [c])) (pg_lex cs)
      else None)"
  by pat_completeness auto
termination
  by (relation "measure length") (auto dest: read_quoted_shorter intro: le_imp_less_Suc length_dropWhile_le)

section \<open>The tokens of a tree\<close>

definition op_tok :: "bin_op \<Rightarrow> sql_token" where
  "op_tok op = (if op = OpOr \<or> op = OpAnd then Word (op_sql op) else Sym (op_sql op))"

definition cast_toks :: "bytes \<Rightarrow> sql_token list" where
  "cast_toks t = [Sym ''::'', Word ''pg_catalog'', Sym ''.'', Word t]"

definition call_toks :: "bytes \<Rightarrow> sql_token list" where
  "call_toks f = [Word ''pg_catalog'', Sym ''.'', Word f, Sym ''('']"

abbreviation LP :: "sql_token list" where "LP \<equiv> [Sym ''('']"
abbreviation RP :: "sql_token list" where "RP \<equiv> [Sym '')'']"

definition neg_toks :: "bool \<Rightarrow> sql_token list" where
  "neg_toks negated = (if negated then [Word ''NOT''] else [])"

fun commas :: "sql_token list list \<Rightarrow> sql_token list" where
  "commas [] = []"
| "commas [x] = x"
| "commas (x # y # ys) = x @ Sym '','' # commas (y # ys)"

fun sql_toks :: "expr \<Rightarrow> sql_token list" where
  "sql_toks (EField name) = [QIdent name]"
| "sql_toks (EText v) = [QText v]"
| "sql_toks (ENumber v) = [Num v]"
| "sql_toks (EBool v) = [Word (if v then ''TRUE'' else ''FALSE'')]"
| "sql_toks (ETyped t v) = QText v # cast_toks (literal_name t)"
| "sql_toks (EInterval n u) = QText (show_nat n @ '' '' @ unit_str u) # cast_toks ''interval''"
| "sql_toks (ENot e) = LP @ Word ''NOT'' # sql_toks e @ RP"
| "sql_toks (ENeg e) = LP @ Sym ''-'' # sql_toks e @ RP"
| "sql_toks (EBinary op l r) = LP @ sql_toks l @ op_tok op # sql_toks r @ RP"
| "sql_toks (EIsNull e negated) = LP @ sql_toks e @ Word ''IS'' # neg_toks negated @ Word ''NULL'' # RP"
| "sql_toks (EBetween e lo hi negated) =
     LP @ sql_toks e @ neg_toks negated @ Word ''BETWEEN'' # sql_toks lo @ Word ''AND'' # sql_toks hi @ RP"
| "sql_toks (EIn e items negated) =
     LP @ sql_toks e @ neg_toks negated @ Word ''IN'' # LP @ commas (map sql_toks items) @ RP @ RP"
| "sql_toks (ECall f args) =
     (let ts = map sql_toks args; a = concat (take 1 ts) in
      case f of
        FCoalesce \<Rightarrow> Word ''COALESCE'' # LP @ commas (take 2 ts) @ RP
      | FJsonbArrayLength \<Rightarrow>
          LP @ [Word ''CASE'', Word ''WHEN''] @ call_toks ''jsonb_typeof'' @ a @ RP @
          [Sym ''='', QText ''array'', Word ''THEN''] @ call_toks ''jsonb_array_length'' @ a @ RP @ Word ''END'' # RP
      | _ \<Rightarrow> call_toks (sql_name f) @ commas ts @ RP)"
| "sql_toks (EArrayWithin name vs) =
     LP @ [QIdent name, Sym ''<@'', Word ''ARRAY'', Sym ''[''] @ commas (map (\<lambda>v. [QText v]) vs) @
     Sym '']'' # cast_toks ''text'' @ [Sym ''['', Sym '']''] @ RP"
| "sql_toks (EFinite e is_numeric) =
     (let t = (if is_numeric then ''numeric'' else ''float8'') in
      LP @ sql_toks e @ [Sym ''<'', QText ''Infinity''] @ cast_toks t @ Word ''AND'' #
      sql_toks e @ [Sym ''>'', QText ''-Infinity''] @ cast_toks t @ RP)"

section \<open>Emitted text reads back as its tokens\<close>

text \<open>What may follow an expression.\<close>

definition closes :: "bytes \<Rightarrow> bool" where
  "closes s \<longleftrightarrow> (case s of [] \<Rightarrow> True | c # _ \<Rightarrow> c = CHR '' '' \<or> c = CHR '')'' \<or> c = CHR '','' \<or> c = CHR '']'' \<or> c = CHR '':'')"

definition lexes :: "bytes \<Rightarrow> sql_token list \<Rightarrow> bool" where
  "lexes s ts \<longleftrightarrow> (\<forall>rest. closes rest \<longrightarrow> pg_lex (s @ rest) = map_option (append ts) (pg_lex rest))"

lemma closes_simps [simp]:
  "closes []" "closes (CHR '' '' # s)" "closes (CHR '')'' # s)" "closes (CHR '','' # s)"
  "closes (CHR '']'' # s)" "closes (CHR '':'' # s)"
  by (simp_all add: closes_def)

lemma lexesD: "lexes s ts \<Longrightarrow> closes rest \<Longrightarrow> pg_lex (s @ rest) = map_option (append ts) (pg_lex rest)"
  by (simp add: lexes_def)

lemma closes_no_quote: "closes rest \<Longrightarrow> q = SQ \<or> q = DQ \<Longrightarrow> rest = [] \<or> hd rest \<noteq> q"
  by (auto simp: closes_def split: list.splits)

lemma closes_word_ends: "closes rest \<Longrightarrow> word_ends rest"
  by (auto simp: closes_def word_ends_def byte_class_defs is_word_char_def split: list.splits)

lemma closes_dropWhile:
  assumes "closes rest"
  shows "takeWhile is_word_char rest = []" "dropWhile is_word_char rest = rest"
    "takeWhile is_num_char rest = []" "dropWhile is_num_char rest = rest"
  using assms by (cases rest; auto simp: closes_def is_word_char_def is_num_char_def byte_class_defs)+

lemmas char_classes = byte_class_defs is_word_char_def is_num_char_def is_op_char_def OP_CHARS_def is_punct_def
  word_ends_def contains_sub_def

lemma lexes_quote_literal: "lexes (quote_literal v) [QText v]"
  unfolding lexes_def quote_literal_def
  by (auto simp: read_quoted_replace closes_no_quote option.map_comp comp_def intro!: option.map_cong)

lemma lexes_quote_ident: "lexes (quote_ident v) [QIdent v]"
  unfolding lexes_def quote_ident_def
  by (auto simp: read_quoted_replace closes_no_quote option.map_comp comp_def intro!: option.map_cong)

lemma replace_char_id: "c \<notin> set s \<Longrightarrow> replace_char c r s = s"
  by (induction s) auto

lemma sq_quote_literal: "SQ \<notin> set s \<Longrightarrow> sq s = quote_literal s"
  by (simp add: sq_def quote_literal_def replace_char_id)

lemma append_fun: "append (t # ts) = (\<lambda>x. t # ts @ x)" "append [] = (\<lambda>x. x)"
  by auto

lemma lexes_number:
  assumes "digits_ok v"
  shows "lexes v [Num v]"
proof -
  have v: "v \<noteq> []" "is_digit (hd v)" "list_all is_num_char v"
  proof -
    have "takeWhile is_digit v \<noteq> []" using assms by (auto simp: digits_ok_def Let_def)
    then show "v \<noteq> []" "is_digit (hd v)" by (cases v; auto split: if_splits)+
    have "list_all is_num_char (takeWhile is_digit v)"
      by (auto simp: list_all_iff is_num_char_def dest: set_takeWhileD)
    moreover have "list_all is_num_char (dropWhile is_digit v)"
      using assms by (cases "dropWhile is_digit v") (auto simp: digits_ok_def Let_def list_all_iff is_num_char_def dest: set_dropWhileD)
    ultimately show "list_all is_num_char v" by (metis list_all_append takeWhile_dropWhile_id)
  qed
  then obtain c cs where c: "v = c # cs" "is_digit c" "\<forall>d \<in> set cs. is_num_char d"
    by (cases v) (auto simp: list_all_iff)
  have other: "c \<noteq> CHR '' ''" "c \<noteq> DQ" "c \<noteq> SQ" "\<not> is_alpha c" "c \<noteq> CHR ''_''"
    using c(2) by (auto simp: byte_class_defs)
  show ?thesis
    unfolding lexes_def
  proof (intro allI impI)
    fix rest assume "closes rest"
    then show "pg_lex (v @ rest) = map_option (append [Num v]) (pg_lex rest)"
      using c other by (simp add: closes_dropWhile closes_word_ends takeWhile_append2 dropWhile_append2
          append_fun cong: if_cong)
  qed
qed

text \<open>Text that reads as its tokens whatever follows.\<close>

definition emits :: "bytes \<Rightarrow> sql_token list \<Rightarrow> bool" where
  "emits s ts \<longleftrightarrow> (\<forall>x. pg_lex (s @ x) = map_option (append ts) (pg_lex x))"

lemma emits_lexes: "emits s ts \<Longrightarrow> lexes s ts"
  by (simp add: emits_def lexes_def)

lemma append_append_fun: "append (ts @ us) = (\<lambda>x. ts @ us @ x)"
  by auto

lemma closes_append: "closes s \<Longrightarrow> s \<noteq> [] \<Longrightarrow> closes (s @ x)"
  by (cases s) (auto simp: closes_def)

lemma emits_append: "emits s ts \<Longrightarrow> emits s' ts' \<Longrightarrow> emits (s @ s') (ts @ ts')"
  by (simp add: emits_def option.map_comp comp_def append_append_fun)

lemma emits_lexes_append: "emits s ts \<Longrightarrow> lexes s' ts' \<Longrightarrow> lexes (s @ s') (ts @ ts')"
  by (simp add: emits_def lexes_def option.map_comp comp_def append_append_fun)

lemma lexes_then: "lexes s ts \<Longrightarrow> emits s' ts' \<Longrightarrow> closes s' \<Longrightarrow> s' \<noteq> [] \<Longrightarrow> emits (s @ s') (ts @ ts')"
  by (simp add: emits_def lexes_def closes_append option.map_comp comp_def append_append_fun)

lemma emits_Nil: "emits [] []"
  by (simp add: emits_def append_fun option.map_ident)

text \<open>The fixed pieces of the emitted text.\<close>

lemmas piece_simps = emits_def char_classes option.map_comp comp_def append_fun option.map_ident

lemma piece_paren: "emits ''('' LP" "emits '')'' RP" "emits ''))'' (RP @ RP)" "emits '', '' [Sym '','']"
  "emits '' '' []" "emits '']'' [Sym '']'']"
  by (simp_all add: piece_simps)

lemma piece_word: "emits ''(NOT '' (LP @ [Word ''NOT''])" "emits ''(- '' (LP @ [Sym ''-''])"
  "emits '' IS '' [Word ''IS'']" "emits ''NOT '' [Word ''NOT'']" "emits ''NULL)'' (Word ''NULL'' # RP)"
  "emits ''BETWEEN '' [Word ''BETWEEN'']" "emits '' AND '' [Word ''AND'']" "emits ''IN ('' (Word ''IN'' # LP)"
  "emits ''COALESCE('' (Word ''COALESCE'' # LP)" "emits '' < '' [Sym ''<'']" "emits '' > '' [Sym ''>'']"
  "emits '' <@ ARRAY['' [Sym ''<@'', Word ''ARRAY'', Sym ''['']" "emits ''[])'' ([Sym ''['', Sym '']''] @ RP)"
  by (simp_all add: piece_simps)

lemma piece_op: "emits ('' '' @ op_sql op @ '' '') [op_tok op]"
  by (cases op) (simp_all add: piece_simps op_tok_def)

lemma piece_call: "emits (''pg_catalog.'' @ sql_name f @ ''('') (call_toks (sql_name f))"
  by (cases f) (simp_all add: piece_simps call_toks_def)

lemma piece_case:
  "emits ''(CASE WHEN pg_catalog.jsonb_typeof('' (LP @ [Word ''CASE'', Word ''WHEN''] @ call_toks ''jsonb_typeof'')"
  "emits ('') = '' @ sq ''array'' @ '' THEN pg_catalog.jsonb_array_length('')
     (RP @ [Sym ''='', QText ''array'', Word ''THEN''] @ call_toks ''jsonb_array_length'')"
  "emits '') END)'' (RP @ Word ''END'' # RP)"
  by (simp_all add: piece_simps sq_def read_quoted_Cons call_toks_def)

lemma piece_cast:
  assumes "t \<in> {''date'', ''timestamptz'', ''uuid'', ''interval'', ''numeric'', ''float8'', ''text''}"
  shows "lexes (''::pg_catalog.'' @ t) (cast_toks t)"
proof -
  have "pg_lex (''::pg_catalog.'' @ t @ x) = map_option (append (cast_toks t)) (pg_lex x)" if "closes x" for x
  proof -
    note drop = closes_dropWhile [OF that]
    from assms show ?thesis
      by (auto simp: piece_simps cast_toks_def drop [simplified is_word_char_def byte_class_defs]
          closes_word_ends [OF that, unfolded word_ends_def])
  qed
  then show ?thesis by (simp add: lexes_def)
qed

lemma piece_text_array: "emits '']::pg_catalog.text[])'' (Sym '']'' # cast_toks ''text'' @ [Sym ''['', Sym '']''] @ RP)"
  by (simp add: piece_simps cast_toks_def)

lemma piece_bool: "lexes (if v then ''TRUE'' else ''FALSE'') [Word (if v then ''TRUE'' else ''FALSE'')]"
proof -
  have "pg_lex ((if v then ''TRUE'' else ''FALSE'') @ x) = map_option (append [Word (if v then ''TRUE'' else ''FALSE'')]) (pg_lex x)"
    if "closes x" for x
  proof -
    note drop = closes_dropWhile [OF that]
    show ?thesis
      by (simp add: piece_simps drop [simplified is_word_char_def byte_class_defs]
          closes_word_ends [OF that, unfolded word_ends_def])
  qed
  then show ?thesis by (simp add: lexes_def)
qed

section \<open>Emission\<close>

text \<open>Trees emission is given: digits for numbers, the right number of arguments.\<close>

fun emit_ok :: "expr \<Rightarrow> bool" where
  "emit_ok (ENumber v) = digits_ok v"
| "emit_ok (ENot e) = emit_ok e"
| "emit_ok (ENeg e) = emit_ok e"
| "emit_ok (EIsNull e n) = emit_ok e"
| "emit_ok (EFinite e n) = emit_ok e"
| "emit_ok (EBinary op l r) = (emit_ok l \<and> emit_ok r)"
| "emit_ok (EBetween e lo hi n) = (emit_ok e \<and> emit_ok lo \<and> emit_ok hi)"
| "emit_ok (EIn e items n) = (emit_ok e \<and> (\<forall>i \<in> set items. emit_ok i))"
| "emit_ok (ECall f args) = (length args = arity f \<and> (\<forall>a \<in> set args. emit_ok a))"
| "emit_ok _ = True"

definition emitted :: "expr \<Rightarrow> bytes \<Rightarrow> bool" where
  "emitted e s \<longleftrightarrow> sql e = Some s \<and> lexes s (sql_toks e)"

lemma emitted_list:
  assumes "\<And>e. e \<in> set es \<Longrightarrow> \<exists>s. emitted e s"
  shows "\<exists>ss. those (map sql es) = Some ss \<and> list_all2 (\<lambda>s e. lexes s (sql_toks e)) ss es"
  using assms
proof (induction es)
  case (Cons e es)
  then obtain s where "emitted e s" by auto
  moreover obtain ss where "those (map sql es) = Some ss" "list_all2 (\<lambda>s e. lexes s (sql_toks e)) ss es"
    using Cons by auto
  ultimately show ?case by (auto simp: emitted_def)
qed simp

lemma lexes_join: "list_all2 lexes ss tss \<Longrightarrow> lexes (join '', '' ss) (commas tss)"
proof (induction ss arbitrary: tss)
  case Nil
  then show ?case using emits_lexes [OF emits_Nil] by simp
next
  case (Cons s ss)
  show ?case
  proof (cases ss)
    case Nil
    with Cons.prems show ?thesis by (auto simp: list_all2_Cons1)
  next
    case more: (Cons s' ss')
    with Cons.prems obtain t t' ts where tss: "tss = t # t' # ts" "lexes s t" "list_all2 lexes ss (t' # ts)"
      by (auto simp: list_all2_Cons1)
    have "emits (s @ '', '') (t @ [Sym '',''])"
      using lexes_then [OF tss(2) piece_paren(4)] by simp
    from emits_lexes_append [OF this Cons.IH [OF tss(3)]]
    show ?thesis using tss(1) more by simp
  qed
qed

lemma emits_neg: "emits (if negated then ''NOT '' else []) (neg_toks negated)"
  by (simp add: neg_toks_def piece_word emits_Nil)

lemma emits_then_lexes: "lexes s ts \<Longrightarrow> emits p ps \<Longrightarrow> emits q qs \<Longrightarrow> closes q \<Longrightarrow> q \<noteq> [] \<Longrightarrow>
    emits (p @ s @ q) (ps @ ts @ qs)"
  by (intro emits_append lexes_then)

lemma lexes_cast:
  "t \<in> {''date'', ''timestamptz'', ''uuid'', ''interval'', ''numeric'', ''float8'', ''text''} \<Longrightarrow>
     lexes (quote_literal v @ ''::pg_catalog.'' @ t) (QText v # cast_toks t)"
proof -
  assume t: "t \<in> {''date'', ''timestamptz'', ''uuid'', ''interval'', ''numeric'', ''float8'', ''text''}"
  have "pg_lex (quote_literal v @ ''::pg_catalog.'' @ t @ x) = map_option (append (QText v # cast_toks t)) (pg_lex x)"
    if "closes x" for x
  proof -
    have "pg_lex (quote_literal v @ (''::pg_catalog.'' @ t) @ x) =
        map_option (append [QText v]) (pg_lex ((''::pg_catalog.'' @ t) @ x))"
      by (rule lexesD [OF lexes_quote_literal]) simp
    also have "\<dots> = map_option (append [QText v]) (map_option (append (cast_toks t)) (pg_lex x))"
      by (subst lexesD [OF piece_cast [OF t] that]) simp
    finally show ?thesis by (simp add: option.map_comp comp_def append_fun)
  qed
  then show ?thesis by (simp add: lexes_def)
qed

lemma SQ_show_nat: "SQ \<notin> set (show_nat n)"
  using show_nat_digits [of SQ n] by (auto simp: is_digit_def byte_def)

lemma interval_quote: "sq (show_nat n @ '' '' @ unit_str u) = quote_literal (show_nat n @ '' '' @ unit_str u)"
  by (rule sq_quote_literal) (cases u; simp add: SQ_show_nat)

lemma lexes_finite:
  assumes "lexes s ts" "t \<in> {''numeric'', ''float8''}"
  shows "lexes (''('' @ s @ '' < '' @ sq ''Infinity'' @ ''::pg_catalog.'' @ t @ '' AND '' @
       s @ '' > '' @ sq ''-Infinity'' @ ''::pg_catalog.'' @ t @ '')'')
     (LP @ ts @ [Sym ''<'', QText ''Infinity''] @ cast_toks t @ Word ''AND'' #
      ts @ [Sym ''>'', QText ''-Infinity''] @ cast_toks t @ RP)"
proof -
  have t: "t \<in> {''date'', ''timestamptz'', ''uuid'', ''interval'', ''numeric'', ''float8'', ''text''}"
    using assms(2) by auto
  have lit: "sq ''Infinity'' = quote_literal ''Infinity''" "sq ''-Infinity'' = quote_literal ''-Infinity''"
    by (simp_all add: sq_quote_literal)
  have a: "emits (''('' @ s @ '' < '') (LP @ ts @ [Sym ''<''])"
    by (rule emits_then_lexes [OF assms(1)]) (simp_all add: piece_paren piece_word)
  have b: "emits ((quote_literal ''Infinity'' @ ''::pg_catalog.'' @ t) @ '' AND '')
      ((QText ''Infinity'' # cast_toks t) @ [Word ''AND''])"
    by (rule lexes_then [OF lexes_cast [OF t]]) (simp_all add: piece_word)
  have c: "emits (s @ '' > '') (ts @ [Sym ''>''])"
    by (rule lexes_then [OF assms(1)]) (simp_all add: piece_word)
  have d: "emits ((quote_literal ''-Infinity'' @ ''::pg_catalog.'' @ t) @ '')'')
      ((QText ''-Infinity'' # cast_toks t) @ RP)"
    by (rule lexes_then [OF lexes_cast [OF t]]) (simp_all add: piece_paren)
  from emits_lexes [OF emits_append [OF a emits_append [OF b emits_append [OF c d]]]]
  show ?thesis by (simp add: lit)
qed

lemma sql_call_emitted:
  assumes "length args = arity f" "\<And>a. a \<in> set args \<Longrightarrow> \<exists>s. emitted a s"
  shows "\<exists>s. emitted (ECall f args) s"
proof -
  obtain ss where ss: "those (map sql args) = Some ss" "list_all2 (\<lambda>s e. lexes s (sql_toks e)) ss args"
    using emitted_list [of args] assms(2) by auto
  then have tss: "list_all2 lexes ss (map sql_toks args)" by (simp add: list_all2_map2)
  show ?thesis
  proof (cases "f = FCoalesce \<or> f = FJsonbArrayLength")
    case False
    have "emits ((''pg_catalog.'' @ sql_name f @ ''('') @ join '', '' ss @ '')'')
        (call_toks (sql_name f) @ commas (map sql_toks args) @ RP)"
      by (rule emits_then_lexes [OF lexes_join [OF tss] piece_call piece_paren(2)]) auto
    then have "lexes (''pg_catalog.'' @ sql_name f @ ''('' @ join '', '' ss @ '')'') (sql_toks (ECall f args))"
      using False emits_lexes by (cases f) (auto simp: Let_def)
    moreover have "sql (ECall f args) = Some (''pg_catalog.'' @ sql_name f @ ''('' @ join '', '' ss @ '')'')"
      using False ss(1) by (cases f) auto
    ultimately show ?thesis by (auto simp: emitted_def)
  next
    case True
    then show ?thesis
    proof
      assume f: "f = FCoalesce"
      with assms(1) obtain x y where args: "args = [x, y]"
        by (auto simp: arity_def length_Suc_conv numeral_2_eq_2)
      then obtain a b where ab: "ss = [a, b]" "lexes a (sql_toks x)" "lexes b (sql_toks y)"
        using ss(2) by (auto simp: list_all2_Cons2)
      have "emits (''COALESCE('' @ join '', '' ss @ '')'') ((Word ''COALESCE'' # LP) @ commas (map sql_toks args) @ RP)"
        by (rule emits_then_lexes [OF lexes_join [OF tss] piece_word(9) piece_paren(2)]) auto
      from emits_lexes [OF this] show ?thesis
        using f args ab(1) ss(1) by (auto simp: emitted_def)
    next
      assume f: "f = FJsonbArrayLength"
      with assms(1) obtain x where args: "args = [x]" by (auto simp: arity_def length_Suc_conv)
      then obtain a where a: "ss = [a]" "lexes a (sql_toks x)" using ss(2) by (auto simp: list_all2_Cons2)
      note parts = emits_append [OF emits_then_lexes [OF a(2) piece_case(1,2)] lexes_then [OF a(2) piece_case(3)]]
      show ?thesis
        using emits_lexes [OF parts] f args a(1) ss(1) by (auto simp: emitted_def Let_def)
    qed
  qed
qed

lemma sql_emitted: "emit_ok e \<Longrightarrow> \<exists>s. emitted e s"
proof (induction e)
  case (EField name)
  then show ?case using lexes_quote_ident by (simp add: emitted_def)
next
  case (EText v)
  then show ?case using lexes_quote_literal by (simp add: emitted_def)
next
  case (ENumber v)
  then show ?case using lexes_number by (simp add: emitted_def)
next
  case (EBool v)
  then show ?case using piece_bool [of v] by (simp add: emitted_def)
next
  case (ETyped t v)
  then show ?case using lexes_cast [of "literal_name t" v] by (cases t) (simp_all add: emitted_def)
next
  case (EInterval n u)
  then show ?case using lexes_cast [of "''interval''" "show_nat n @ '' '' @ unit_str u"]
    by (simp add: emitted_def interval_quote [simplified])
next
  case (ENot e)
  then obtain s where "sql e = Some s" and s: "lexes s (sql_toks e)" by (auto simp: emitted_def)
  with emits_lexes [OF emits_then_lexes [OF s piece_word(1) piece_paren(2)]] show ?case
    by (simp add: emitted_def)
next
  case (ENeg e)
  then obtain s where "sql e = Some s" and s: "lexes s (sql_toks e)" by (auto simp: emitted_def)
  with emits_lexes [OF emits_then_lexes [OF s piece_word(2) piece_paren(2)]] show ?case
    by (simp add: emitted_def)
next
  case (EBinary op l r)
  then obtain a b where ab: "sql l = Some a" "sql r = Some b" and
    a: "lexes a (sql_toks l)" and b: "lexes b (sql_toks r)" by (auto simp: emitted_def)
  have "emits (''('' @ a @ '' '' @ op_sql op @ '' '') (LP @ sql_toks l @ [op_tok op])"
    by (rule emits_then_lexes [OF a piece_paren(1) piece_op]) auto
  from emits_lexes [OF emits_append [OF this lexes_then [OF b piece_paren(2)]]] ab show ?case
    by (simp add: emitted_def)
next
  case (EIsNull e negated)
  then obtain s where "sql e = Some s" and s: "lexes s (sql_toks e)" by (auto simp: emitted_def)
  with emits_lexes [OF emits_append [OF emits_then_lexes [OF s piece_paren(1) piece_word(3)]
        emits_append [OF emits_neg piece_word(5)]]]
  show ?case by (simp add: emitted_def)
next
  case (EBetween e lo hi negated)
  then obtain s a b where sql: "sql e = Some s" "sql lo = Some a" "sql hi = Some b" and
    s: "lexes s (sql_toks e)" and a: "lexes a (sql_toks lo)" and b: "lexes b (sql_toks hi)"
    by (auto simp: emitted_def)
  note 1 = emits_then_lexes [OF s piece_paren(1) piece_paren(5)]
  note 2 = emits_append [OF emits_neg [of negated] piece_word(6)]
  note 3 = emits_append [OF lexes_then [OF a piece_word(7)] lexes_then [OF b piece_paren(2)]]
  from emits_lexes [OF emits_append [OF 1 emits_append [OF 2 3]]] sql show ?case
    by (simp add: emitted_def)
next
  case (EIn e items negated)
  then obtain s where sql: "sql e = Some s" and s: "lexes s (sql_toks e)" by (auto simp: emitted_def)
  obtain ss where ss: "those (map sql items) = Some ss" "list_all2 (\<lambda>s e. lexes s (sql_toks e)) ss items"
    using emitted_list [of items] EIn by auto
  then have "list_all2 lexes ss (map sql_toks items)" by (simp add: list_all2_map2)
  note items = lexes_then [OF lexes_join [OF this] piece_paren(3)]
  note 1 = emits_then_lexes [OF s piece_paren(1) piece_paren(5)]
  note 2 = emits_append [OF emits_neg [of negated] piece_word(8)]
  from emits_lexes [OF emits_append [OF 1 emits_append [OF 2 items]]] sql ss(1) show ?case
    by (simp add: emitted_def)
next
  case (ECall f args)
  then show ?case by (intro sql_call_emitted) auto
next
  case (EArrayWithin name vs)
  have "list_all2 lexes (map quote_literal vs) (map (\<lambda>v. [QText v]) vs)"
    by (simp add: list_all2_conv_all_nth lexes_quote_literal)
  note items = lexes_then [OF lexes_join [OF this] piece_text_array]
  note 1 = emits_then_lexes [OF lexes_quote_ident [of name] piece_paren(1) piece_word(12)]
  from emits_lexes [OF emits_append [OF 1 items]] show ?case by (simp add: emitted_def)
next
  case (EFinite e n)
  then obtain s where "sql e = Some s" and s: "lexes s (sql_toks e)" by (auto simp: emitted_def)
  with lexes_finite [OF s, of "if n then ''numeric'' else ''float8''"] show ?case
    by (simp add: emitted_def Let_def)
qed

text \<open>
  C16: emitted SQL means what the tree says. For every tree with digits for numbers and the right
  number of arguments, emission does not panic, and the text it makes reads back as exactly the
  tokens of the tree: every field name is one quoted identifier and every literal one quoted
  string, whatever quotes, comment marks or semicolons they contain, and nothing else in the
  statement depends on them.
\<close>
theorem sql_reads_back:
  assumes "emit_ok e"
  shows "\<exists>s. sql e = Some s \<and> pg_lex s = Some (sql_toks e)"
proof -
  obtain s where s: "sql e = Some s" "lexes s (sql_toks e)"
    using sql_emitted [OF assms] by (auto simp: emitted_def)
  from lexesD [OF s(2), of "[]"] have "pg_lex s = Some (sql_toks e)" by simp
  with s(1) show ?thesis by blast
qed

theorem sql_reads_back_witness:
  "\<exists>s. sql (EBinary OpEq (EField ''na_me'') (EText (SQ # ''; DROP TABLE x; --''))) = Some s \<and>
     pg_lex s = Some [Sym ''('', QIdent ''na_me'', Sym ''='', QText (SQ # ''; DROP TABLE x; --''), Sym '')'']"
  using sql_reads_back [of "EBinary OpEq (EField ''na_me'') (EText (SQ # ''; DROP TABLE x; --''))"]
  by (simp add: op_tok_def)

end
