(* ===== verification/Rule_Shorthand.thy ===== *)
theory Rule_Shorthand
  imports Rule_Emit
begin

text \<open>
  Field shorthands, from \<open>rules/shorthand.rs\<close>: the single-field rules declared on a field, compiled
  through the typed tree. The steps of \<open>compile\<close> are pure and run in order until the first error;
  each yields no rule or one.
\<close>

definition EMAIL_PATTERN :: bytes where
  "EMAIL_PATTERN = ''^[^[:space:]@]+@[^[:space:]@]+'' @ [BSLASH] @ ''.[^[:space:]@]+$''"

definition JSON_TYPES :: "bytes list" where
  "JSON_TYPES = [''object'', ''array'', ''string'', ''number'', ''boolean'', ''null'']"

record shorthand =
  rule_kind :: bytes
  rule_tree :: expr

section \<open>Bounds\<close>

text \<open>
  \<open>n as f64\<close> for \<open>2^63 \<le> n < 2^64\<close>, printed: the value is rounded to a multiple of \<open>2^11\<close>, ties to
  even; its shortest form is the multiple of the largest power of ten, nearest to it, that still
  rounds to it.
\<close>

definition round_f64 :: "nat \<Rightarrow> nat" where
  "round_f64 n =
     (let q = n div 2048; r = n mod 2048 in
      if r < 1024 \<or> (r = 1024 \<and> even q) then q * 2048 else (q + 1) * 2048)"

definition rounds_to :: "nat \<Rightarrow> nat \<Rightarrow> bool" where
  "rounds_to v c \<longleftrightarrow>
     (let lower = (if v = 2 ^ 63 then 512 else 1024);
          upper = (if v = 2 ^ 64 then 2048 else 1024);
          inclusive = even (v div 2048)
      in (if c \<le> v then (if inclusive then v - c \<le> lower else v - c < lower)
          else (if inclusive then c - v \<le> upper else c - v < upper)))"

definition nearest_multiple :: "nat \<Rightarrow> nat \<Rightarrow> nat" where
  "nearest_multiple p v = (let r = v mod p in if 2 * r < p then v - r else v - r + p)"

fun shortest_f64 :: "nat \<Rightarrow> nat \<Rightarrow> nat" where
  "shortest_f64 0 v = v"
| "shortest_f64 (Suc k) v =
     (let c = nearest_multiple (10 ^ Suc k) v in if rounds_to v c then c else shortest_f64 k v)"

definition show_u64_as_f64 :: "nat \<Rightarrow> bytes" where
  "show_u64_as_f64 n = show_nat (shortest_f64 19 (round_f64 n))"

definition number_text :: "json_number \<Rightarrow> bytes" where
  "number_text n =
     (case as_i64 n of
        Some i \<Rightarrow> show_int i
      | None \<Rightarrow> (case n of PosInt m \<Rightarrow> show_u64_as_f64 m | NegInt i \<Rightarrow> show_int i | Float x \<Rightarrow> show_f64 x))"

text \<open>\<open>digits.splitn(2, '.')\<close>\<close>

definition split_dot :: "bytes \<Rightarrow> bytes \<times> bytes option" where
  "split_dot s =
     (takeWhile (\<lambda>c. c \<noteq> CHR ''.'') s,
      case dropWhile (\<lambda>c. c \<noteq> CHR ''.'') s of [] \<Rightarrow> None | _ # r \<Rightarrow> Some r)"

definition valid_digits :: "bytes \<Rightarrow> bool" where
  "valid_digits digits \<longleftrightarrow>
     (let (whole, fraction) = split_dot digits in
      whole \<noteq> [] \<and> list_all is_digit whole \<and>
      (case fraction of None \<Rightarrow> True | Some f \<Rightarrow> f \<noteq> [] \<and> list_all is_digit f) \<and>
      length digits \<le> 40)"

definition bound :: "bytes \<Rightarrow> bytes \<Rightarrow> json \<Rightarrow> ty \<Rightarrow> rule_error + expr" where
  "bound name key value t =
     res_bind
       (case (t, value) of
          (Numeric, JString s) \<Rightarrow> Inr (trim s)
        | (Numeric, _) \<Rightarrow> Inl (Refused (''field '' @ sq name @ '': decimal '' @ sq key @
            '' must be a JSON string such as '' @ [DQ] @ ''0.01'' @ [DQ]))
        | (_, JNumber n) \<Rightarrow> Inr (number_text n)
        | _ \<Rightarrow> Inl (Refused (''field '' @ sq name @ '': number '' @ sq key @ '' must be a JSON number'')))
       (\<lambda>text.
          let (negative, digits) =
                (case strip_prefix ''-'' text of Some rest \<Rightarrow> (True, rest) | None \<Rightarrow> (False, text))
          in if \<not> valid_digits digits then
               Inl (Refused (''field '' @ sq name @ '': '' @ sq key @
                 '' must be a finite number written in digits, not '' @ sq text))
             else Inr (if negative then ENeg (ENumber digits) else ENumber digits))"

section \<open>Rules\<close>

definition needs :: "bytes \<Rightarrow> bool \<Rightarrow> bytes \<Rightarrow> bytes \<Rightarrow> rule_error + unit" where
  "needs name ok key what =
     guard ok (Refused (''field '' @ sq name @ '': '' @ sq key @ '' applies to '' @ what @ '' fields''))"

fun prefix_error :: "bytes \<Rightarrow> rule_error \<Rightarrow> rule_error" where
  "prefix_error pre (Refused m) = Refused (pre @ m)"
| "prefix_error pre Panicked = Panicked"

definition push_rule ::
  "externals \<Rightarrow> rule_fields \<Rightarrow> bytes \<Rightarrow> bytes \<Rightarrow> expr \<Rightarrow> rule_error + shorthand list" where
  "push_rule x fs name kind tree =
     res_bind (map_err (prefix_error (''field '' @ sq name @ '': '')) (check_boolean x fs tree)) (\<lambda>t.
       Inr [\<lparr>rule_kind = kind, rule_tree = t\<rparr>])"

definition finite_expr :: "bytes \<Rightarrow> ty \<Rightarrow> expr" where
  "finite_expr name t = EFinite (EField name) (t = Numeric)"

definition bound_step ::
  "externals \<Rightarrow> rule_fields \<Rightarrow> bytes \<Rightarrow> ty \<Rightarrow> bytes \<times> bytes \<times> bin_op \<times> json option \<Rightarrow>
     rule_error + shorthand list" where
  "bound_step x fs name t step =
     (case step of
        (key, kind, op, None) \<Rightarrow> Inr []
      | (key, kind, op, Some value) \<Rightarrow>
          res_bind (needs name (t = FloatTy \<or> t = Numeric) key ''number and decimal'') (\<lambda>_.
            res_bind (bound name key value t) (\<lambda>b.
              push_rule x fs name kind
                (EBinary OpAnd (EBinary op (EField name) b) (finite_expr name t)))))"

definition opt_step :: "'a option \<Rightarrow> ('a \<Rightarrow> 'e + 'b list) \<Rightarrow> 'e + 'b list" where
  "opt_step v f = (case v of None \<Rightarrow> Inr [] | Some y \<Rightarrow> f y)"

definition flag_step :: "bool \<Rightarrow> 'e + 'b list \<Rightarrow> 'e + 'b list" where
  "flag_step b r = (if b then r else Inr [])"

definition steps ::
  "externals \<Rightarrow> rule_fields \<Rightarrow> bytes \<Rightarrow> ty \<Rightarrow> field_rules \<Rightarrow> (rule_error + shorthand list) list" where
  "steps x fs name t r =
     (let this = EField name;
          push = push_rule x fs name;
          need = needs name;
          call = (\<lambda>f a. ECall f [a]);
          number = (\<lambda>n. ENumber (show_nat n));
          is_num = (t = FloatTy \<or> t = Numeric);
          is_text = (t = Text)
      in map (bound_step x fs name t)
           [(''minimum'', ''min'', OpGe, r_minimum r),
            (''maximum'', ''max'', OpLe, r_maximum r),
            (''exclusive_minimum'', ''xmin'', OpGt, r_exclusive_minimum r),
            (''exclusive_maximum'', ''xmax'', OpLt, r_exclusive_maximum r)] @
         [flag_step (r_integer r)
            (res_bind (need is_num ''integer'' ''number and decimal'') (\<lambda>_.
               push ''int'' (EBinary OpAnd (EBinary OpEq this (call FTrunc this)) (finite_expr name t)))),
          opt_step (r_max_scale r) (\<lambda>scale.
            res_bind (need (t = Numeric) ''max_scale'' ''decimal'') (\<lambda>_.
              push ''scale'' (EBinary OpAnd (EBinary OpLe (call FScale this) (number scale)) (finite_expr name t)))),
          (case (r_min_length r, r_max_length r) of
             (Some mn, Some mx) \<Rightarrow>
               if mn > mx then Inl (Refused (''field '' @ sq name @ '': min_length exceeds max_length''))
               else Inr []
           | _ \<Rightarrow> Inr []),
          opt_step (r_min_length r) (\<lambda>mn.
            res_bind (need is_text ''min_length'' ''text'') (\<lambda>_.
              push ''minlen'' (EBinary OpGe (call FLength this) (number mn)))),
          opt_step (r_max_length r) (\<lambda>mx.
            res_bind (need is_text ''max_length'' ''text'') (\<lambda>_.
              push ''maxlen'' (EBinary OpLe (call FLength this) (number mx)))),
          flag_step (r_not_blank r)
            (res_bind (need is_text ''not_blank'' ''text'') (\<lambda>_.
               push ''notblank'' (EBinary OpGt (call FLength (call FBtrim this)) (number 0)))),
          opt_step (r_format r) (\<lambda>format.
            res_bind (need is_text ''format'' ''text'') (\<lambda>_.
              if format \<noteq> ''email'' then
                Inl (Refused (''field '' @ sq name @ '': unknown format '' @ sq format @ ''; supported: email''))
              else push ''format'' (EBinary OpMatch this (EText EMAIL_PATTERN)))),
          opt_step (r_pattern r) (\<lambda>pattern.
            res_bind (need is_text ''pattern'' ''text'') (\<lambda>_.
              push ''pattern'' (EBinary OpMatch this (EText pattern)))),
          opt_step (r_json_type r) (\<lambda>json_type.
            res_bind (need (t = JsonTy) ''json_type'' ''json'') (\<lambda>_.
              if json_type \<notin> set JSON_TYPES then
                Inl (Refused (''field '' @ sq name @ '': json_type must be one of '' @ join '', '' JSON_TYPES))
              else push ''jsontype'' (EBinary OpEq (call FJsonbTypeof this) (EText json_type)))),
          opt_step (r_max_items r) (\<lambda>mx.
            res_bind (need (t = JsonTy) ''max_items'' ''json'') (\<lambda>_.
              push ''maxitems'' (EBinary OpLe (call FJsonbArrayLength this) (number mx))))])"

definition compile_shorthands ::
  "externals \<Rightarrow> rule_fields \<Rightarrow> field_contract \<Rightarrow> ty \<Rightarrow> rule_error + shorthand list" where
  "compile_shorthands x fs field t =
     res_bind (map_res id (steps x fs (f_name field) t (f_rules field))) (\<lambda>rs. Inr (concat rs))"

section \<open>Resolution keeps a tree emittable\<close>

lemma typed_literal_emit_ok: "typed_literal x t v = Inr e \<Longrightarrow> emit_ok e"
  by (auto simp: typed_literal_def split: ty.splits option.splits if_splits)

lemma unify_with_emit_ok: "unify_with x t c what = Inr (e', b) \<Longrightarrow> emit_ok (fst c) \<Longrightarrow> emit_ok e'"
  by (auto simp: unify_with_def split: prod.splits expr.splits ty.splits if_splits dest: typed_literal_emit_ok)

lemma call_type_emit_ok:
  assumes "call_type x f ps = Inr (es, t)" "\<forall>p \<in> set ps. emit_ok (fst p)"
  shows "length es = length ps \<and> (\<forall>e \<in> set es. emit_ok e)"
proof (cases "f = FCoalesce")
  case True
  then obtain p q rest where ps: "ps = p # q # rest"
    using assms(1) by (auto simp: call_type_def Let_def split: list.splits)
  with True assms(1) obtain e b where "unify_with x (snd p) q ''coalesce()'' = Inr (e, b)"
    "es = fst p # e # map fst rest"
    by (cases p) (auto simp: call_type_def Let_def)
  with unify_with_emit_ok assms(2) ps show ?thesis by fastforce
next
  case False
  with assms(1) have "es = map fst ps"
    by (cases ps) (auto simp: call_type_def Let_def split: func.splits)
  with assms(2) show ?thesis by simp
qed

lemma list_all2_right: "list_all2 (\<lambda>i j. P i j) xs ys \<Longrightarrow> (\<And>i j. i \<in> set xs \<Longrightarrow> P i j \<Longrightarrow> Q j) \<Longrightarrow> \<forall>j \<in> set ys. Q j"
  by (induction xs ys rule: list_all2_induct) auto

lemma check_emit_ok: "check x fs e = Inr (e', t) \<Longrightarrow> emit_ok e \<Longrightarrow> emit_ok e'"
proof (induction e arbitrary: e' t)
  case (EBinary op l r)
  obtain l' a where l: "check x fs l = Inr (l', a)" "emit_ok l'" using EBinary by (auto split: if_splits)
  consider "op = OpMatch" | "is_comparison op" | "op \<in> {OpAnd, OpOr, OpAdd, OpSub, OpMul}" by (cases op) auto
  then show ?case
  proof cases
    case 1
    with EBinary.prems l show ?thesis by (cases r) auto
  next
    case 2
    then have op: "op \<noteq> OpAnd" "op \<noteq> OpOr" by auto
    obtain r' b where r: "check x fs r = Inr (r', b)" "emit_ok r'"
      using EBinary l op 2 by (auto split: if_splits)
    then show ?thesis
      using EBinary.prems(1) l op 2 unify_with_emit_ok [of x b "(l', a)"] unify_with_emit_ok [of x a "(r', b)"]
      by (auto split: if_splits)
  next
    case 3
    with EBinary l show ?thesis by auto
  qed
next
  case (EBetween e lo hi n)
  then show ?case by (auto dest!: unify_with_emit_ok)
next
  case (EIn e items n)
  obtain e1 ety items' where c: "check x fs e = Inr (e1, ety)" "e' = EIn e1 items' n"
    and items: "list_all2 (\<lambda>i j. is_literal i \<and>
      (\<exists>c u. check x fs i = Inr c \<and> unify_with x ety c ''IN'' = Inr (j, u))) items items'"
    using EIn.prems(1) by (auto simp: map_res_Inr intro: list_all2_mono)
  from items have "\<forall>j \<in> set items'. emit_ok j"
  proof (rule list_all2_right)
    fix i j assume i: "i \<in> set items" "is_literal i \<and>
      (\<exists>c u. check x fs i = Inr c \<and> unify_with x ety c ''IN'' = Inr (j, u))"
    then obtain d a u where "check x fs i = Inr (d, a)" "unify_with x ety (d, a) ''IN'' = Inr (j, u)" by auto
    with EIn.IH(2) [OF i(1)] EIn.prems(2) i(1) unify_with_emit_ok show "emit_ok j" by fastforce
  qed
  with EIn c show ?case by auto
next
  case (ECall f args)
  then obtain rs es where rs: "list_all2 (\<lambda>a r. check x fs a = Inr r) args rs"
    "call_type x f rs = Inr (es, t)" "e' = ECall f es" by (auto simp: map_res_Inr)
  from rs(1) have "\<forall>p \<in> set rs. emit_ok (fst p)"
  proof (rule list_all2_right)
    fix a r assume a: "a \<in> set args" "check x fs a = Inr r"
    then show "emit_ok (fst r)"
      using ECall.IH [OF a(1), of "fst r" "snd r"] ECall.prems(2) by auto
  qed
  with call_type_emit_ok [OF rs(2)] rs list_all2_lengthD [OF rs(1)] ECall.prems(2) show ?case by auto
qed (auto split: option.splits)

section \<open>What the shorthands compile to\<close>

lemma valid_digits_ok: "valid_digits v \<Longrightarrow> digits_ok v"
proof -
  assume v: "valid_digits v"
  define w where "w = takeWhile (\<lambda>c. c \<noteq> CHR ''.'') v"
  define r where "r = dropWhile (\<lambda>c. c \<noteq> CHR ''.'') v"
  have vwr: "v = w @ r" by (simp add: w_def r_def)
  have w: "w \<noteq> []" "list_all is_digit w" using v by (auto simp: valid_digits_def split_dot_def w_def Let_def)
  show ?thesis
  proof (cases r)
    case Nil
    with w vwr show ?thesis by (simp add: digits_ok_whole)
  next
    case (Cons c f)
    then have "c = CHR ''.''" unfolding r_def by (metis (mono_tags, lifting) dropWhile_eq_Cons_conv)
    moreover have "f \<noteq> []" "list_all is_digit f"
      using v Cons by (auto simp: valid_digits_def split_dot_def r_def Let_def)
    ultimately show ?thesis using digits_ok_fraction [OF w, of f] vwr Cons by simp
  qed
qed

lemma bound_tree: "bound name key v t = Inr e \<Longrightarrow> source_tree e \<and> emit_ok e \<and> mentions e = {}"
  by (auto simp: bound_def Let_def valid_digits_ok split: ty.splits json.splits option.splits if_splits)

lemma show_nat_digits_ok: "digits_ok (show_nat n)"
  by (rule digits_ok_whole) (auto simp: show_nat_nonempty list_all_iff show_nat_digits)

text \<open>A step yields nothing, or the resolved form of a rule on this field alone, under its kind.\<close>

definition step_ok :: "externals \<Rightarrow> rule_fields \<Rightarrow> bytes \<Rightarrow> bytes \<Rightarrow> rule_error + shorthand list \<Rightarrow> bool" where
  "step_ok x fs name kind r \<longleftrightarrow>
     (case r of
        Inl e \<Rightarrow> e \<noteq> Panicked
      | Inr rs \<Rightarrow> rs = [] \<or> (\<exists>raw tree. rs = [\<lparr>rule_kind = kind, rule_tree = tree\<rparr>] \<and>
          check_boolean x fs raw = Inr tree \<and> source_tree raw \<and> emit_ok raw \<and> mentions raw = {name}))"

lemma step_ok_simps [simp]: "step_ok x fs name kind (Inr [])" "step_ok x fs name kind (Inl (Refused m))"
  by (simp_all add: step_ok_def)

lemma check_boolean_no_panic: "source_tree e \<Longrightarrow> check_boolean x fs e \<noteq> Inl Panicked"
  using check_no_panic [of e x fs] by (auto simp: check_boolean_def res_bind_eq_Inl split: if_splits)

lemma step_ok_push:
  assumes "source_tree raw" "emit_ok raw" "mentions raw = {name}"
  shows "step_ok x fs name kind (push_rule x fs name kind raw)"
proof (cases "check_boolean x fs raw")
  case (Inl e)
  then show ?thesis using check_boolean_no_panic [OF assms(1), of x fs]
    by (cases e) (auto simp: push_rule_def)
next
  case (Inr t)
  with assms show ?thesis by (auto simp: push_rule_def step_ok_def)
qed

lemma step_ok_needs: "step_ok x fs name kind r \<Longrightarrow> step_ok x fs name kind (res_bind (needs n ok k w) (\<lambda>_. r))"
  by (cases ok) (auto simp: needs_def)

lemma step_ok_opt: "(\<And>y. v = Some y \<Longrightarrow> step_ok x fs name kind (f y)) \<Longrightarrow> step_ok x fs name kind (opt_step v f)"
  by (cases v) (auto simp: opt_step_def)

lemma step_ok_flag: "step_ok x fs name kind r \<Longrightarrow> step_ok x fs name kind (flag_step b r)"
  by (simp add: flag_step_def)

lemma bound_no_panic: "bound name key v t \<noteq> Inl Panicked"
  by (auto simp: bound_def Let_def res_bind_eq_Inl split: ty.splits json.splits option.splits if_splits)

lemma step_ok_bound: "step_ok x fs name kind (bound_step x fs name t (key, kind, op, v))"
proof (cases v)
  case None
  then show ?thesis by (simp add: bound_step_def)
next
  case (Some w)
  have "step_ok x fs name kind (res_bind (bound name key w t) (\<lambda>b. push_rule x fs name kind
      (EBinary OpAnd (EBinary op (EField name) b) (finite_expr name t))))"
  proof (cases "bound name key w t")
    case (Inl e)
    then show ?thesis using bound_no_panic [of name key w t] by (cases e) auto
  next
    case (Inr b)
    with bound_tree [OF Inr] show ?thesis by (auto simp: finite_expr_def intro!: step_ok_push)
  qed
  with Some show ?thesis by (auto simp: bound_step_def intro: step_ok_needs)
qed

definition kinds :: "bytes list" where
  "kinds = [''min'', ''max'', ''xmin'', ''xmax'', ''int'', ''scale'', [], ''minlen'', ''maxlen'', ''notblank'',
     ''format'', ''pattern'', ''jsontype'', ''maxitems'']"

lemma steps_ok: "list_all2 (step_ok x fs name) kinds (steps x fs name t r)"
  unfolding steps_def kinds_def Let_def
  by (auto simp: step_ok_bound arity_def finite_expr_def show_nat_digits_ok split: option.splits
      intro!: step_ok_opt step_ok_flag step_ok_needs step_ok_push)

lemma map_res_id_Inr: "map_res id rs = Inr ys \<longleftrightarrow> rs = map Inr ys"
  by (induction rs arbitrary: ys) (auto simp: Cons_eq_map_conv)

lemma kinds_distinct: "distinct kinds"
  by (simp add: kinds_def)

lemma steps_kinds:
  "list_all2 (step_ok x fs name) ks (map Inr rss) \<Longrightarrow> distinct ks \<Longrightarrow>
     distinct (map rule_kind (concat rss)) \<and> rule_kind ` set (concat rss) \<subseteq> set ks \<and>
     (\<forall>r \<in> set (concat rss). \<exists>raw. check_boolean x fs raw = Inr (rule_tree r) \<and> source_tree raw \<and>
        emit_ok raw \<and> mentions raw = {name})"
proof (induction ks arbitrary: rss)
  case (Cons k ks)
  then obtain rs rss' where rss: "rss = rs # rss'" "step_ok x fs name k (Inr rs)"
    "list_all2 (step_ok x fs name) ks (map Inr rss')"
    by (auto simp: list_all2_Cons1 Cons_eq_map_conv map_eq_Cons_conv)
  have "k \<notin> rule_kind ` set (concat rss')" using Cons.IH [OF rss(3)] Cons.prems(2) by auto
  with Cons.IH [OF rss(3)] Cons.prems(2) rss(1,2) show ?case
    by (auto simp: step_ok_def)
qed simp

lemma compile_shorthands_rules:
  assumes "compile_shorthands x fs field t = Inr out"
  shows "distinct (map rule_kind out)"
    and "r \<in> set out \<Longrightarrow> \<exists>raw. check_boolean x fs raw = Inr (rule_tree r) \<and> source_tree raw \<and>
      emit_ok raw \<and> mentions raw = {f_name field}"
proof -
  obtain rss where rss: "steps x fs (f_name field) t (f_rules field) = map Inr rss" "out = concat rss"
    using assms by (auto simp: compile_shorthands_def map_res_id_Inr)
  have "list_all2 (step_ok x fs (f_name field)) kinds (map Inr rss)"
    using steps_ok [of x fs "f_name field" t "f_rules field"] rss(1) by simp
  from steps_kinds [OF this kinds_distinct] rss(2)
  show "distinct (map rule_kind out)" "r \<in> set out \<Longrightarrow> \<exists>raw. check_boolean x fs raw = Inr (rule_tree r) \<and>
      source_tree raw \<and> emit_ok raw \<and> mentions raw = {f_name field}"
    by auto
qed

lemma check_boolean_Inr: "check_boolean x fs e = Inr e' \<longleftrightarrow> check x fs e = Inr (e', Bool)"
  by (auto simp: check_boolean_def split: if_splits)

text \<open>
  C30: the shorthands of a field compile to well-typed conditions on that field alone, one for each
  kind at most, that can be emitted; compiling them never panics.
\<close>
theorem compile_shorthands_single_field:
  "compile_shorthands x fs field t \<noteq> Inl Panicked \<and>
   (\<forall>out. compile_shorthands x fs field t = Inr out \<longrightarrow>
      distinct (map rule_kind out) \<and>
      (\<forall>r \<in> set out. typed x fs (rule_tree r) Bool \<and> mentions (rule_tree r) = {f_name field} \<and>
         emit_ok (rule_tree r)))"
proof (intro conjI allI impI)
  have "map_res id rs \<noteq> Inl Panicked" if "list_all2 (step_ok x fs n) ks rs" for n ks rs
    using that by (induction ks rs rule: list_all2_induct) (auto simp: step_ok_def res_bind_eq_Inl)
  from this [OF steps_ok] show "compile_shorthands x fs field t \<noteq> Inl Panicked"
    by (auto simp: compile_shorthands_def res_bind_eq_Inl)
next
  fix out assume out: "compile_shorthands x fs field t = Inr out"
  show "distinct (map rule_kind out)" by (rule compile_shorthands_rules(1) [OF out])
  show "\<forall>r \<in> set out. typed x fs (rule_tree r) Bool \<and> mentions (rule_tree r) = {f_name field} \<and>
      emit_ok (rule_tree r)"
    using compile_shorthands_rules(2) [OF out] check_sound check_emit_ok
    by (metis check_boolean_Inr)
qed

theorem compile_shorthands_single_field_witness:
  "\<forall>x. \<exists>out. compile_shorthands x [(''qty'', \<lparr>rf_ty = FloatTy, rf_sensitive = False, rf_pg = ''DOUBLE PRECISION''\<rparr>)]
     (default_field\<lparr>f_name := ''qty'', f_rules := default_rules\<lparr>r_integer := True\<rparr>\<rparr>) FloatTy = Inr out \<and>
     distinct (map rule_kind out)"
proof
  fix x
  let ?fs = "[(''qty'', \<lparr>rf_ty = FloatTy, rf_sensitive = False, rf_pg = ''DOUBLE PRECISION''\<rparr>)]"
  let ?f = "default_field\<lparr>f_name := ''qty'', f_rules := default_rules\<lparr>r_integer := True\<rparr>\<rparr>"
  have "\<exists>out. compile_shorthands x ?fs ?f FloatTy = Inr out"
    by (simp add: compile_shorthands_def steps_def Let_def bound_step_def default_rules_def default_field_def
        flag_step_def opt_step_def needs_def push_rule_def check_boolean_def call_type_def finite_expr_def
        check_order_def unify_with_def compatible_def numeric_def orderable_def expect_def)
  then obtain out where "compile_shorthands x ?fs ?f FloatTy = Inr out" ..
  then show "\<exists>out. compile_shorthands x ?fs ?f FloatTy = Inr out \<and> distinct (map rule_kind out)"
    using compile_shorthands_single_field [of x ?fs ?f FloatTy] by blast
qed

end
