(* ===== verification/Rule_Names.thy ===== *)
theory Rule_Names
  imports Rule_Shorthand "HOL-Library.Word"
begin

text \<open>
  Names and tags of compiled rules: the FNV-1a tag and the index names of older Cores, from
  \<open>schema_sync.rs\<close> and \<open>rules/mod.rs\<close>, and the canonical JSON of a tree behind the new tags.
  \<open>u64\<close> arithmetic is on 64-bit words.
\<close>

unbundle bit_operations_syntax

section \<open>Hashes\<close>

definition fnv1a :: "bytes \<Rightarrow> 64 word" where
  "fnv1a s = fold (\<lambda>b h. (h XOR of_nat (byte b)) * 0x100000001b3) s 0xcbf29ce484222325"

fun hex_digits :: "nat \<Rightarrow> nat \<Rightarrow> bytes" where
  "hex_digits 0 n = []"
| "hex_digits (Suc k) n = hex_digits k (n div 16) @ [hex_digit (n mod 16)]"

text \<open>\<open>{h:016x}\<close>\<close>

definition fnv1a_hex :: "bytes \<Rightarrow> bytes" where
  "fnv1a_hex s = hex_digits 16 (unat (fnv1a s))"

definition legacy_check_tag :: "bytes \<Rightarrow> bytes" where
  "legacy_check_tag expr = fnv1a_hex (join '' '' (split_whitespace expr))"

text \<open>\<open>{:x}\<close>\<close>

definition show_hex :: "nat \<Rightarrow> bytes" where
  "show_hex n = (if n = 0 then ''0'' else dropWhile (\<lambda>c. c = CHR ''0'') (hex_digits 16 n))"

section \<open>Legacy index identity\<close>

definition column_spec_text :: "index_column \<Rightarrow> bytes" where
  "column_spec_text c =
     (case c of
        CName n \<Rightarrow> n
      | CSpec sp \<Rightarrow>
          concat (map (\<lambda>f. (case f of Some v \<Rightarrow> v | None \<Rightarrow> []) @ '':'')
            [sp_column sp, sp_expr sp, sp_sort sp, sp_nulls sp, sp_ops sp])) @ '',''"

definition index_spec_hash :: "index_contract \<Rightarrow> bytes" where
  "index_spec_hash idx =
     fnv1a_hex
       ((if ix_unique idx then ''u|'' else ''_|'') @
        (case ix_using idx of Some u \<Rightarrow> u | None \<Rightarrow> ''btree'') @ ''|'' @
        concat (map column_spec_text (ix_columns idx)) @ ''|'' @
        (case ix_where idx of Some w \<Rightarrow> w | None \<Rightarrow> []) @ ''|'' @
        concat (map (\<lambda>(k, v). k @ ''='' @ v @ '';'') (ix_with idx)))"

text \<open>The scalar value of one UTF-8 encoded character.\<close>

definition code_point :: "bytes \<Rightarrow> nat" where
  "code_point ch =
     (case ch of
        [] \<Rightarrow> 0
      | c # cs \<Rightarrow>
          fold (\<lambda>d n. n * 64 + byte d mod 64) cs
            (if cs = [] then byte c
             else if length cs = 1 then byte c mod 32
             else if length cs = 2 then byte c mod 16
             else byte c mod 8))"

text \<open>\<open>impl Debug for str\<close>, one character.\<close>

definition debug_char :: "externals \<Rightarrow> bytes \<Rightarrow> bytes" where
  "debug_char x ch =
     (let escaped = [BSLASH] @ ''u{'' @ show_hex (code_point ch) @ ''}'' in
      if ch = [NUL] then [BSLASH] @ ''0''
      else if ch = [CHR 0x09] then [BSLASH] @ ''t''
      else if ch = [CHR 0x0A] then [BSLASH] @ ''n''
      else if ch = [CHR 0x0D] then [BSLASH] @ ''r''
      else if ch = [DQ] then [BSLASH, DQ]
      else if ch = [BSLASH] then [BSLASH, BSLASH]
      else if length ch = 1 \<and> (byte (hd ch) < 32 \<or> byte (hd ch) = 127) then escaped
      else if length ch > 1 \<and> x_unicode_escaped x ch then escaped
      else ch)"

definition debug_str :: "externals \<Rightarrow> bytes \<Rightarrow> bytes" where
  "debug_str x s = [DQ] @ concat (map (debug_char x) (utf8_chars s)) @ [DQ]"

definition index_parts :: "index_contract \<Rightarrow> bytes list" where
  "index_parts idx =
     map (\<lambda>c. case c of
         CName n \<Rightarrow> n
       | CSpec s \<Rightarrow> (case sp_column s of Some n \<Rightarrow> n | None \<Rightarrow> ''expr'')) (ix_columns idx)"

definition name_hash :: "bytes \<Rightarrow> 64 word" where
  "name_hash s = fold (\<lambda>b h. h * 31 + of_nat (byte b)) s 0"

definition resolve_index_name :: "externals \<Rightarrow> bytes \<Rightarrow> index_contract \<Rightarrow> bytes" where
  "resolve_index_name x entity idx =
     (case ix_name idx of
        Some n \<Rightarrow> n
      | None \<Rightarrow>
          (let parts = index_parts idx;
               text = ''['' @ join '', '' (map (debug_str x) parts) @ '']'' @
                 (if ix_unique idx then ''true'' else ''false'') @
                 (case ix_where idx of Some w \<Rightarrow> ''Some('' @ debug_str x w @ '')'' | None \<Rightarrow> ''None'');
               base = ''ix_'' @ entity @ ''_'' @ join ''_'' parts @ (if ix_unique idx then ''_uq'' else []);
               suffix = ''_'' @ show_hex (unat (name_hash text AND 0xffffff))
           in concat (take (63 - length suffix) (utf8_chars base)) @ suffix))"

lemma length_hex_digits [simp]: "length (hex_digits k n) = k"
  by (induction k arbitrary: n) auto

section \<open>Canonical JSON\<close>

fun op_json :: "bin_op \<Rightarrow> bytes" where
  "op_json OpOr = ''or''" | "op_json OpAnd = ''and''" | "op_json OpEq = ''eq''" | "op_json OpNe = ''ne''"
| "op_json OpLt = ''lt''" | "op_json OpLe = ''le''" | "op_json OpGt = ''gt''" | "op_json OpGe = ''ge''"
| "op_json OpMatch = ''match''" | "op_json OpAdd = ''add''" | "op_json OpSub = ''sub''" | "op_json OpMul = ''mul''"

fun literal_json :: "literal_type \<Rightarrow> bytes" where
  "literal_json LDate = ''date''" | "literal_json LTimestamp = ''timestamp''" | "literal_json LUuid = ''uuid''"

text \<open>\<open>#[serde(tag = "k", rename_all = "snake_case")]\<close> on \<open>Expr\<close>; the names of the functions and
  units in snake case are their SQL names. Keys are in the order of the map.\<close>

fun expr_json :: "expr \<Rightarrow> json" where
  "expr_json (EField name) = JObject [(''k'', JString ''field''), (''name'', JString name)]"
| "expr_json (EText v) = JObject [(''k'', JString ''text''), (''value'', JString v)]"
| "expr_json (ENumber v) = JObject [(''k'', JString ''number''), (''value'', JString v)]"
| "expr_json (EBool v) = JObject [(''k'', JString ''bool''), (''value'', JBool v)]"
| "expr_json (ETyped t v) =
     JObject [(''k'', JString ''typed''), (''ty'', JString (literal_json t)), (''value'', JString v)]"
| "expr_json (EInterval n u) =
     JObject [(''amount'', JNumber (PosInt n)), (''k'', JString ''interval''), (''unit'', JString (unit_str u))]"
| "expr_json (ENot e) = JObject [(''e'', expr_json e), (''k'', JString ''not'')]"
| "expr_json (ENeg e) = JObject [(''e'', expr_json e), (''k'', JString ''neg'')]"
| "expr_json (EBinary op l r) =
     JObject [(''k'', JString ''binary''), (''l'', expr_json l), (''op'', JString (op_json op)), (''r'', expr_json r)]"
| "expr_json (EIsNull e n) = JObject [(''e'', expr_json e), (''k'', JString ''is_null''), (''negated'', JBool n)]"
| "expr_json (EBetween e lo hi n) =
     JObject [(''e'', expr_json e), (''hi'', expr_json hi), (''k'', JString ''between''), (''lo'', expr_json lo),
       (''negated'', JBool n)]"
| "expr_json (EIn e items n) =
     JObject [(''e'', expr_json e), (''k'', JString ''in''), (''list'', JArray (map expr_json items)),
       (''negated'', JBool n)]"
| "expr_json (ECall f args) =
     JObject [(''args'', JArray (map expr_json args)), (''func'', JString (sql_name f)), (''k'', JString ''call'')]"
| "expr_json (EArrayWithin name vs) =
     JObject [(''field'', JString name), (''k'', JString ''array_within''), (''values'', JArray (map JString vs))]"
| "expr_json (EFinite e n) =
     JObject [(''e'', expr_json e), (''k'', JString ''finite''), (''numeric'', JBool n)]"

lemma op_json_inject: "op_json a = op_json b \<Longrightarrow> a = b"
  by (cases a; cases b) simp_all

lemma sql_name_inject: "sql_name a = sql_name b \<Longrightarrow> a = b"
  by (cases a; cases b) simp_all

lemma literal_json_inject: "literal_json a = literal_json b \<Longrightarrow> a = b"
  by (cases a; cases b) simp_all

lemma unit_str_inject: "unit_str a = unit_str b \<Longrightarrow> a = b"
  by (cases a; cases b) simp_all

lemma map_inject_on: "map f xs = map f ys \<Longrightarrow> (\<And>x y. x \<in> set xs \<Longrightarrow> f x = f y \<Longrightarrow> x = y) \<Longrightarrow> xs = ys"
  by (induction xs arbitrary: ys) (auto simp: Cons_eq_map_conv)

text \<open>
  The canonical JSON of a rule identifies it: two trees with the same canonical form are the
  same tree, so a change of a rule changes what its tag is computed from.
\<close>
theorem expr_json_inject: "expr_json e = expr_json e' \<longleftrightarrow> e = e'"
proof
  show "expr_json e = expr_json e' \<Longrightarrow> e = e'"
  proof (induction e arbitrary: e')
    case (EIn e items n)
    then show ?case by (cases e') (auto dest!: map_inject_on)
  next
    case (ECall f args)
    then show ?case by (cases e') (auto dest!: map_inject_on sql_name_inject)
  next
    case (EArrayWithin name vs)
    then show ?case by (cases e') (auto dest!: map_inject_on [where f = JString])
  next
    case (EBinary op l r)
    then show ?case by (cases e') (auto dest: op_json_inject)
  next
    case (ETyped t v)
    then show ?case by (cases e') (auto dest: literal_json_inject)
  next
    case (EInterval n u)
    then show ?case by (cases e') (auto dest: unit_str_inject)
  next
    case (EField n) then show ?case by (cases e') auto
  next
    case (EText n) then show ?case by (cases e') auto
  next
    case (ENumber n) then show ?case by (cases e') auto
  next
    case (EBool n) then show ?case by (cases e') auto
  next
    case (ENot n) then show ?case by (cases e') auto
  next
    case (ENeg n) then show ?case by (cases e') auto
  next
    case (EIsNull n) then show ?case by (cases e') auto
  next
    case (EBetween n) then show ?case by (cases e') auto
  next
    case (EFinite n) then show ?case by (cases e') auto
  qed
qed simp



end
