(* ===== verification/Rule_Compile.thy ===== *)
theory Rule_Compile
  imports Rule_Names
begin

text \<open>
  Compilation of an entity's rules, from \<open>rules/mod.rs\<close>: \<open>compile_entity\<close> parses, resolves and emits
  every check and index an entity declares, and refuses the whole entity at the first error.
  \<open>parse_rule\<close> maps the parser's out-of-fuel value, which it never returns, to a panic.
\<close>

definition GRAMMAR_VERSION :: bytes where "GRAMMAR_VERSION = ''r1''"
definition MAX_CHECKS :: nat where "MAX_CHECKS = 64"
definition MAX_INDEXES :: nat where "MAX_INDEXES = 64"

datatype origin = OCheck bytes | OEnum bytes | OShorthand

record compiled_check =
  cc_name :: bytes
  cc_sql :: bytes
  cc_tag :: bytes
  cc_legacy_tag :: "bytes option"
  cc_origin :: origin

record compiled_index =
  ci_name :: bytes
  ci_unique :: bool
  ci_trigram :: bool
  ci_method :: bytes
  ci_keys :: "bytes list"
  ci_key_values :: "bytes list"
  ci_predicate :: "bytes option"
  ci_tag :: bytes
  ci_legacy_tag :: bytes
  ci_declared :: index_contract
  ci_columns :: "bytes list"

record entity_rules =
  er_checks :: "compiled_check list"
  er_indexes :: "compiled_index list"

definition create_sql :: "compiled_index \<Rightarrow> bytes \<Rightarrow> bytes \<Rightarrow> bytes \<Rightarrow> bool \<Rightarrow> bytes \<Rightarrow> bytes" where
  "create_sql ci schema table name concurrently trigram =
     (let keys =
            (if ci_trigram ci then
               map (\<lambda>col. quote_ident col @ '' '' @ quote_ident trigram @ ''.gin_trgm_ops'') (ci_columns ci)
             else ci_keys ci)
      in ''CREATE '' @ (if ci_unique ci then ''UNIQUE '' else []) @ ''INDEX '' @
         (if concurrently then ''CONCURRENTLY '' else []) @ quote_ident name @ '' ON '' @
         quote_ident schema @ ''.'' @ quote_ident table @ '' USING '' @ ci_method ci @ '' ('' @
         join '', '' keys @ '')'' @
         (case ci_predicate ci of Some p \<Rightarrow> '' WHERE '' @ p | None \<Rightarrow> []))"

section \<open>Fields, scope and tags\<close>

definition unwrap :: "'a option \<Rightarrow> rule_error + 'a" where
  "unwrap v = (case v of Some y \<Rightarrow> Inr y | None \<Rightarrow> Inl Panicked)"

definition rule_field_of :: "field_type \<Rightarrow> bool \<Rightarrow> rule_field" where
  "rule_field_of t sensitive = \<lparr>rf_ty = ty_of t, rf_sensitive = sensitive, rf_pg = postgres_type t\<rparr>"

text \<open>\<open>fields.entry(name).or_insert(f)\<close>\<close>

definition or_insert :: "bytes \<times> rule_field \<Rightarrow> rule_fields \<Rightarrow> rule_fields" where
  "or_insert kv fs = (if map_of fs (fst kv) = None then fs @ [kv] else fs)"

definition rule_field_types :: "externals \<Rightarrow> entity_contract \<Rightarrow> rule_error + rule_fields" where
  "rule_field_types x e =
     res_bind (map_res (\<lambda>f.
         res_bind (map_err Refused (from_field (x_big_decimal x) f)) (\<lambda>t.
           Inr (f_name f, rule_field_of t (f_sensitive f)))) (e_fields e)) (\<lambda>kvs.
       Inr (fold or_insert
         [(''id'', rule_field_of TyUuid False), (''created_at'', rule_field_of TyTimestamp False),
          (''updated_at'', rule_field_of TyTimestamp False)]
         (map_extend [] kvs)))"

definition is_sensitive :: "rule_fields \<Rightarrow> bytes \<Rightarrow> bool" where
  "is_sensitive fs name = (case map_of fs name of Some f \<Rightarrow> rf_sensitive f | None \<Rightarrow> False)"

definition sensitive_scope :: "expr \<Rightarrow> rule_fields \<Rightarrow> bool \<Rightarrow> rule_error + unit" where
  "sensitive_scope e fs index =
     (let used = expr_fields e [] in
      case List.find (is_sensitive fs) used of
        None \<Rightarrow> Inr ()
      | Some name \<Rightarrow>
          if index then
            Inl (Refused (''field '' @ sq name @
              '' is sensitive; index predicates and expressions cannot use it''))
          else if length used > 1 then
            Inl (Refused (''field '' @ sq name @ '' is sensitive; it can only appear in single-field rules''))
          else Inr ())"

definition digest_tag :: "externals \<Rightarrow> json \<Rightarrow> bytes" where
  "digest_tag x canonical =
     GRAMMAR_VERSION @ ''-'' @ hex_encode (take 8 (x_sha256 x (x_json_text x canonical)))"

definition type_json :: "bytes \<times> bytes \<Rightarrow> json" where
  "type_json p = JArray [JString (fst p), JString (snd p)]"

definition rule_tag :: "externals \<Rightarrow> bytes \<Rightarrow> expr \<Rightarrow> rule_fields \<Rightarrow> rule_error + bytes" where
  "rule_tag x kind resolved fs =
     res_bind (map_res (\<lambda>name. res_bind (unwrap (map_of fs name)) (\<lambda>f. Inr (name, rf_pg f)))
         (sort_unstable (expr_fields resolved []))) (\<lambda>types.
       Inr (digest_tag x (JArray [JString GRAMMAR_VERSION, JString kind, expr_json resolved,
         JArray (map type_json types)])))"

section \<open>Checks\<close>

definition enum_check ::
  "externals \<Rightarrow> entity_contract \<Rightarrow> field_contract \<Rightarrow> rule_fields \<Rightarrow> rule_error + compiled_check list" where
  "enum_check x e field fs =
     (case f_enum_values field of
        None \<Rightarrow> Inr []
      | Some values \<Rightarrow>
          if values = [] then Inr []
          else
            res_bind (map_err Refused (from_field (x_big_decimal x) field)) (\<lambda>t.
              let resolved =
                    (case t of
                       TyTextArray \<Rightarrow> EArrayWithin (f_name field) values
                     | _ \<Rightarrow> EIn (EField (f_name field)) (map EText values) False)
              in res_bind (unwrap (fit_ident (x_sha256 x) (''chk_'' @ e_name e @ ''_'' @ f_name field))) (\<lambda>name.
                   res_bind (unwrap (sql resolved)) (\<lambda>s.
                     res_bind (rule_tag x ''chk'' resolved fs) (\<lambda>tag.
                       Inr [\<lparr>cc_name = name, cc_sql = s, cc_tag = tag,
                             cc_legacy_tag = map_option legacy_check_tag (enum_check_expr (x_big_decimal x) field),
                             cc_origin = OEnum (f_name field)\<rparr>])))))"

definition shorthand_check ::
  "externals \<Rightarrow> entity_contract \<Rightarrow> field_contract \<Rightarrow> rule_fields \<Rightarrow> shorthand \<Rightarrow> rule_error + compiled_check" where
  "shorthand_check x e field fs rule =
     res_bind (unwrap (fit_ident (x_sha256 x)
         (''chk_'' @ e_name e @ ''_'' @ f_name field @ ''_'' @ rule_kind rule))) (\<lambda>name.
       res_bind (unwrap (sql (rule_tree rule))) (\<lambda>s.
         res_bind (rule_tag x ''chk'' (rule_tree rule) fs) (\<lambda>tag.
           Inr \<lparr>cc_name = name, cc_sql = s, cc_tag = tag, cc_legacy_tag = None, cc_origin = OShorthand\<rparr>)))"

definition field_checks ::
  "externals \<Rightarrow> entity_contract \<Rightarrow> rule_fields \<Rightarrow> field_contract \<Rightarrow> rule_error + compiled_check list" where
  "field_checks x e fs field =
     res_bind (enum_check x e field fs) (\<lambda>enums.
       res_bind (unwrap (map_of fs (f_name field))) (\<lambda>f.
         res_bind (compile_shorthands x fs field (rf_ty f)) (\<lambda>rules.
           res_bind (map_res (shorthand_check x e field fs) rules) (\<lambda>cs. Inr (enums @ cs)))))"

definition parse_rule :: "bytes \<Rightarrow> bytes \<Rightarrow> rule_error + expr" where
  "parse_rule pre src =
     (case parse src of
        Inr e \<Rightarrow> Inr e
      | Inl (Syntax s) \<Rightarrow> Inl (Refused (pre @ show_error s))
      | Inl OutOfFuel \<Rightarrow> Inl Panicked)"

definition declared_check ::
  "externals \<Rightarrow> rule_fields \<Rightarrow> nat \<times> check_contract \<Rightarrow> rule_error + compiled_check" where
  "declared_check x fs ic =
     (let (i, check) = ic;
          label = (case ck_name check of Some n \<Rightarrow> n | None \<Rightarrow> show_nat i);
          pre = ''checks['' @ label @ ''].expr ''
      in case ck_name check of
           None \<Rightarrow> Inl (Refused (''checks['' @ show_nat i @ '']: every check needs a '' @ sq ''name''))
         | Some name \<Rightarrow>
             res_bind (map_err Refused (validate_new_ident name ''check name'')) (\<lambda>_.
               res_bind (parse_rule pre (ck_expr check)) (\<lambda>parsed.
                 res_bind (map_err (prefix_error pre) (check_boolean x fs parsed)) (\<lambda>resolved.
                   res_bind (map_err (prefix_error pre) (sensitive_scope resolved fs False)) (\<lambda>_.
                     res_bind (rule_tag x ''chk'' resolved fs) (\<lambda>tag.
                       res_bind (unwrap (sql resolved)) (\<lambda>s.
                         Inr \<lparr>cc_name = name, cc_sql = s, cc_tag = tag,
                              cc_legacy_tag = Some (legacy_check_tag (ck_expr check)),
                              cc_origin = OCheck (ck_expr check)\<rparr>)))))))"

text \<open>The first name that is already taken, in the order of the list.\<close>

fun first_duplicate :: "bytes list \<Rightarrow> bytes list \<Rightarrow> bytes option" where
  "first_duplicate seen [] = None"
| "first_duplicate seen (n # ns) = (if n \<in> set seen then Some n else first_duplicate (n # seen) ns)"

section \<open>Indexes\<close>

definition column_value :: "bytes \<Rightarrow> rule_fields \<Rightarrow> rule_error + bytes" where
  "column_value name fs =
     (if \<not> is_system_field name \<and> map_of fs name = None then
        Inl (Refused (''column '' @ sq name @ '' is not a declared or system field''))
      else Inr (quote_ident name))"

definition opt_json :: "bytes option \<Rightarrow> json" where
  "opt_json v = (case v of Some s \<Rightarrow> JString s | None \<Rightarrow> JNull)"

text \<open>The value, tree, sort and nulls of one index column.\<close>

definition index_key ::
  "externals \<Rightarrow> rule_fields \<Rightarrow> index_column \<Rightarrow> rule_error + (bytes \<times> json \<times> bytes option \<times> bytes option)" where
  "index_key x fs col =
     (case col of
        CName name \<Rightarrow> res_bind (column_value name fs) (\<lambda>v. Inr (v, JString name, None, None))
      | CSpec spec \<Rightarrow>
          if sp_ops spec \<noteq> None then
            Inl (Refused (''operator classes ('' @ sq ''ops'' @ '') are not allowed; use '' @ [DQ] @ ''using'' @
              [DQ] @ '': '' @ [DQ] @ ''trigram'' @ [DQ] @ '' for trigram search''))
          else
            res_bind
              (case (sp_column spec, sp_expr spec) of
                 (Some name, None) \<Rightarrow> res_bind (column_value name fs) (\<lambda>v. Inr (v, JString name))
               | (None, Some e) \<Rightarrow>
                   res_bind (parse_rule ''expr '' e) (\<lambda>parsed.
                     res_bind (map_err (prefix_error ''expr '') (check_scalar x fs parsed)) (\<lambda>resolved.
                       res_bind (sensitive_scope resolved fs True) (\<lambda>_.
                         res_bind (unwrap (sql resolved)) (\<lambda>s.
                           Inr (''('' @ s @ '')'', expr_json resolved)))))
               | (Some _, Some _) \<Rightarrow>
                   Inl (Refused (''a column has both '' @ sq ''column'' @ '' and '' @ sq ''expr''))
               | (None, None) \<Rightarrow>
                   Inl (Refused (''a column has neither '' @ sq ''column'' @ '' nor '' @ sq ''expr'')))
              (\<lambda>(value, tree). Inr (value, tree, sp_sort spec, sp_nulls spec)))"

text \<open>The plain text column a trigram index needs.\<close>

definition trigram_column :: "rule_fields \<Rightarrow> index_column \<Rightarrow> rule_error + bytes" where
  "trigram_column fs col =
     (let name =
            (case col of
               CName n \<Rightarrow> Some n
             | CSpec sp \<Rightarrow>
                 if sp_expr sp = None \<and> sp_sort sp = None \<and> sp_nulls sp = None then sp_column sp else None)
      in case name of
           None \<Rightarrow> Inl (Refused ''trigram indexes take plain text columns'')
         | Some n \<Rightarrow>
             if map_option rf_ty (map_of fs n) \<noteq> Some Text then
               Inl (Refused (''trigram index column '' @ sq n @ '' must be text''))
             else Inr n)"

definition sort_suffix :: "bytes option \<Rightarrow> rule_error + bytes" where
  "sort_suffix srt =
     (case srt of
        None \<Rightarrow> Inr []
      | Some s \<Rightarrow>
          (let l = to_ascii_lowercase s in
           if l = ''asc'' then Inr '' ASC''
           else if l = ''desc'' then Inr '' DESC''
           else Inl (Refused (''invalid sort '' @ sq l @ '' (asc|desc)''))))"

definition nulls_suffix :: "bytes option \<Rightarrow> rule_error + bytes" where
  "nulls_suffix nulls =
     (case nulls of
        None \<Rightarrow> Inr []
      | Some s \<Rightarrow>
          (let l = to_ascii_lowercase s in
           if l = ''first'' then Inr '' NULLS FIRST''
           else if l = ''last'' then Inr '' NULLS LAST''
           else Inl (Refused (''invalid nulls '' @ sq l @ '' (first|last)''))))"

record index_entry =
  en_key :: bytes
  en_value :: bytes
  en_tree :: json
  en_columns :: "bytes list"

definition index_column_entry ::
  "externals \<Rightarrow> rule_fields \<Rightarrow> bool \<Rightarrow> index_column \<Rightarrow> rule_error + index_entry" where
  "index_column_entry x fs trigram col =
     res_bind (index_key x fs col) (\<lambda>(value, tree, srt, nulls).
       res_bind (if trigram then res_bind (trigram_column fs col) (\<lambda>n. Inr [n]) else Inr []) (\<lambda>columns.
         res_bind (sort_suffix srt) (\<lambda>ss.
           res_bind (nulls_suffix nulls) (\<lambda>ns.
             Inr \<lparr>en_key = value @ ss @ ns, en_value = value,
                  en_tree = JArray [tree, opt_json (map_option to_ascii_lowercase srt),
                    opt_json (map_option to_ascii_lowercase nulls)],
                  en_columns = columns\<rparr>))))"

definition index_method :: "bytes \<Rightarrow> rule_error + bytes" where
  "index_method using_name =
     (if using_name \<in> set [''btree'', ''hash'', ''gist'', ''gin'', ''spgist'', ''brin''] then Inr using_name
      else if using_name = ''trigram'' then Inr ''gin''
      else Inl (Refused (''unknown index method '' @ sq using_name)))"

definition index_predicate :: "externals \<Rightarrow> rule_fields \<Rightarrow> bytes option \<Rightarrow> rule_error + expr option" where
  "index_predicate x fs clause =
     (case clause of
        None \<Rightarrow> Inr None
      | Some src \<Rightarrow>
          res_bind (parse_rule ''where '' src) (\<lambda>parsed.
            res_bind (map_err (prefix_error ''where '') (check_boolean x fs parsed)) (\<lambda>resolved.
              res_bind (sensitive_scope resolved fs True) (\<lambda>_. Inr (Some resolved)))))"

text \<open>The columns and the fields of the predicate whose types go into the tag.\<close>

definition index_used :: "index_contract \<Rightarrow> expr option \<Rightarrow> bytes list" where
  "index_used index predicate =
     remdups_adj (sort_unstable
       (List.map_filter (\<lambda>c. case c of CName n \<Rightarrow> Some n | CSpec sp \<Rightarrow> sp_column sp) (ix_columns index) @
        (case predicate of Some p \<Rightarrow> expr_fields p [] | None \<Rightarrow> [])))"

definition compile_index ::
  "externals \<Rightarrow> entity_contract \<Rightarrow> index_contract \<Rightarrow> rule_fields \<Rightarrow> rule_error + compiled_index" where
  "compile_index x e index fs =
     (if ix_columns index = [] then Inl (Refused ''has no columns'')
      else if ix_with index \<noteq> [] then
        Inl (Refused (''storage parameters ('' @ sq ''with'' @ '') are not allowed''))
      else
        (let using_name = to_ascii_lowercase (case ix_using index of Some u \<Rightarrow> u | None \<Rightarrow> ''btree'');
             trigram = (using_name = ''trigram'')
         in res_bind (index_method using_name) (\<lambda>method.
              if trigram \<and> ix_unique index then Inl (Refused ''a trigram index cannot be unique'')
              else
                res_bind (map_res (index_column_entry x fs trigram) (ix_columns index)) (\<lambda>entries.
                  res_bind (index_predicate x fs (ix_where index)) (\<lambda>predicate.
                    res_bind (case ix_name index of
                        Some n \<Rightarrow> map_err Refused (validate_new_ident n ''index name'')
                      | None \<Rightarrow> Inr ()) (\<lambda>_.
                      res_bind (case predicate of
                          Some p \<Rightarrow> res_bind (unwrap (sql p)) (\<lambda>s. Inr (Some s))
                        | None \<Rightarrow> Inr None) (\<lambda>pred_sql.
                        let types = List.map_filter (\<lambda>n. map_option (\<lambda>f. (n, rf_pg f)) (map_of fs n))
                              (index_used index predicate)
                        in Inr \<lparr>ci_name = resolve_index_name x (e_name e) index,
                             ci_unique = ix_unique index, ci_trigram = trigram, ci_method = method,
                             ci_keys = map en_key entries, ci_key_values = map en_value entries,
                             ci_predicate = pred_sql,
                             ci_tag = digest_tag x (JArray [JString GRAMMAR_VERSION, JString ''idx'',
                               JBool (ix_unique index), JString using_name, JArray (map en_tree entries),
                               (case predicate of Some p \<Rightarrow> expr_json p | None \<Rightarrow> JNull),
                               JArray (map type_json types)]),
                             ci_legacy_tag = index_spec_hash index, ci_declared = index,
                             ci_columns = concat (map en_columns entries)\<rparr>)))))))"

fun compile_indexes ::
  "externals \<Rightarrow> entity_contract \<Rightarrow> rule_fields \<Rightarrow> bytes list \<Rightarrow> (nat \<times> index_contract) list \<Rightarrow>
     rule_error + compiled_index list" where
  "compile_indexes x e fs names [] = Inr []"
| "compile_indexes x e fs names ((i, index) # rest) =
     res_bind (map_err (prefix_error (''indexes['' @
         (case ix_name index of Some n \<Rightarrow> n | None \<Rightarrow> show_nat i) @ ''] '')) (compile_index x e index fs)) (\<lambda>ci.
       if ci_name ci \<in> set names then
         Inl (Refused (''duplicate index name '' @ sq (ci_name ci)))
       else
         res_bind (compile_indexes x e fs (ci_name ci # names) rest) (\<lambda>cis. Inr (ci # cis)))"

section \<open>Entities\<close>

definition compile_entity :: "externals \<Rightarrow> entity_contract \<Rightarrow> rule_error + entity_rules" where
  "compile_entity x e =
     res_bind (rule_field_types x e) (\<lambda>fs.
       if length (e_checks e) > MAX_CHECKS then
         Inl (Refused (''entities are limited to '' @ show_nat MAX_CHECKS @ '' checks''))
       else if length (e_indexes e) > MAX_INDEXES then
         Inl (Refused (''entities are limited to '' @ show_nat MAX_INDEXES @ '' indexes''))
       else
         res_bind (map_res (field_checks x e fs) (e_fields e)) (\<lambda>per_field.
           res_bind (map_res (declared_check x fs) (List.enumerate 0 (e_checks e))) (\<lambda>declared.
             let checks = concat per_field @ declared in
             case first_duplicate [] (map cc_name checks) of
               Some n \<Rightarrow> Inl (Refused (''duplicate check name '' @ sq n))
             | None \<Rightarrow>
                 res_bind (compile_indexes x e fs [] (List.enumerate 0 (e_indexes e))) (\<lambda>indexes.
                   Inr \<lparr>er_checks = checks, er_indexes = indexes\<rparr>))))"

section \<open>What a compiled check is\<close>

text \<open>A tree that may be installed: emittable, over declared fields, and alone with a sensitive one.\<close>

definition tree_ok :: "rule_fields \<Rightarrow> expr \<Rightarrow> bool" where
  "tree_ok fs tree \<longleftrightarrow>
     emit_ok tree \<and> mentions tree \<subseteq> dom (map_of fs) \<and>
     (\<forall>n \<in> mentions tree. is_sensitive fs n \<longrightarrow> mentions tree = {n})"

definition check_ok :: "rule_fields \<Rightarrow> compiled_check \<Rightarrow> bool" where
  "check_ok fs c \<longleftrightarrow>
     length (cc_name c) \<le> MAX_IDENT_BYTES \<and> (\<exists>tree. tree_ok fs tree \<and> sql tree = Some (cc_sql c))"

text \<open>A result that is no panic, and has \<open>Q\<close> when it is a value.\<close>

definition safe_result :: "('a \<Rightarrow> bool) \<Rightarrow> rule_error + 'a \<Rightarrow> bool" where
  "safe_result Q r \<longleftrightarrow> (case r of Inl e \<Rightarrow> e \<noteq> Panicked | Inr v \<Rightarrow> Q v)"

lemma safe_result_simps [simp]:
  "safe_result Q (Inl (Refused m))" "\<not> safe_result Q (Inl Panicked)" "safe_result Q (Inr v) = Q v"
  by (simp_all add: safe_result_def)

lemma safe_result_bind:
  "safe_result Q m \<Longrightarrow> (\<And>v. m = Inr v \<Longrightarrow> Q v \<Longrightarrow> safe_result R (f v)) \<Longrightarrow> safe_result R (res_bind m f)"
  by (cases m) (auto simp: safe_result_def)

lemma safe_result_err: "safe_result (\<lambda>v. m = Inr v) (map_err Refused m)"
  by (cases m) auto

lemma safe_result_prefix: "safe_result Q m \<Longrightarrow> safe_result Q (map_err (prefix_error pre) m)"
proof (cases m)
  case (Inl e)
  then show "safe_result Q m \<Longrightarrow> ?thesis" by (cases e) auto
qed simp

lemma safe_result_unwrap: "v = Some y \<Longrightarrow> safe_result ((=) y) (unwrap v)"
  by (simp add: unwrap_def)

lemma safe_result_mono: "safe_result Q r \<Longrightarrow> (\<And>v. Q v \<Longrightarrow> R v) \<Longrightarrow> safe_result R r"
  by (auto simp: safe_result_def split: sum.splits)

lemma safe_result_map:
  assumes "\<And>a. a \<in> set xs \<Longrightarrow> safe_result Q (f a)"
  shows "safe_result (list_all Q) (map_res f xs)"
  using assms
proof (induction xs)
  case (Cons a xs)
  then have "safe_result Q (f a)" "safe_result (list_all Q) (map_res f xs)" by auto
  then show ?case
    by (cases "f a"; cases "map_res f xs") (auto simp: safe_result_def)
qed simp

lemma rule_tag_ok: "mentions e \<subseteq> dom (map_of fs) \<Longrightarrow> safe_result (\<lambda>_. True) (rule_tag x k e fs)"
proof -
  assume m: "mentions e \<subseteq> dom (map_of fs)"
  have "safe_result (list_all (\<lambda>_. True)) (map_res (\<lambda>name. res_bind (unwrap (map_of fs name)) (\<lambda>f. Inr (name, rf_pg f)))
      (sort_unstable (expr_fields e [])))"
    using m by (intro safe_result_map) (auto simp: set_expr_fields unwrap_def subset_iff dom_def split: option.splits)
  then show ?thesis unfolding rule_tag_def by (rule safe_result_bind) simp
qed

lemma safe_result_sql: "emit_ok e \<Longrightarrow> safe_result (\<lambda>s. sql e = Some s) (unwrap (sql e))"
  using sql_emitted [of e] by (auto simp: unwrap_def emitted_def)

lemma safe_result_fit:
  assumes "list_all ident_byte name"
  shows "safe_result (\<lambda>n. length n \<le> MAX_IDENT_BYTES) (unwrap (fit_ident sha name))"
proof (cases "length name \<le> MAX_IDENT_BYTES")
  case True
  then show ?thesis by (simp add: fit_ident_def unwrap_def)
next
  case False
  then show ?thesis using fit_ident_long [OF assms, of sha] by (simp add: unwrap_def MAX_IDENT_BYTES_def)
qed

lemma short_set: "length xs \<le> 1 \<Longrightarrow> n \<in> set xs \<Longrightarrow> set xs = {n}"
  by (cases xs) auto

lemma sensitive_scope_single:
  assumes "sensitive_scope e fs False = Inr u" "n \<in> mentions e" "is_sensitive fs n"
  shows "mentions e = {n}"
proof -
  have used: "set (expr_fields e []) = mentions e" by (simp add: set_expr_fields)
  with assms(2,3) obtain m where "List.find (is_sensitive fs) (expr_fields e []) = Some m"
    by (cases "List.find (is_sensitive fs) (expr_fields e [])") (auto simp: find_None_iff)
  with assms(1) have "length (expr_fields e []) \<le> 1" by (auto simp: sensitive_scope_def Let_def split: if_splits)
  moreover have "n \<in> set (expr_fields e [])" unfolding used by (rule assms(2))
  ultimately have "set (expr_fields e []) = {n}" by (rule short_set)
  then show ?thesis unfolding used .
qed

lemma sensitive_scope_index:
  "sensitive_scope e fs True = Inr u \<Longrightarrow> n \<in> mentions e \<Longrightarrow> \<not> is_sensitive fs n"
  by (auto simp: sensitive_scope_def Let_def find_None_iff set_expr_fields split: option.splits)

lemma sensitive_scope_safe: "safe_result (\<lambda>u. sensitive_scope e fs i = Inr u) (sensitive_scope e fs i)"
  by (auto simp: sensitive_scope_def Let_def split: option.splits)

lemma parse_rule_safe: "safe_result (\<lambda>e. parsed_ok e) (parse_rule pre src)"
proof (cases "parse src")
  case (Inl e)
  then show ?thesis using parse_not_out_of_fuel [of src] by (cases e) (auto simp: parse_rule_def)
qed (use parse_Inr_parsed in \<open>auto simp: parse_rule_def\<close>)

lemma check_boolean_safe:
  "source_tree e \<Longrightarrow> emit_ok e \<Longrightarrow>
     safe_result (\<lambda>e'. typed x fs e' Bool \<and> mentions e' = mentions e \<and> emit_ok e' \<and>
       (no_within e \<longrightarrow> mentions e' \<subseteq> dom (map_of fs))) (check_boolean x fs e)"
proof (cases "check_boolean x fs e")
  case (Inl err)
  then show "source_tree e \<Longrightarrow> ?thesis" using check_boolean_no_panic [of e x fs] by (cases err) auto
next
  case (Inr e')
  then have "check x fs e = Inr (e', Bool)" by (simp add: check_boolean_Inr)
  with Inr check_sound [of e x fs] check_emit_ok [of x fs e] check_fields_known [of x fs e]
  show "source_tree e \<Longrightarrow> emit_ok e \<Longrightarrow> ?thesis" by auto
qed

lemma parsed_emit_ok: "parsed_ok e \<Longrightarrow> emit_ok e"
  by (induction e) (auto simp: number_ok_def)

section \<open>Compiling never panics\<close>

definition names_ok :: "entity_contract \<Rightarrow> bool" where
  "names_ok e \<longleftrightarrow> list_all ident_byte (e_name e) \<and> (\<forall>f \<in> set (e_fields e). list_all ident_byte (f_name f))"

lemma dom_or_insert: "dom (map_of fs) \<subseteq> dom (map_of (fold or_insert kvs fs))"
proof (induction kvs arbitrary: fs)
  case (Cons kv kvs)
  have "dom (map_of fs) \<subseteq> dom (map_of (or_insert kv fs))"
    by (auto simp: or_insert_def map_add_def dom_def split: option.splits)
  with Cons show ?case by (metis comp_apply fold_Cons order_trans)
qed simp

lemma rule_field_types_safe:
  "safe_result (\<lambda>fs. \<forall>f \<in> set (e_fields e). f_name f \<in> dom (map_of fs)) (rule_field_types x e)"
proof -
  let ?g = "\<lambda>f. res_bind (map_err Refused (from_field (x_big_decimal x) f)) (\<lambda>t.
      Inr (f_name f, rule_field_of t (f_sensitive f)))"
  show ?thesis
  proof (cases "map_res ?g (e_fields e)")
    case (Inl err)
    have "safe_result (list_all (\<lambda>_. True)) (map_res ?g (e_fields e))"
      by (rule safe_result_map, rule safe_result_bind [OF safe_result_err]) simp
    with Inl show ?thesis by (cases err) (auto simp: rule_field_types_def)
  next
    case (Inr kvs)
    then have "list_all2 (\<lambda>f kv. fst kv = f_name f) (e_fields e) kvs"
      by (auto simp: map_res_Inr elim!: list_all2_mono)
    then have "f_name ` set (e_fields e) = fst ` set kvs"
      by (induction rule: list_all2_induct) auto
    then have "\<forall>f \<in> set (e_fields e). f_name f \<in> dom (map_of (map_extend [] kvs))"
      by (auto simp: map_of_map_extend dom_map_of_conv_image_fst)
    moreover have "rule_field_types x e = Inr (fold or_insert
        [(''id'', rule_field_of TyUuid False), (''created_at'', rule_field_of TyTimestamp False),
         (''updated_at'', rule_field_of TyTimestamp False)] (map_extend [] kvs))"
      unfolding rule_field_types_def Inr by simp
    ultimately show ?thesis unfolding safe_result_def
      using dom_or_insert [of "map_extend [] kvs", THEN subsetD] by (simp only: sum.case) blast
  qed
qed

lemma tree_ok_single: "emit_ok t \<Longrightarrow> mentions t = {n} \<Longrightarrow> n \<in> dom (map_of fs) \<Longrightarrow> tree_ok fs t"
  by (auto simp: tree_ok_def)

lemma built_check_safe:
  assumes "list_all ident_byte name" "tree_ok fs tree"
    and "\<And>n s t. length n \<le> MAX_IDENT_BYTES \<Longrightarrow> sql tree = Some s \<Longrightarrow> safe_result Q (build n s t)"
  shows "safe_result Q (res_bind (unwrap (fit_ident (x_sha256 x) name)) (\<lambda>n.
    res_bind (unwrap (sql tree)) (\<lambda>s. res_bind (rule_tag x k tree fs) (\<lambda>t. build n s t))))"
  using assms
  by (intro safe_result_bind [OF safe_result_fit] safe_result_bind [OF safe_result_sql]
      safe_result_bind [OF rule_tag_ok]) (auto simp: tree_ok_def)

lemma enum_check_safe:
  assumes "list_all ident_byte (e_name e)" "list_all ident_byte (f_name f)" "f_name f \<in> dom (map_of fs)"
  shows "safe_result (list_all (check_ok fs)) (enum_check x e f fs)"
proof -
  have name: "list_all ident_byte (''chk_'' @ e_name e @ ''_'' @ f_name f)"
    using assms by (auto simp: ident_byte_def is_lower_def byte_def)
  have tree: "tree_ok fs (case t of TyTextArray \<Rightarrow> EArrayWithin (f_name f) vs
      | _ \<Rightarrow> EIn (EField (f_name f)) (map EText vs) False)" for t vs
    using assms(3) by (intro tree_ok_single) (auto split: field_type.splits)
  show ?thesis
  proof (cases "f_enum_values f")
    case (Some vs)
    show ?thesis
    proof (cases "vs = []")
      case False
      show ?thesis
        unfolding enum_check_def Some option.case if_not_P [OF False] Let_def
        by (rule safe_result_bind [OF safe_result_err], rule built_check_safe [OF name tree])
          (use tree in \<open>auto simp: check_ok_def\<close>)
    qed (simp add: enum_check_def Some)
  qed (simp add: enum_check_def)
qed

lemma kinds_ident: "k \<in> set kinds \<Longrightarrow> list_all ident_byte k"
  by (auto simp: kinds_def ident_byte_def is_lower_def byte_def)

lemma compile_shorthands_safe:
  assumes "f_name f \<in> dom (map_of fs)"
  shows "safe_result (list_all (\<lambda>r. tree_ok fs (rule_tree r) \<and> list_all ident_byte (rule_kind r)))
    (compile_shorthands x fs f t)"
proof (cases "compile_shorthands x fs f t")
  case (Inl err)
  have "map_res id rs \<noteq> Inl Panicked" if "list_all2 (step_ok x fs n) ks rs" for n ks rs
    using that by (induction ks rs rule: list_all2_induct) (auto simp: step_ok_def res_bind_eq_Inl)
  from this [OF steps_ok] have "compile_shorthands x fs f t \<noteq> Inl Panicked"
    by (auto simp: compile_shorthands_def res_bind_eq_Inl)
  with Inl show ?thesis by (cases err) auto
next
  case (Inr out)
  obtain rss where rss: "steps x fs (f_name f) t (f_rules f) = map Inr rss" "out = concat rss"
    using Inr by (auto simp: compile_shorthands_def map_res_id_Inr)
  have "list_all2 (step_ok x fs (f_name f)) kinds (map Inr rss)"
    using steps_ok [of x fs "f_name f" t "f_rules f"] rss(1) by simp
  from steps_kinds [OF this kinds_distinct] have k: "rule_kind ` set out \<subseteq> set kinds"
    and r: "\<forall>r \<in> set out. \<exists>raw. check_boolean x fs raw = Inr (rule_tree r) \<and> source_tree raw \<and> emit_ok raw \<and>
        mentions raw = {f_name f}" by (auto simp: rss(2))
  have "tree_ok fs (rule_tree r)" if mem: "r \<in> set out" for r
  proof -
    obtain raw where raw: "check x fs raw = Inr (rule_tree r, Bool)" "source_tree raw" "emit_ok raw"
      "mentions raw = {f_name f}" using r mem by (auto simp: check_boolean_Inr)
    then show ?thesis
      using check_sound [OF raw(2,1)] check_emit_ok [OF raw(1,3)] assms by (intro tree_ok_single) auto
  qed
  with k Inr kinds_ident show ?thesis by (auto simp: list_all_iff)
qed

lemma field_checks_safe:
  assumes "list_all ident_byte (e_name e)" "list_all ident_byte (f_name f)" "f_name f \<in> dom (map_of fs)"
  shows "safe_result (list_all (check_ok fs)) (field_checks x e fs f)"
proof -
  have one: "safe_result (check_ok fs) (shorthand_check x e f fs r)"
    if "tree_ok fs (rule_tree r)" "list_all ident_byte (rule_kind r)" for r
    unfolding shorthand_check_def
    by (rule built_check_safe) (use assms that in \<open>auto simp: check_ok_def ident_byte_def is_lower_def byte_def\<close>)
  obtain fd where fd: "map_of fs (f_name f) = Some fd" using assms(3) by auto
  show ?thesis
    unfolding field_checks_def fd
    by (rule safe_result_bind [OF enum_check_safe [OF assms]],
        simp add: unwrap_def, rule safe_result_bind [OF compile_shorthands_safe [OF assms(3)]],
        rule safe_result_bind [OF safe_result_map [OF one]]) (auto simp: list_all_iff)
qed

text \<open>The resolution of a parsed rule, as checks and index predicates do it.\<close>

lemma resolve_safe:
  assumes "parsed_ok e"
    and "\<And>r. typed x fs r Bool \<Longrightarrow> emit_ok r \<Longrightarrow> mentions r \<subseteq> dom (map_of fs) \<Longrightarrow>
      sensitive_scope r fs i = Inr () \<Longrightarrow> safe_result Q (f r)"
  shows "safe_result Q (res_bind (map_err (prefix_error pre) (check_boolean x fs e)) (\<lambda>r.
    res_bind (map_err (prefix_error pre') (sensitive_scope r fs i)) (\<lambda>_. f r)))"
proof (rule safe_result_bind [OF safe_result_prefix [OF check_boolean_safe]])
  show "source_tree e" "emit_ok e" using assms(1) by (simp_all add: parsed_source_tree parsed_emit_ok)
  fix r assume r: "typed x fs r Bool \<and> mentions r = mentions e \<and> emit_ok r \<and>
    (no_within e \<longrightarrow> mentions r \<subseteq> dom (map_of fs))"
  show "safe_result Q (res_bind (map_err (prefix_error pre') (sensitive_scope r fs i)) (\<lambda>_. f r))"
    using r parsed_no_within [OF assms(1)]
    by (intro safe_result_bind [OF safe_result_prefix [OF sensitive_scope_safe]] assms(2)) auto
qed

lemma declared_check_safe: "safe_result (check_ok fs) (declared_check x fs ic)"
proof -
  obtain i c where ic: "ic = (i, c)" by (cases ic)
  show ?thesis
  proof (cases "ck_name c")
    case (Some name)
    have built: "safe_result (check_ok fs) (res_bind (rule_tag x ''chk'' r fs) (\<lambda>tag.
        res_bind (unwrap (sql r)) (\<lambda>s. Inr \<lparr>cc_name = name, cc_sql = s, cc_tag = tag,
          cc_legacy_tag = Some (legacy_check_tag (ck_expr c)), cc_origin = OCheck (ck_expr c)\<rparr>)))"
      if "emit_ok r" "mentions r \<subseteq> dom (map_of fs)" "sensitive_scope r fs False = Inr ()"
        "length name \<le> MAX_IDENT_BYTES" for r
      using that
      by (intro safe_result_bind [OF rule_tag_ok] safe_result_bind [OF safe_result_sql])
        (auto simp: check_ok_def tree_ok_def dest: sensitive_scope_single)
    show ?thesis
      unfolding declared_check_def ic Let_def prod.case Some option.case
      by (intro safe_result_bind [OF safe_result_err] safe_result_bind [OF parse_rule_safe] resolve_safe built)
        (auto simp: validate_new_ident_def)
  qed (simp add: declared_check_def ic)
qed

section \<open>Compiled indexes\<close>

text \<open>An emitted expression over declared fields, none of them sensitive.\<close>

definition public_sql :: "rule_fields \<Rightarrow> bytes \<Rightarrow> bool" where
  "public_sql fs s \<longleftrightarrow>
     (\<exists>tree. emit_ok tree \<and> sql tree = Some s \<and> mentions tree \<subseteq> dom (map_of fs) \<and>
        (\<forall>n \<in> mentions tree. \<not> is_sensitive fs n))"

definition key_value_ok :: "rule_fields \<Rightarrow> bytes \<Rightarrow> bool" where
  "key_value_ok fs v \<longleftrightarrow>
     (\<exists>n. v = quote_ident n \<and> (is_system_field n \<or> n \<in> dom (map_of fs))) \<or>
     (\<exists>s. v = ''('' @ s @ '')'' \<and> public_sql fs s)"

definition index_ok :: "rule_fields \<Rightarrow> compiled_index \<Rightarrow> bool" where
  "index_ok fs ci \<longleftrightarrow>
     (\<forall>v \<in> set (ci_key_values ci). key_value_ok fs v) \<and>
     (\<forall>p. ci_predicate ci = Some p \<longrightarrow> public_sql fs p)"

lemma column_value_safe: "safe_result (key_value_ok fs) (column_value name fs)"
  by (auto simp: column_value_def key_value_ok_def)

lemma check_scalar_safe:
  assumes "parsed_ok e"
  shows "safe_result (\<lambda>e'. emit_ok e' \<and> mentions e' \<subseteq> dom (map_of fs)) (check_scalar x fs e)"
proof (cases "check x fs e")
  case (Inl err)
  then show ?thesis using check_no_panic [OF parsed_source_tree [OF assms], of x fs]
    by (cases err) (auto simp: check_scalar_def)
next
  case (Inr r)
  obtain e' t where r: "r = (e', t)" by (cases r)
  have "emit_ok e'" "mentions e' \<subseteq> dom (map_of fs)"
    using Inr r check_emit_ok [OF _ parsed_emit_ok [OF assms]] check_fields_known [OF _ parsed_no_within [OF assms]]
      check_sound [OF parsed_source_tree [OF assms]] by fastforce+
  with Inr r show ?thesis by (auto simp: check_scalar_def)
qed

lemma index_key_safe: "safe_result (\<lambda>(v, t, a, b). key_value_ok fs v) (index_key x fs col)"
proof -
  have named: "safe_result (\<lambda>(v, t, a, b). key_value_ok fs v) (res_bind (column_value n fs) (\<lambda>v. Inr (v, JString n, None, None)))"
    "safe_result (\<lambda>(v, t). key_value_ok fs v) (res_bind (column_value n fs) (\<lambda>v. Inr (v, JString n)))" for n
    by (rule safe_result_bind [OF column_value_safe], simp)+
  have expr: "safe_result (\<lambda>(v, t). key_value_ok fs v) (res_bind (parse_rule ''expr '' e) (\<lambda>parsed.
      res_bind (map_err (prefix_error ''expr '') (check_scalar x fs parsed)) (\<lambda>r.
        res_bind (sensitive_scope r fs True) (\<lambda>_.
          res_bind (unwrap (sql r)) (\<lambda>s. Inr (''('' @ s @ '')'', expr_json r))))))" for e
    by (rule safe_result_bind [OF parse_rule_safe],
        rule safe_result_bind [OF safe_result_prefix [OF check_scalar_safe]], assumption,
        rule safe_result_bind [OF sensitive_scope_safe], rule safe_result_bind [OF safe_result_sql])
      (auto simp: key_value_ok_def public_sql_def dest: sensitive_scope_index)
  show ?thesis
  proof (cases col)
    case (CName n)
    then show ?thesis by (simp add: index_key_def named)
  next
    case (CSpec sp)
    have "safe_result (\<lambda>(v, t). key_value_ok fs v)
        (case (sp_column sp, sp_expr sp) of
           (Some name, None) \<Rightarrow> res_bind (column_value name fs) (\<lambda>v. Inr (v, JString name))
         | (None, Some e) \<Rightarrow>
             res_bind (parse_rule ''expr '' e) (\<lambda>parsed.
               res_bind (map_err (prefix_error ''expr '') (check_scalar x fs parsed)) (\<lambda>r.
                 res_bind (sensitive_scope r fs True) (\<lambda>_.
                   res_bind (unwrap (sql r)) (\<lambda>s. Inr (''('' @ s @ '')'', expr_json r)))))
         | (Some _, Some _) \<Rightarrow> Inl (Refused (''a column has both '' @ sq ''column'' @ '' and '' @ sq ''expr''))
         | (None, None) \<Rightarrow> Inl (Refused (''a column has neither '' @ sq ''column'' @ '' nor '' @ sq ''expr'')))"
      using expr named by (auto split: option.splits)
    from safe_result_bind [OF this, of "\<lambda>(v, t, a, b). key_value_ok fs v"
        "\<lambda>(value, tree). Inr (value, tree, sp_sort sp, sp_nulls sp)"]
    show ?thesis by (auto simp: index_key_def CSpec)
  qed
qed

lemma index_column_entry_safe:
  "safe_result (\<lambda>en. key_value_ok fs (en_value en)) (index_column_entry x fs trigram col)"
proof -
  have plain: "safe_result (\<lambda>_. True) (if trigram then res_bind (trigram_column fs col) (\<lambda>n. Inr [n]) else Inr [])"
    by (auto simp: trigram_column_def Let_def split: option.splits)
  have suffix: "safe_result (\<lambda>_. True) (sort_suffix a)" "safe_result (\<lambda>_. True) (nulls_suffix a)" for a
    by (auto simp: sort_suffix_def nulls_suffix_def Let_def split: option.splits)
  show ?thesis
    unfolding index_column_entry_def
  proof (rule safe_result_bind [OF index_key_safe])
    fix k :: "bytes \<times> json \<times> bytes option \<times> bytes option"
    assume k: "case k of (v, t, a, b) \<Rightarrow> key_value_ok fs v"
    obtain v t a b where kv: "k = (v, t, a, b)" by (cases k)
    show "safe_result (\<lambda>en. key_value_ok fs (en_value en)) (case k of (value, tree, srt, nulls) \<Rightarrow>
        res_bind (if trigram then res_bind (trigram_column fs col) (\<lambda>n. Inr [n]) else Inr []) (\<lambda>columns.
          res_bind (sort_suffix srt) (\<lambda>ss. res_bind (nulls_suffix nulls) (\<lambda>ns.
             Inr \<lparr>en_key = value @ ss @ ns, en_value = value,
                  en_tree = JArray [tree, opt_json (map_option to_ascii_lowercase srt),
                    opt_json (map_option to_ascii_lowercase nulls)],
                  en_columns = columns\<rparr>))))"
      unfolding kv prod.case
      by (rule safe_result_bind [OF plain], rule safe_result_bind [OF suffix(1)],
          rule safe_result_bind [OF suffix(2)]) (use k kv in simp)
  qed
qed

lemma index_predicate_safe:
  "safe_result (\<lambda>p. case p of None \<Rightarrow> True | Some r \<Rightarrow>
     emit_ok r \<and> mentions r \<subseteq> dom (map_of fs) \<and> (\<forall>n \<in> mentions r. \<not> is_sensitive fs n))
   (index_predicate x fs clause)"
proof -
  have nil: "map_err (prefix_error []) m = m" for m :: "rule_error + unit"
  proof (cases m)
    case (Inl e)
    then show ?thesis by (cases e) auto
  qed simp
  show ?thesis
  proof (cases clause)
    case (Some src)
    show ?thesis
      unfolding index_predicate_def Some option.case
      by (rule safe_result_bind [OF parse_rule_safe], subst nil [symmetric], erule resolve_safe)
        (auto dest: sensitive_scope_index)
  qed (simp add: index_predicate_def)
qed

lemma index_predicate_sql_safe:
  assumes "case p of None \<Rightarrow> True | Some r \<Rightarrow>
     emit_ok r \<and> mentions r \<subseteq> dom (map_of fs) \<and> (\<forall>n \<in> mentions r. \<not> is_sensitive fs n)"
  shows "safe_result (\<lambda>s. \<forall>t. s = Some t \<longrightarrow> public_sql fs t)
    (case p of Some r \<Rightarrow> res_bind (unwrap (sql r)) (\<lambda>s. Inr (Some s)) | None \<Rightarrow> Inr None)"
  using assms by (auto split: option.splits intro!: safe_result_bind [OF safe_result_sql])
    (auto simp: public_sql_def)

lemma compile_index_safe: "safe_result (index_ok fs) (compile_index x e index fs)"
proof -
  let ?u = "to_ascii_lowercase (case ix_using index of Some u \<Rightarrow> u | None \<Rightarrow> ''btree'')"
  have meth: "safe_result (\<lambda>_. True) (index_method ?u)" by (simp add: index_method_def)
  have entries: "safe_result (list_all (\<lambda>en. key_value_ok fs (en_value en)))
      (map_res (index_column_entry x fs (?u = ''trigram'')) (ix_columns index))"
    by (rule safe_result_map) (rule index_column_entry_safe)
  have name: "safe_result (\<lambda>_. True) (case ix_name index of
      Some n \<Rightarrow> map_err Refused (validate_new_ident n ''index name'') | None \<Rightarrow> Inr ())"
    using safe_result_mono [OF safe_result_err, of _ "\<lambda>_. True"] by (cases "ix_name index") simp_all
  consider "ix_columns index = []" | "ix_with index \<noteq> []" "ix_columns index \<noteq> []"
    | "ix_with index = []" "ix_columns index \<noteq> []" by blast
  then show ?thesis
  proof cases
    case 3
    show ?thesis
      unfolding compile_index_def Let_def 3 if_not_P [OF 3(2)]
      apply (simp only: if_False not_True_eq_False simp_thms)
      apply (rule safe_result_bind [OF meth])
      apply (split if_split, intro conjI impI, simp)
      apply (rule safe_result_bind [OF entries])
      apply (rule safe_result_bind [OF index_predicate_safe])
      apply (rule safe_result_bind [OF name])
      apply (erule safe_result_bind [OF index_predicate_sql_safe])
      apply (auto simp: index_ok_def list_all_iff)
      done
  qed (simp_all add: compile_index_def)
qed

lemma compile_indexes_safe:
  "safe_result (\<lambda>cis. list_all (index_ok fs) cis \<and> distinct (map ci_name cis) \<and>
     set (map ci_name cis) \<inter> set names = {}) (compile_indexes x e fs names ixs)"
proof (induction x e fs names ixs rule: compile_indexes.induct)
  case (2 x e fs names i index rest)
  show ?case
    unfolding compile_indexes.simps
  proof (rule safe_result_bind [OF safe_result_prefix [OF compile_index_safe]])
    fix ci assume ci: "index_ok fs ci" "map_err (prefix_error (''indexes['' @
        (case ix_name index of Some n \<Rightarrow> n | None \<Rightarrow> show_nat i) @ ''] '')) (compile_index x e index fs) = Inr ci"
    show "safe_result (\<lambda>cis. list_all (index_ok fs) cis \<and> distinct (map ci_name cis) \<and>
        set (map ci_name cis) \<inter> set names = {})
        (if ci_name ci \<in> set names then Inl (Refused (''duplicate index name '' @ sq (ci_name ci)))
         else res_bind (compile_indexes x e fs (ci_name ci # names) rest) (\<lambda>cis. Inr (ci # cis)))"
    proof (cases "ci_name ci \<in> set names")
      case False
      have "safe_result (\<lambda>cis. list_all (index_ok fs) cis \<and> distinct (map ci_name cis) \<and>
          set (map ci_name cis) \<inter> set (ci_name ci # names) = {}) (compile_indexes x e fs (ci_name ci # names) rest)"
        by (rule "2.IH" [OF ci(2) False])
      with False ci show ?thesis by (auto intro: safe_result_bind)
    qed simp
  qed
qed simp

lemma first_duplicate_None:
  "first_duplicate seen ns = None \<Longrightarrow> distinct ns \<and> set ns \<inter> set seen = {}"
proof (induction ns arbitrary: seen)
  case (Cons a ns)
  then show ?case using Cons.IH [of "a # seen"] by (auto split: if_splits)
qed simp

section \<open>Compiled entities\<close>

lemma compile_entity_safe:
  assumes "names_ok e"
  shows "safe_result (\<lambda>rules. \<exists>fs. rule_field_types x e = Inr fs \<and>
      list_all (check_ok fs) (er_checks rules) \<and> distinct (map cc_name (er_checks rules)) \<and>
      list_all (index_ok fs) (er_indexes rules) \<and> distinct (map ci_name (er_indexes rules)))
    (compile_entity x e)"
  unfolding compile_entity_def
proof (rule safe_result_bind [OF rule_field_types_safe])
  fix fs assume fs: "rule_field_types x e = Inr fs" "\<forall>f \<in> set (e_fields e). f_name f \<in> dom (map_of fs)"
  let ?Q = "\<lambda>rules. \<exists>fs. rule_field_types x e = Inr fs \<and>
      list_all (check_ok fs) (er_checks rules) \<and> distinct (map cc_name (er_checks rules)) \<and>
      list_all (index_ok fs) (er_indexes rules) \<and> distinct (map ci_name (er_indexes rules))"
  have fields: "safe_result (list_all (list_all (check_ok fs))) (map_res (field_checks x e fs) (e_fields e))"
    using assms fs(2) by (intro safe_result_map field_checks_safe) (auto simp: names_ok_def)
  have declared: "safe_result (list_all (check_ok fs)) (map_res (declared_check x fs) (List.enumerate 0 (e_checks e)))"
    by (intro safe_result_map declared_check_safe)
  have main: "safe_result ?Q (let checks = concat per_field @ declared in
             case first_duplicate [] (map cc_name checks) of
               Some n \<Rightarrow> Inl (Refused (''duplicate check name '' @ sq n))
             | None \<Rightarrow>
                 res_bind (compile_indexes x e fs [] (List.enumerate 0 (e_indexes e))) (\<lambda>indexes.
                   Inr \<lparr>er_checks = checks, er_indexes = indexes\<rparr>))"
    if ok: "list_all (list_all (check_ok fs)) per_field" "list_all (check_ok fs) declared" for per_field declared
  proof (cases "first_duplicate [] (map cc_name (concat per_field @ declared))")
    case None
    from safe_result_bind [OF compile_indexes_safe [of fs "[]" x e "List.enumerate 0 (e_indexes e)"], of ?Q
        "\<lambda>indexes. Inr \<lparr>er_checks = concat per_field @ declared, er_indexes = indexes\<rparr>"]
    show ?thesis
      unfolding Let_def None option.case using fs(1) ok first_duplicate_None [OF None]
      by (auto simp: list_all_iff)
  qed simp
  show "safe_result ?Q
      (if length (e_checks e) > MAX_CHECKS then
         Inl (Refused (''entities are limited to '' @ show_nat MAX_CHECKS @ '' checks''))
       else if length (e_indexes e) > MAX_INDEXES then
         Inl (Refused (''entities are limited to '' @ show_nat MAX_INDEXES @ '' indexes''))
       else
         res_bind (map_res (field_checks x e fs) (e_fields e)) (\<lambda>per_field.
           res_bind (map_res (declared_check x fs) (List.enumerate 0 (e_checks e))) (\<lambda>declared.
             let checks = concat per_field @ declared in
             case first_duplicate [] (map cc_name checks) of
               Some n \<Rightarrow> Inl (Refused (''duplicate check name '' @ sq n))
             | None \<Rightarrow>
                 res_bind (compile_indexes x e fs [] (List.enumerate 0 (e_indexes e))) (\<lambda>indexes.
                   Inr \<lparr>er_checks = checks, er_indexes = indexes\<rparr>))))"
    by (split if_split, intro conjI impI, simp, split if_split, intro conjI impI, simp,
        rule safe_result_bind [OF fields], rule safe_result_bind [OF declared], rule main)
qed

text \<open>A concrete entity for the witnesses: a status with an enum, and an index on it.\<close>

definition sample_externals :: externals where
  "sample_externals =
     \<lparr>x_date = (\<lambda>_. True), x_timestamp = Some, x_uuid = Some, x_regex = (\<lambda>_. Inr REmpty), x_big_decimal = Some,
      x_sha256 = (\<lambda>s. replicate 32 NUL), x_json_text = (\<lambda>_. []), x_unicode_escaped = (\<lambda>_. False)\<rparr>"

definition sample_entity :: entity_contract where
  "sample_entity =
     \<lparr>e_name = ''t'',
      e_fields = [default_field\<lparr>f_name := ''s'', f_type := ''text'', f_enum_values := Some [''a'']\<rparr>],
      e_share = None, e_identity_kind = None, e_identity_key = None,
      e_indexes = [\<lparr>ix_name = Some ''i'', ix_columns = [CName ''s''], ix_unique = False, ix_using = None,
        ix_where = None, ix_with = [], ix_unknown = []\<rparr>],
      e_checks = [], e_derived_from = None, e_unknown = []\<rparr>"

lemma sample_names_ok: "names_ok sample_entity"
  by code_simp

lemma sample_compiles: "\<exists>rules. compile_entity sample_externals sample_entity = Inr rules"
  by (simp add: compile_entity_def sample_externals_def sample_entity_def rule_field_types_def from_field_def
      type_of_name_def default_field_def default_rules_def map_extend_def or_insert_def MAX_CHECKS_def
      MAX_INDEXES_def field_checks_def enum_check_def Let_def fit_ident_def MAX_IDENT_BYTES_def unwrap_def
      rule_tag_def sort_unstable_def rule_field_of_def set_insert_def compile_shorthands_def steps_def
      bound_step_def flag_step_def opt_step_def compile_index_def index_method_def to_ascii_lowercase_def
      ascii_lower_char_def is_upper_def byte_def index_column_entry_def index_key_def column_value_def
      sort_suffix_def nulls_suffix_def index_predicate_def validate_new_ident_def ident_byte_def is_lower_def)

text \<open>
  C27: compiling the rules of an entity never panics: for every entity whose name and field names
  are identifiers it yields the rules or a message, whatever text its checks and indexes hold.
\<close>
theorem compile_entity_no_panic:
  assumes "names_ok e"
  shows "compile_entity x e \<noteq> Inl Panicked"
  using compile_entity_safe [OF assms, of x] by auto

theorem compile_entity_no_panic_witness: "compile_entity sample_externals sample_entity \<noteq> Inl Panicked"
  by (rule compile_entity_no_panic [OF sample_names_ok])

text \<open>
  C14: no manifest string reaches the database. Every check of a compiled entity is the SQL of a
  rule tree and reads back as exactly the tokens of that tree; the tree mentions only fields of the
  entity, and if it mentions a sensitive field it mentions no other. Check names are distinct and
  within PostgreSQL's limit of 63 bytes.
\<close>
theorem compile_entity_checks:
  assumes "names_ok e" "compile_entity x e = Inr rules"
  shows "distinct (map cc_name (er_checks rules)) \<and>
    (\<exists>fs. rule_field_types x e = Inr fs \<and>
      (\<forall>c \<in> set (er_checks rules). length (cc_name c) \<le> 63 \<and>
        (\<exists>tree. sql tree = Some (cc_sql c) \<and> pg_lex (cc_sql c) = Some (sql_toks tree) \<and>
           mentions tree \<subseteq> dom (map_of fs) \<and>
           (\<forall>n \<in> mentions tree. is_sensitive fs n \<longrightarrow> mentions tree = {n}))))"
proof -
  obtain fs where fs: "rule_field_types x e = Inr fs" "list_all (check_ok fs) (er_checks rules)"
    "distinct (map cc_name (er_checks rules))"
    using compile_entity_safe [OF assms(1), of x] assms(2) by auto
  have "length (cc_name c) \<le> 63 \<and> (\<exists>tree. sql tree = Some (cc_sql c) \<and> pg_lex (cc_sql c) = Some (sql_toks tree) \<and>
      mentions tree \<subseteq> dom (map_of fs) \<and> (\<forall>n \<in> mentions tree. is_sensitive fs n \<longrightarrow> mentions tree = {n}))"
    if "c \<in> set (er_checks rules)" for c
  proof -
    have "check_ok fs c" using fs(2) that by (simp add: list_all_iff)
    then obtain tree where tree: "tree_ok fs tree" "sql tree = Some (cc_sql c)" "length (cc_name c) \<le> 63"
      by (auto simp: check_ok_def MAX_IDENT_BYTES_def)
    then have "lexes (cc_sql c) (sql_toks tree)"
      using sql_emitted [of tree] by (auto simp: tree_ok_def emitted_def)
    from lexesD [OF this, of "[]"] have "pg_lex (cc_sql c) = Some (sql_toks tree)" by simp
    with tree show ?thesis by (auto simp: tree_ok_def)
  qed
  with fs show ?thesis by blast
qed

theorem compile_entity_checks_witness:
  "\<exists>rules. compile_entity sample_externals sample_entity = Inr rules \<and> distinct (map cc_name (er_checks rules))"
  using sample_compiles compile_entity_checks [OF sample_names_ok] by blast



end
