(* ===== verification/Delegation.thy ===== *)
theory Delegation
  imports Authority_Policy Json
begin

text \<open>
  Delegations, from \<open>governance/delegation/grants.rs\<close> and \<open>act_as.rs\<close>: a row says that a
  delegatee (an agent or a service account) may work for a delegator, because of a trigger or
  because of a standing grant to act as it. The operations create and revoke rows, back-fill
  them for triggers that predate them, and decide whether one principal may act as another.

  The table \<open>delegations\<close> has a partial unique index on the pair of trigger type and trigger
  for rows that are not revoked; an insertion that meets it turns into an update of the
  delegator. \<open>gen_random_uuid\<close> is a supply of numbers not used before.
\<close>

section \<open>Tables\<close>

record delegation_row =
  dl_id :: uuid
  dl_delegator :: uuid
  dl_delegatee :: uuid
  dl_trigger_type :: bytes
  dl_trigger_ref :: "uuid option"
  dl_created_at :: nat
  dl_expires_at :: "nat option"
  dl_revoked_at :: "nat option"

record trigger_row =
  tr_id :: uuid
  tr_app_id :: bytes
  tr_created_by :: "uuid option"
  tr_kind :: bytes
  tr_config :: "json option"

text \<open>\<open>tr_kind\<close> is the column \<open>action_type\<close> of a hook and \<open>method\<close> of a webhook; a cron has neither.\<close>

record deleg_db = rbac_db +
  delegations :: "delegation_row list"
  cron_schedules :: "trigger_row list"
  entity_hooks :: "trigger_row list"
  webhooks :: "trigger_row list"
  agents :: "bytes list"
  next_uuid :: uuid

definition TRIGGER_TYPES :: "bytes list" where
  "TRIGGER_TYPES = [''cron'', ''hook'', ''webhook'', ''manual'', ''channel'', ''act_as'']"

definition schema_stmt :: "('z world_scheme, sqlx_error, 'a) act \<Rightarrow> ('z world_scheme, runtime_error, 'a) act" where
  "schema_stmt m = act_map_err R_Schema (stmt m)"

section \<open>Looking up\<close>

definition live :: "nat \<Rightarrow> delegation_row \<Rightarrow> bool" where
  "live now d \<longleftrightarrow> dl_revoked_at d = None \<and> (case dl_expires_at d of None \<Rightarrow> True | Some e \<Rightarrow> now < e)"

definition valid_delegation :: "uuid \<Rightarrow> uuid \<Rightarrow> 'z deleg_db_scheme \<Rightarrow> bool" where
  "valid_delegation delegator delegatee s \<longleftrightarrow>
     (\<exists>d \<in> set (delegations s). dl_delegator d = delegator \<and> dl_delegatee d = delegatee \<and> live (db_now s) d)"

definition is_valid :: "uuid \<Rightarrow> uuid \<Rightarrow> ('z deleg_db_scheme, runtime_error, bool) act" where
  "is_valid delegator delegatee = schema_stmt (act_get (valid_delegation delegator delegatee))"

text \<open>The earliest assignment of the role \<open>admin\<close>; an error counts as none.\<close>

definition primary_admin :: "'z rbac_db_scheme \<Rightarrow> uuid option" where
  "primary_admin s =
     (case sort_key as_assigned_at (filter (\<lambda>a. as_role a = ''admin'') (rbac_assignments s)) of
        [] \<Rightarrow> None | a # _ \<Rightarrow> Some (as_user a))"

definition resolve_primary_admin :: "('z deleg_db_scheme, runtime_error, uuid option) act" where
  "resolve_primary_admin = act_or None (stmt (act_get primary_admin))"

section \<open>Creating and revoking\<close>

definition kind_of :: "'z rbac_db_scheme \<Rightarrow> uuid \<Rightarrow> bytes option" where
  "kind_of s u = map_option us_kind (List.find (\<lambda>r. us_id r = u) (users s))"

definition validate_delegation_kinds ::
  "uuid \<Rightarrow> uuid \<Rightarrow> bytes \<Rightarrow> ('z deleg_db_scheme, runtime_error, unit) act" where
  "validate_delegation_kinds delegator delegatee trigger_type =
     act_bind (schema_stmt (act_get (\<lambda>s. (kind_of s delegatee, kind_of s delegator)))) (\<lambda>(delegatee_kind, delegator_kind).
       if delegatee_kind = Some ''human'' then
         act_fail (R_Delegation ''delegatee must not be a human principal'')
       else if delegator_kind = Some ''agent'' \<and> trigger_type = ''act_as'' then
         act_fail (R_Delegation ''agent principals cannot initiate act_as delegations'')
       else act_return ())"

definition type_check_error :: sqlx_error where
  "type_check_error =
     Database \<lparr>pg_code = ''23514'', pg_schema = Some ''rootcx_system'', pg_table = Some ''delegations'',
       pg_constraint = Some ''delegations_trigger_type_check'', pg_message = ''new row violates check constraint''\<rparr>"

text \<open>The rows of the partial unique index on \<open>(trigger_type, trigger_ref)\<close>.\<close>

definition conflicts :: "bytes \<Rightarrow> uuid option \<Rightarrow> delegation_row \<Rightarrow> bool" where
  "conflicts trigger_type trigger_ref d \<longleftrightarrow>
     trigger_ref \<noteq> None \<and> dl_trigger_type d = trigger_type \<and> dl_trigger_ref d = trigger_ref \<and> dl_revoked_at d = None"

definition upsert_delegation ::
  "uuid \<Rightarrow> uuid \<Rightarrow> bytes \<Rightarrow> uuid option \<Rightarrow> ('z deleg_db_scheme, sqlx_error, uuid) act" where
  "upsert_delegation delegator delegatee trigger_type trigger_ref s =
     (if trigger_type \<notin> set TRIGGER_TYPES then (Inl type_check_error, s)
      else
        (case List.find (conflicts trigger_type trigger_ref) (delegations s) of
           Some d \<Rightarrow>
             (Inr (dl_id d),
              s\<lparr>delegations := map (\<lambda>x. if conflicts trigger_type trigger_ref x then x\<lparr>dl_delegator := delegator\<rparr> else x)
                  (delegations s)\<rparr>)
         | None \<Rightarrow>
             (Inr (next_uuid s),
              s\<lparr>delegations := delegations s @
                  [\<lparr>dl_id = next_uuid s, dl_delegator = delegator, dl_delegatee = delegatee,
                    dl_trigger_type = trigger_type, dl_trigger_ref = trigger_ref, dl_created_at = db_now s,
                    dl_expires_at = None, dl_revoked_at = None\<rparr>],
                next_uuid := next_uuid s + 1\<rparr>)))"

definition create ::
  "uuid \<Rightarrow> uuid \<Rightarrow> bytes \<Rightarrow> uuid option \<Rightarrow> ('z deleg_db_scheme, runtime_error, uuid) act" where
  "create delegator delegatee trigger_type trigger_ref =
     act_bind (validate_delegation_kinds delegator delegatee trigger_type) (\<lambda>_.
       schema_stmt (upsert_delegation delegator delegatee trigger_type trigger_ref))"

text \<open>\<open>UPDATE delegations SET revoked_at = now() WHERE .. AND revoked_at IS NULL\<close>\<close>

definition revoke_where :: "(delegation_row \<Rightarrow> bool) \<Rightarrow> ('z deleg_db_scheme, sqlx_error, unit) act" where
  "revoke_where P s =
     (Inr (), s\<lparr>delegations :=
        map (\<lambda>d. if P d \<and> dl_revoked_at d = None then d\<lparr>dl_revoked_at := Some (db_now s)\<rparr> else d) (delegations s)\<rparr>)"

definition revoke :: "uuid \<Rightarrow> ('z deleg_db_scheme, runtime_error, unit) act" where
  "revoke delegation_id = schema_stmt (revoke_where (\<lambda>d. dl_id d = delegation_id))"

definition revoke_by_trigger :: "bytes \<Rightarrow> uuid \<Rightarrow> ('z deleg_db_scheme, runtime_error, unit) act" where
  "revoke_by_trigger trigger_type trigger_ref =
     schema_stmt (revoke_where (\<lambda>d. dl_trigger_type d = trigger_type \<and> dl_trigger_ref d = Some trigger_ref))"

section \<open>Triggers that predate delegations\<close>

text \<open>\<open>agent_user_id\<close> derives the principal of an app's agent from its id by hashing.\<close>

definition lacks_delegation :: "bytes \<Rightarrow> 'z deleg_db_scheme \<Rightarrow> uuid \<Rightarrow> bool" where
  "lacks_delegation trigger_type s ref \<longleftrightarrow>
     \<not> (\<exists>d \<in> set (delegations s). dl_trigger_type d = trigger_type \<and> dl_trigger_ref d = Some ref \<and> dl_revoked_at d = None)"

definition claim_orphans :: "(trigger_row \<Rightarrow> bool) \<Rightarrow> uuid \<Rightarrow> trigger_row list \<Rightarrow> trigger_row list" where
  "claim_orphans P admin rows =
     map (\<lambda>r. if tr_created_by r = None \<and> P r then r\<lparr>tr_created_by := Some admin\<rparr> else r) rows"

text \<open>The loop over the selected rows; the outcome of a single \<open>create\<close> is dropped.\<close>

definition backfill ::
  "bytes \<Rightarrow> (trigger_row \<Rightarrow> uuid) \<Rightarrow> trigger_row list \<Rightarrow> ('z deleg_db_scheme, runtime_error, unit) act" where
  "backfill trigger_type agent_of rows =
     act_each (\<lambda>r. case tr_created_by r of
         Some delegator \<Rightarrow>
           act_bind (act_or 0 (create delegator (agent_of r) trigger_type (Some (tr_id r)) :: (_, runtime_error, _) act))
             (\<lambda>_. act_return ())
       | None \<Rightarrow> act_return ()) rows"

definition migrate_existing_crons ::
  "(bytes \<Rightarrow> uuid) \<Rightarrow> uuid option \<Rightarrow> ('z deleg_db_scheme, runtime_error, unit) act" where
  "migrate_existing_crons agent_user_id fallback_admin =
     act_bind (case fallback_admin of
         Some admin \<Rightarrow> schema_stmt (act_modify (\<lambda>s. s\<lparr>cron_schedules := claim_orphans (\<lambda>_. True) admin (cron_schedules s)\<rparr>))
       | None \<Rightarrow> act_return ()) (\<lambda>_.
     act_bind (schema_stmt (act_get (\<lambda>s. filter (\<lambda>r. tr_created_by r \<noteq> None \<and> tr_app_id r \<in> set (agents s) \<and>
         lacks_delegation ''cron'' s (tr_id r)) (cron_schedules s)))) (\<lambda>rows.
       backfill ''cron'' (\<lambda>r. agent_user_id (tr_app_id r)) rows))"

definition hook_target :: "trigger_row \<Rightarrow> bytes" where
  "hook_target r =
     opt_default (tr_app_id r) (Option.bind (Option.bind (tr_config r) (\<lambda>c. get_key c ''app_id'')) as_str)"

definition migrate_existing_hooks ::
  "(bytes \<Rightarrow> uuid) \<Rightarrow> uuid option \<Rightarrow> ('z deleg_db_scheme, runtime_error, unit) act" where
  "migrate_existing_hooks agent_user_id fallback_admin =
     act_bind (case fallback_admin of
         Some admin \<Rightarrow> schema_stmt (act_modify (\<lambda>s. s\<lparr>entity_hooks := claim_orphans (\<lambda>r. tr_kind r = ''agent'') admin (entity_hooks s)\<rparr>))
       | None \<Rightarrow> act_return ()) (\<lambda>_.
     act_bind (schema_stmt (act_get (\<lambda>s. filter (\<lambda>r. tr_created_by r \<noteq> None \<and> tr_kind r = ''agent'' \<and>
         lacks_delegation ''hook'' s (tr_id r)) (entity_hooks s)))) (\<lambda>rows.
       backfill ''hook'' (\<lambda>r. agent_user_id (hook_target r)) rows))"

definition migrate_existing_webhooks ::
  "(bytes \<Rightarrow> uuid) \<Rightarrow> uuid option \<Rightarrow> ('z deleg_db_scheme, runtime_error, unit) act" where
  "migrate_existing_webhooks agent_user_id fallback_admin =
     act_bind (case fallback_admin of
         Some admin \<Rightarrow> schema_stmt (act_modify (\<lambda>s. s\<lparr>webhooks := claim_orphans (\<lambda>r. tr_app_id r \<in> set (agents s)) admin (webhooks s)\<rparr>))
       | None \<Rightarrow> act_return ()) (\<lambda>_.
     act_bind (schema_stmt (act_modify (\<lambda>s. s\<lparr>webhooks := map (\<lambda>r. if tr_kind r \<noteq> ''agent'' \<and> tr_app_id r \<in> set (agents s)
         then r\<lparr>tr_kind := ''agent''\<rparr> else r) (webhooks s)\<rparr>))) (\<lambda>_.
     act_bind (schema_stmt (act_get (\<lambda>s. filter (\<lambda>r. tr_created_by r \<noteq> None \<and> tr_app_id r \<in> set (agents s) \<and>
         lacks_delegation ''webhook'' s (tr_id r)) (webhooks s)))) (\<lambda>rows.
       backfill ''webhook'' (\<lambda>r. agent_user_id (tr_app_id r)) rows)))"

definition migrate_existing_triggers :: "(bytes \<Rightarrow> uuid) \<Rightarrow> ('z deleg_db_scheme, runtime_error, unit) act" where
  "migrate_existing_triggers agent_user_id =
     act_bind resolve_primary_admin (\<lambda>fallback_admin.
     act_bind (migrate_existing_crons agent_user_id fallback_admin) (\<lambda>_.
     act_bind (migrate_existing_hooks agent_user_id fallback_admin) (\<lambda>_.
       migrate_existing_webhooks agent_user_id fallback_admin)))"

section \<open>Acting as another principal\<close>

definition assert_can_act_as ::
  "(sqlx_error \<Rightarrow> bytes) \<Rightarrow> (uuid \<Rightarrow> bytes) \<Rightarrow> uuid \<Rightarrow> uuid \<Rightarrow> ('z deleg_db_scheme, api_error, unit) act" where
  "assert_can_act_as show_sqlx show_uuid human target =
     act_bind (query (act_get (\<lambda>s. target \<in> set (public_execution_principals s)))) (\<lambda>managed.
     if managed then act_fail (Forbidden ''publication principals cannot be impersonated'')
     else if human = target then act_return ()
     else
       act_bind (act_map_err (\<lambda>e. Internal (runtime_error_text show_sqlx e)) (is_valid human target)) (\<lambda>delegated.
       if \<not> delegated then act_fail (Forbidden (''no act-as delegation for '' @ show_uuid target))
       else
         act_bind (resolve_permissions human) (\<lambda>(_, human_perms).
         act_bind (resolve_permissions target) (\<lambda>(_, target_perms).
           if \<forall>p \<in> set target_perms. has_permission human_perms p then act_return ()
           else act_fail (Forbidden ''act-as denied: target permissions exceed yours (anti-escalation)'')))))"

definition resolve_owner ::
  "(sqlx_error \<Rightarrow> bytes) \<Rightarrow> (uuid \<Rightarrow> bytes) \<Rightarrow> (bytes \<Rightarrow> uuid option) \<Rightarrow> uuid \<Rightarrow> bytes option \<Rightarrow>
     ('z deleg_db_scheme, api_error, uuid) act" where
  "resolve_owner show_sqlx show_uuid parse_uuid caller run_as =
     (case run_as of
        Some text \<Rightarrow>
          (case parse_uuid text of
             None \<Rightarrow> act_fail (BadRequest ''invalid run_as'')
           | Some target \<Rightarrow>
               act_bind (assert_can_act_as show_sqlx show_uuid caller target) (\<lambda>_. act_return target))
      | None \<Rightarrow> act_return caller)"

definition act_as_grant :: "uuid \<Rightarrow> uuid \<Rightarrow> ('z deleg_db_scheme, runtime_error, unit) act" where
  "act_as_grant human sa =
     act_bind (is_valid human sa) (\<lambda>valid.
       if valid then act_return ()
       else act_bind (create human sa ''act_as'' None) (\<lambda>_. act_return ()))"

definition act_as_revoke :: "uuid \<Rightarrow> uuid \<Rightarrow> ('z deleg_db_scheme, runtime_error, unit) act" where
  "act_as_revoke human sa =
     schema_stmt (revoke_where (\<lambda>d. dl_delegator d = human \<and> dl_delegatee d = sa \<and> dl_trigger_type d = ''act_as''))"

section \<open>The invariant of the table\<close>

definition row_ok :: "(uuid \<Rightarrow> bytes option) \<Rightarrow> delegation_row \<Rightarrow> bool" where
  "row_ok kind d \<longleftrightarrow>
     dl_trigger_type d \<in> set TRIGGER_TYPES \<and>
     kind (dl_delegatee d) \<noteq> Some ''human'' \<and>
     (dl_trigger_type d = ''act_as'' \<longrightarrow> kind (dl_delegator d) \<noteq> Some ''agent'')"

definition deleg_inv :: "'z deleg_db_scheme \<Rightarrow> bool" where
  "deleg_inv s \<longleftrightarrow>
     distinct (map dl_id (delegations s)) \<and>
     (\<forall>d \<in> set (delegations s). dl_id d < next_uuid s \<and> row_ok (kind_of s) d) \<and>
     (\<forall>d \<in> set (delegations s). \<forall>e \<in> set (delegations s).
        conflicts (dl_trigger_type e) (dl_trigger_ref e) d \<and> dl_revoked_at e = None \<longrightarrow> dl_id d = dl_id e)"

lemma kind_of_update [simp]:
  "kind_of (s\<lparr>w_faults := fs\<rparr>) = kind_of s" "kind_of (s\<lparr>delegations := ds\<rparr>) = kind_of s"
  "kind_of (s\<lparr>next_uuid := n\<rparr>) = kind_of s" "kind_of (s\<lparr>cron_schedules := cs\<rparr>) = kind_of s"
  "kind_of (s\<lparr>entity_hooks := hs\<rparr>) = kind_of s" "kind_of (s\<lparr>webhooks := ws\<rparr>) = kind_of s"
  "kind_of (s\<lparr>db_now := m\<rparr>) = kind_of s"
  by (simp_all add: kind_of_def fun_eq_iff)

lemma deleg_inv_faults [simp, intro]: "fault_free deleg_inv"
  by (simp add: fault_free_def deleg_inv_def)

lemma hoare_schema_stmt:
  "hoare P m Q E \<Longrightarrow> fault_free P \<Longrightarrow> (\<And>s. P s \<Longrightarrow> E s) \<Longrightarrow> hoare P (schema_stmt m) Q E"
  unfolding schema_stmt_def by (intro hoare_map_err hoare_stmt) auto

definition admissible :: "uuid \<Rightarrow> uuid \<Rightarrow> bytes \<Rightarrow> 'z deleg_db_scheme \<Rightarrow> bool" where
  "admissible delegator delegatee trigger_type s \<longleftrightarrow>
     deleg_inv s \<and> kind_of s delegatee \<noteq> Some ''human'' \<and>
     (trigger_type = ''act_as'' \<longrightarrow> kind_of s delegator \<noteq> Some ''agent'')"

lemma admissible_faults [simp, intro]: "fault_free (admissible a b c)"
  by (simp add: fault_free_def admissible_def deleg_inv_def)

lemma kinds_checked:
  "hoare deleg_inv (validate_delegation_kinds a b c) (\<lambda>_. admissible a b c) deleg_inv"
  unfolding validate_delegation_kinds_def
  by (rule hoare_bind [where R = "\<lambda>k s. deleg_inv s \<and> k = (kind_of s b, kind_of s a)"])
    (auto intro!: hoare_schema_stmt hoare_get hoare_if hoare_fail hoare_return simp: admissible_def)

text \<open>An update that keeps the identity of the rows and revives none.\<close>

lemma deleg_inv_map:
  assumes inv: "deleg_inv s"
    and same: "\<And>x. dl_id (f x) = dl_id x" "\<And>x. dl_trigger_type (f x) = dl_trigger_type x"
      "\<And>x. dl_trigger_ref (f x) = dl_trigger_ref x"
    and revived: "\<And>x. dl_revoked_at (f x) = None \<Longrightarrow> dl_revoked_at x = None"
    and ok: "\<And>x. x \<in> set (delegations s) \<Longrightarrow> row_ok (kind_of s) x \<Longrightarrow> row_ok (kind_of s) (f x)"
  shows "deleg_inv (s\<lparr>delegations := map f (delegations s)\<rparr>)"
proof -
  have ids: "map dl_id (map f (delegations s)) = map dl_id (delegations s)" using same(1) by simp
  have index: "dl_id (f x) = dl_id (f y)"
    if "x \<in> set (delegations s)" "y \<in> set (delegations s)" "dl_revoked_at (f y) = None"
      "conflicts (dl_trigger_type (f y)) (dl_trigger_ref (f y)) (f x)" for x y
  proof -
    have "conflicts (dl_trigger_type y) (dl_trigger_ref y) x"
      using that(4) same revived by (simp add: conflicts_def)
    moreover have "dl_revoked_at y = None" using that(3) revived by blast
    ultimately show ?thesis using inv that(1,2) same(1) by (simp add: deleg_inv_def)
  qed
  show ?thesis
    unfolding deleg_inv_def
  proof (intro conjI)
    show "distinct (map dl_id (delegations (s\<lparr>delegations := map f (delegations s)\<rparr>)))"
      using inv ids by (simp add: deleg_inv_def del: map_map)
    show "\<forall>d \<in> set (delegations (s\<lparr>delegations := map f (delegations s)\<rparr>)).
        dl_id d < next_uuid (s\<lparr>delegations := map f (delegations s)\<rparr>) \<and>
        row_ok (kind_of (s\<lparr>delegations := map f (delegations s)\<rparr>)) d"
      using inv ok same(1) by (auto simp: deleg_inv_def)
    show "\<forall>d \<in> set (delegations (s\<lparr>delegations := map f (delegations s)\<rparr>)).
        \<forall>e \<in> set (delegations (s\<lparr>delegations := map f (delegations s)\<rparr>)).
          conflicts (dl_trigger_type e) (dl_trigger_ref e) d \<and> dl_revoked_at e = None \<longrightarrow> dl_id d = dl_id e"
      using index by auto
  qed
qed

lemma upsert_inv:
  assumes "admissible a b c s"
  shows "deleg_inv (snd (upsert_delegation a b c ref s))"
proof -
  have inv: "deleg_inv s" using assms by (simp add: admissible_def)
  consider "c \<notin> set TRIGGER_TYPES" | d where "c \<in> set TRIGGER_TYPES" "List.find (conflicts c ref) (delegations s) = Some d"
    | "c \<in> set TRIGGER_TYPES" "List.find (conflicts c ref) (delegations s) = None" by fastforce
  then show ?thesis
  proof cases
    case 1
    then show ?thesis using inv by (simp add: upsert_delegation_def)
  next
    case (2 d)
    let ?f = "\<lambda>x. if conflicts c ref x then x\<lparr>dl_delegator := a\<rparr> else x"
    have "deleg_inv (s\<lparr>delegations := map ?f (delegations s)\<rparr>)"
      using assms by (intro deleg_inv_map [OF inv]) (auto simp: row_ok_def admissible_def conflicts_def split: if_splits)
    then show ?thesis using 2 by (simp add: upsert_delegation_def)
  next
    case 3
    then have none: "\<not> conflicts c ref x" if "x \<in> set (delegations s)" for x
      using that by (auto simp: find_None_iff)
    have fresh: "next_uuid s \<notin> dl_id ` set (delegations s)" using inv by (auto simp: deleg_inv_def)
    let ?r = "\<lparr>dl_id = next_uuid s, dl_delegator = a, dl_delegatee = b, dl_trigger_type = c, dl_trigger_ref = ref,
      dl_created_at = db_now s, dl_expires_at = None, dl_revoked_at = None\<rparr>"
    have new: "row_ok (kind_of s) ?r" using 3 assms by (simp add: row_ok_def admissible_def)
    have other: "\<not> (conflicts (dl_trigger_type x) (dl_trigger_ref x) ?r \<and> dl_revoked_at x = None)"
      if "x \<in> set (delegations s)" for x
      using none [OF that] by (auto simp: conflicts_def)
    have "deleg_inv (s\<lparr>delegations := delegations s @ [?r], next_uuid := next_uuid s + 1\<rparr>)"
      unfolding deleg_inv_def
    proof (intro conjI)
      show "distinct (map dl_id (delegations (s\<lparr>delegations := delegations s @ [?r], next_uuid := next_uuid s + 1\<rparr>)))"
        using inv fresh by (simp add: deleg_inv_def)
      show "\<forall>d \<in> set (delegations (s\<lparr>delegations := delegations s @ [?r], next_uuid := next_uuid s + 1\<rparr>)).
          dl_id d < next_uuid (s\<lparr>delegations := delegations s @ [?r], next_uuid := next_uuid s + 1\<rparr>) \<and>
          row_ok (kind_of (s\<lparr>delegations := delegations s @ [?r], next_uuid := next_uuid s + 1\<rparr>)) d"
        using inv new by (simp add: deleg_inv_def less_SucI)
      show "\<forall>d \<in> set (delegations (s\<lparr>delegations := delegations s @ [?r], next_uuid := next_uuid s + 1\<rparr>)).
          \<forall>e \<in> set (delegations (s\<lparr>delegations := delegations s @ [?r], next_uuid := next_uuid s + 1\<rparr>)).
          conflicts (dl_trigger_type e) (dl_trigger_ref e) d \<and> dl_revoked_at e = None \<longrightarrow> dl_id d = dl_id e"
        using inv none other by (simp add: deleg_inv_def) fastforce
    qed
    then show ?thesis using 3 by (simp add: upsert_delegation_def)
  qed
qed

lemma revoke_where_inv: "keeps deleg_inv (revoke_where P)"
proof -
  have "deleg_inv (s\<lparr>delegations := map (\<lambda>d. if P d \<and> dl_revoked_at d = None
      then d\<lparr>dl_revoked_at := Some (db_now s)\<rparr> else d) (delegations s)\<rparr>)" if "deleg_inv s" for s :: "'a deleg_db_scheme"
    by (rule deleg_inv_map [OF that]) (auto simp: row_ok_def split: if_splits)
  then show ?thesis by (simp add: hoare_def revoke_where_def)
qed

lemma keeps_create: "keeps deleg_inv (create a b c ref)"
proof -
  have "hoare (admissible a b c) (upsert_delegation a b c ref) (\<lambda>_. deleg_inv) deleg_inv"
    using upsert_inv [of a b c _ ref] by (fastforce simp: hoare_def split: prod.splits sum.splits)
  then show ?thesis unfolding create_def
    by (intro hoare_bind [OF kinds_checked] hoare_schema_stmt admissible_faults) (auto simp: admissible_def)
qed

lemma keeps_is_valid: "keeps deleg_inv (is_valid a b)"
  unfolding is_valid_def by (intro hoare_schema_stmt hoare_get) auto

lemma keeps_backfill: "keeps deleg_inv (backfill ty ag rows)"
  unfolding backfill_def
  by (rule hoare_each) (intro hoare_option hoare_return hoare_bind [OF hoare_or [OF keeps_create]])

lemma keeps_trigger_tables:
  "keeps deleg_inv (schema_stmt (act_modify (\<lambda>s. s\<lparr>cron_schedules := f s\<rparr>)))"
  "keeps deleg_inv (schema_stmt (act_modify (\<lambda>s. s\<lparr>entity_hooks := f s\<rparr>)))"
  "keeps deleg_inv (schema_stmt (act_modify (\<lambda>s. s\<lparr>webhooks := f s\<rparr>)))"
  "keeps deleg_inv (schema_stmt (act_get g))"
  by (intro hoare_schema_stmt hoare_modify hoare_get deleg_inv_faults; simp add: deleg_inv_def)+

lemma keeps_migrate: "keeps deleg_inv (migrate_existing_triggers agent_user_id)"
proof -
  have admin: "keeps deleg_inv resolve_primary_admin"
    unfolding resolve_primary_admin_def by (intro hoare_or [OF hoare_stmt] hoare_get) auto
  show ?thesis
    unfolding migrate_existing_triggers_def migrate_existing_crons_def migrate_existing_hooks_def migrate_existing_webhooks_def
    by (intro keeps_bind admin hoare_option hoare_return keeps_backfill keeps_trigger_tables)
qed

lemma keeps_grant: "keeps deleg_inv (act_as_grant a b)"
  unfolding act_as_grant_def
  by (intro hoare_bind [OF keeps_is_valid] hoare_if hoare_return hoare_bind [OF keeps_create])

section \<open>Sequences of operations\<close>

datatype deleg_op =
    Create uuid uuid bytes "uuid option"
  | Revoke uuid
  | RevokeByTrigger bytes uuid
  | MigrateTriggers "bytes \<Rightarrow> uuid"
  | GrantActAs uuid uuid
  | RevokeActAs uuid uuid

definition void :: "('s, 'e, 'a) act \<Rightarrow> ('s, 'e, unit) act" where
  "void m = act_bind m (\<lambda>_. act_return ())"

fun run_deleg :: "deleg_op \<Rightarrow> ('z deleg_db_scheme, runtime_error, unit) act" where
  "run_deleg (Create a b c ref) = void (create a b c ref)"
| "run_deleg (Revoke i) = revoke i"
| "run_deleg (RevokeByTrigger c ref) = revoke_by_trigger c ref"
| "run_deleg (MigrateTriggers f) = migrate_existing_triggers f"
| "run_deleg (GrantActAs a b) = act_as_grant a b"
| "run_deleg (RevokeActAs a b) = act_as_revoke a b"

text \<open>Between operations time passes and the set of failing statements changes; the kinds of
  principals do not.\<close>

inductive deleg_step :: "'z deleg_db_scheme \<Rightarrow> 'z deleg_db_scheme \<Rightarrow> bool" where
  operation: "t = snd (run_deleg op s) \<Longrightarrow> deleg_step s t"
| environment: "deleg_step s (s\<lparr>w_faults := fs, db_now := n\<rparr>)"

inductive_cases deleg_stepE: "deleg_step s t"

lemma keeps_run_deleg: "keeps deleg_inv (run_deleg op)"
  by (cases op)
    (auto simp: void_def revoke_def revoke_by_trigger_def act_as_revoke_def keeps_migrate keeps_grant
      intro!: keeps_bind keeps_create hoare_return hoare_schema_stmt revoke_where_inv)

lemma deleg_step_inv: "deleg_inv s \<Longrightarrow> deleg_step s t \<Longrightarrow> deleg_inv t"
  by (erule deleg_stepE) (simp_all add: keeps_run [OF keeps_run_deleg], simp add: deleg_inv_def)

interpretation delegation_table: transition_system "deleg_inv :: deleg_db \<Rightarrow> bool" deleg_step deleg_inv
  by unfold_locales (auto intro: deleg_step_inv)

section \<open>The act-as gate\<close>

lemma reader_is_valid: "reader (is_valid a b) (\<lambda>s. Inr (valid_delegation a b s))"
proof -
  have "tables_only (valid_delegation a b)" by (simp add: tables_only_def valid_delegation_def)
  then show ?thesis unfolding is_valid_def schema_stmt_def
    by (intro reader_cong [OF reader_map_err [OF reader_stmt]]) auto
qed

definition act_as_verdict :: "(uuid \<Rightarrow> bytes) \<Rightarrow> uuid \<Rightarrow> uuid \<Rightarrow> 'z deleg_db_scheme \<Rightarrow> api_error + unit" where
  "act_as_verdict show_uuid human target s =
     (if target \<in> set (public_execution_principals s) then Inl (Forbidden ''publication principals cannot be impersonated'')
      else if human = target then Inr ()
      else if \<not> valid_delegation human target s then Inl (Forbidden (''no act-as delegation for '' @ show_uuid target))
      else if \<forall>p \<in> set (snd (resolved target s)). has_permission (snd (resolved human s)) p then Inr ()
      else Inl (Forbidden ''act-as denied: target permissions exceed yours (anti-escalation)''))"

lemma reader_assert_can_act_as:
  "reader (assert_can_act_as show_sqlx show_uuid human target) (act_as_verdict show_uuid human target)"
proof (rule reader_cong)
  show "reader (assert_can_act_as show_sqlx show_uuid human target) (\<lambda>s. res_bind (Inr (target \<in> set (public_execution_principals s))) (\<lambda>managed.
     (if managed then (\<lambda>_. Inl (Forbidden ''publication principals cannot be impersonated''))
      else if human = target then (\<lambda>_. Inr ())
      else (\<lambda>s. res_bind (map_err (\<lambda>e. Internal (runtime_error_text show_sqlx e)) (Inr (valid_delegation human target s))) (\<lambda>delegated.
       (if \<not> delegated then (\<lambda>_. Inl (Forbidden (''no act-as delegation for '' @ show_uuid target)))
       else (\<lambda>s. res_bind (Inr (resolved human s)) (\<lambda>h. res_bind (Inr (resolved target s)) (\<lambda>t.
           (if \<forall>p \<in> set (snd t). has_permission (snd h) p then (\<lambda>_. Inr ())
           else (\<lambda>_. Inl (Forbidden ''act-as denied: target permissions exceed yours (anti-escalation)''))) s)))) s))) s))"
    unfolding assert_can_act_as_def case_prod_beta
    by (intro reader_bind reader_if reader_fail reader_return reader_map_err reader_is_valid reader_resolve_permissions reader_query)
      (simp add: tables_only_def)
qed (auto simp: act_as_verdict_def)

lemma upsert_returns_valid:
  assumes "upsert_delegation a b c None s = (Inr i, t)"
  shows "valid_delegation a b t"
proof -
  have "\<not> conflicts c None d" for d by (simp add: conflicts_def)
  then have "List.find (conflicts c None) (delegations s) = None" by (simp add: find_None_iff)
  then show ?thesis
    using assms by (auto simp: upsert_delegation_def valid_delegation_def live_def split: if_splits)
qed

section \<open>Properties\<close>

definition sample_deleg_db :: deleg_db where
  "sample_deleg_db =
     \<lparr>w_faults = [], rbac_assignments = [], rbac_roles = [], rbac_permissions = [],
      users = [\<lparr>us_id = 1, us_kind = ''human'', us_is_system = False, us_disabled_at = None\<rparr>, \<lparr>us_id = 2, us_kind = ''agent'', us_is_system = False, us_disabled_at = None\<rparr>],
      public_execution_principals = [], db_now = 5,
      delegations = [\<lparr>dl_id = 7, dl_delegator = 1, dl_delegatee = 2, dl_trigger_type = ''cron'', dl_trigger_ref = Some 3,
        dl_created_at = 0, dl_expires_at = None, dl_revoked_at = None\<rparr>],
      cron_schedules = [], entity_hooks = [], webhooks = [], agents = [], next_uuid = 9\<rparr>"

lemma sample_deleg_inv: "deleg_inv sample_deleg_db"
  by (simp add: deleg_inv_def sample_deleg_db_def row_ok_def kind_of_def TRIGGER_TYPES_def)

text \<open>C24: In every state the operations on delegations can reach, whatever statements fail in
  between: ids are unique, no human is a delegatee, no agent has started an act-as delegation,
  the trigger type is one of the six, and a trigger has at most one delegation that is not
  revoked.\<close>

theorem deleg_inv_always:
  assumes "deleg_inv s" and "deleg_step\<^sup>*\<^sup>* s (t :: deleg_db)"
  shows "deleg_inv t"
  using delegation_table.run_inv [OF assms(2,1)] .

theorem deleg_inv_always_witness:
  "deleg_inv (snd (run_deleg (GrantActAs 2 1) sample_deleg_db))"
proof -
  have "deleg_step\<^sup>*\<^sup>* sample_deleg_db (snd (run_deleg (GrantActAs 2 1) sample_deleg_db))"
    by (intro r_into_rtranclp deleg_step.operation) (rule refl)
  from deleg_inv_always [OF sample_deleg_inv this] show ?thesis .
qed

text \<open>C8: The act-as gate never lets authority grow. When it admits a human as another principal,
  that principal is no publication principal, a live delegation links the two, and the human
  already held every permission the principal holds, wildcards included. It decides on the
  tables alone, and a statement that fails only ever denies.\<close>

theorem act_as_never_escalates:
  assumes "assert_can_act_as show_sqlx show_uuid human target s = (Inr u, t)" and "unique_roles s"
  shows "target \<notin> set (public_execution_principals s) \<and>
    (human = target \<or>
     valid_delegation human target s \<and>
     (\<forall>r. has_permission (sql_resolve_permissions target s) r \<longrightarrow> has_permission (sql_resolve_permissions human s) r))"
proof -
  have verdict: "act_as_verdict show_uuid human target s = Inr u"
    using readerD(2) [OF reader_assert_can_act_as assms(1)] .
  show ?thesis
    using verdict permission_keys.subset_check_complete [of "snd (resolved target s)" "snd (resolved human s)"]
    by (auto simp: act_as_verdict_def has_permission_cong [OF resolved_tables(2) [OF assms(2)]] split: if_splits)
qed

theorem act_as_never_escalates_witness:
  "\<exists>u t. assert_can_act_as (\<lambda>_. []) (\<lambda>_. []) 1 2 sample_deleg_db = (Inr u, t) \<and>
     valid_delegation 1 2 sample_deleg_db \<and>
     (\<forall>r. has_permission (sql_resolve_permissions 2 sample_deleg_db) r \<longrightarrow>
          has_permission (sql_resolve_permissions 1 sample_deleg_db) r)"
proof -
  have "act_as_verdict (\<lambda>_. []) 1 2 sample_deleg_db = Inr ()"
    by (simp add: act_as_verdict_def sample_deleg_db_def valid_delegation_def live_def resolved_def assigned_roles_def)
  then have ok: "assert_can_act_as (\<lambda>_. []) (\<lambda>_. []) 1 2 sample_deleg_db = (Inr (), sample_deleg_db)"
    using readerD(3) [OF reader_assert_can_act_as, of sample_deleg_db "\<lambda>_. []" "\<lambda>_. []" 1 2]
    by (simp add: sample_deleg_db_def)
  have "unique_roles sample_deleg_db" by (simp add: unique_roles_def sample_deleg_db_def)
  from act_as_never_escalates [OF ok this] ok show ?thesis by auto
qed




end
