(* ===== verification/Sql_Gate.thy ===== *)
theory Sql_Gate
  imports Prelude
begin

text \<open>
  The statement filter of \<open>governance/enforcement/sql_proxy.rs\<close>: \<open>validate_sql\<close> skips what
  precedes the first token and admits a statement that starts with an allowed keyword or a
  parenthesis. Nothing else in the system refuses \<open>SET\<close> and \<open>RESET\<close>.

  The lemmas compare it with the relation \<open>skips\<close>, the rules by which PostgreSQL's scanner
  passes over white space, line comments and nested block comments.
  Whether a character beyond ASCII is alphanumeric is a Unicode table, the parameter
  \<open>uni_alnum\<close>.
\<close>

definition ALLOWED_PREFIXES :: "bytes list" where
  "ALLOWED_PREFIXES = [''SELECT'', ''INSERT'', ''UPDATE'', ''DELETE'', ''WITH'', ''VALUES'', ''TABLE'']"

definition CR :: char where "CR = CHR 0x0D"
definition LF :: char where "LF = CHR 0x0A"

text \<open>The loop of \<open>skip_block_comment\<close> from position \<open>i\<close> on; \<open>None\<close> is the end of the input.\<close>

fun skip_block :: "nat \<Rightarrow> bytes \<Rightarrow> bytes option" where
  "skip_block depth (a # b # rest) =
     (if a = CHR ''/'' \<and> b = CHR ''*'' then skip_block (depth + 1) rest
      else if a = CHR ''*'' \<and> b = CHR ''/'' then
        (if depth - 1 = 0 then Some rest else skip_block (depth - 1) rest)
      else skip_block depth (b # rest))"
| "skip_block depth _ = None"

definition skip_block_comment :: "bytes \<Rightarrow> bytes + bytes" where
  "skip_block_comment s =
     (case skip_block 1 (drop 2 s) of
        Some rest \<Rightarrow> Inr rest
      | None \<Rightarrow> Inl ''statement not allowed: unterminated block comment'')"

definition skip_line :: "bytes \<Rightarrow> bytes" where
  "skip_line after = drop 1 (dropWhile (\<lambda>c. c \<noteq> LF \<and> c \<noteq> CR) after)"

lemma skip_block_shorter: "skip_block d s = Some r \<Longrightarrow> length r < length s"
  by (induction d s rule: skip_block.induct) (auto split: if_splits)

lemma skip_line_shorter: "length (skip_line s) \<le> length s"
  unfolding skip_line_def
  using length_dropWhile_le [of "\<lambda>c. c \<noteq> LF \<and> c \<noteq> CR" s] by simp

function strip_loop :: "bytes \<Rightarrow> bytes + bytes" where
  "strip_loop rest =
     (case strip_prefix ''--'' rest of
        Some after \<Rightarrow> strip_loop (trim_start (skip_line after))
      | None \<Rightarrow>
          if starts_with rest ''/*'' then
            (case skip_block_comment rest of
               Inl e \<Rightarrow> Inl e
             | Inr after \<Rightarrow> strip_loop (trim_start after))
          else Inr rest)"
  by pat_completeness auto
termination
proof (relation "measure length")
  fix rest after
  assume "strip_prefix ''--'' rest = Some after"
  then have "rest = ''--'' @ after" by simp
  then show "(trim_start (skip_line after), rest) \<in> measure length"
    using length_trim_start_le [of "skip_line after"] skip_line_shorter [of after] by simp
next
  fix rest after
  assume "skip_block_comment rest = Inr after"
  then have "length after < length (drop 2 rest)"
    by (auto simp: skip_block_comment_def dest: skip_block_shorter split: option.splits)
  then show "(trim_start after, rest) \<in> measure length"
    using length_trim_start_le [of after] by simp
qed simp

declare strip_loop.simps [simp del]

definition strip_leading_noise :: "bytes \<Rightarrow> bytes + bytes" where
  "strip_leading_noise sql = strip_loop (trim_start sql)"

text \<open>\<open>c.is_alphanumeric() || c == '_' || c == '$'\<close> on the first character.\<close>

definition continues_word :: "(bytes \<Rightarrow> bool) \<Rightarrow> bytes \<Rightarrow> bool" where
  "continues_word uni_alnum rest =
     (case utf8_chars rest of
        [] \<Rightarrow> False
      | ch # _ \<Rightarrow> (if is_ascii (hd ch) then is_alnum (hd ch) \<or> hd ch = CHR ''_'' \<or> hd ch = CHR ''$''
                  else uni_alnum ch))"

definition starts_allowed :: "(bytes \<Rightarrow> bool) \<Rightarrow> bytes \<Rightarrow> bool" where
  "starts_allowed uni_alnum head =
     list_ex (\<lambda>kw. case strip_prefix kw (to_ascii_uppercase head) of
         Some rest \<Rightarrow> \<not> continues_word uni_alnum rest | None \<Rightarrow> False) ALLOWED_PREFIXES"

definition shown_token :: "bytes \<Rightarrow> bytes" where
  "shown_token head =
     concat (take 16 (utf8_chars (case split_whitespace head of [] \<Rightarrow> ''(empty)'' | w # _ \<Rightarrow> w)))"

definition validate_sql :: "(bytes \<Rightarrow> bool) \<Rightarrow> bytes \<Rightarrow> bytes + unit" where
  "validate_sql uni_alnum sql =
     res_bind (strip_leading_noise sql) (\<lambda>head.
       if starts_with head ''('' then Inr ()
       else if starts_allowed uni_alnum head then Inr ()
       else Inl (''statement not allowed: '' @ shown_token head @ ''; apps may only send '' @
              join '', '' ALLOWED_PREFIXES))"

section \<open>What the scanner skips\<close>

text \<open>\<open>in_comment d s r\<close>: inside \<open>d\<close> open comments, the scanner leaves the outermost one with \<open>r\<close>
  to read.\<close>

inductive in_comment :: "nat \<Rightarrow> bytes \<Rightarrow> bytes \<Rightarrow> bool" where
  last_close: "in_comment (Suc 0) (''*/'' @ r) r"
| inner_close: "in_comment (Suc d) s r \<Longrightarrow> in_comment (Suc (Suc d)) (''*/'' @ s) r"
| opens: "in_comment (Suc d) s r \<Longrightarrow> in_comment d (''/*'' @ s) r"
| other: "\<not> starts_with (c # s) ''/*'' \<Longrightarrow> \<not> starts_with (c # s) ''*/'' \<Longrightarrow> in_comment d s r \<Longrightarrow>
    in_comment d (c # s) r"

text \<open>One piece of white space or one comment.\<close>

inductive skip_one :: "bytes \<Rightarrow> bytes \<Rightarrow> bool" where
  space: "ch \<in> set white_space \<Longrightarrow> utf8_chars s = ch # utf8_chars r \<Longrightarrow> s = ch @ r \<Longrightarrow> skip_one s r"
| line_end: "nl = LF \<or> nl = CR \<Longrightarrow> LF \<notin> set body \<Longrightarrow> CR \<notin> set body \<Longrightarrow> skip_one (''--'' @ body @ [nl] @ r) r"
| line_eof: "LF \<notin> set body \<Longrightarrow> CR \<notin> set body \<Longrightarrow> skip_one (''--'' @ body) []"
| block: "in_comment 1 s r \<Longrightarrow> skip_one (''/*'' @ s) r"

inductive_cases skip_oneE: "skip_one s r"

definition skips :: "bytes \<Rightarrow> bytes \<Rightarrow> bool" where
  "skips sql head \<longleftrightarrow> skip_one\<^sup>*\<^sup>* sql head \<and> (\<nexists>r. skip_one head r)"

lemma skip_block_in_comment:
  "skip_block d s = Some r \<Longrightarrow> 0 < d \<Longrightarrow> in_comment d s r"
proof (induction d s rule: skip_block.induct)
  case (1 d a b rest)
  consider "a = CHR ''/''" "b = CHR ''*''" | "a = CHR ''*''" "b = CHR ''/''"
    | "\<not> (a = CHR ''/'' \<and> b = CHR ''*'')" "\<not> (a = CHR ''*'' \<and> b = CHR ''/'')" by blast
  then show ?case
  proof cases
    case 1
    then have "in_comment (Suc d) rest r" using "1.IH"(1) "1.prems" by simp
    then show ?thesis using 1 in_comment.opens [of d rest r] by simp
  next
    case 2
    show ?thesis
    proof (cases "d - 1 = 0")
      case True
      then have "d = Suc 0" "r = rest" using "1.prems" 2 by auto
      then show ?thesis using 2 in_comment.last_close [of rest] by simp
    next
      case False
      then obtain e where e: "d = Suc (Suc e)" using that by (cases d; cases "d - 1") auto
      then have "in_comment (Suc e) rest r" using "1.IH"(2) "1.prems" 2 False by auto
      then show ?thesis using 2 e in_comment.inner_close [of e rest r] by simp
    qed
  next
    case 3
    then have "in_comment d (b # rest) r" using "1.IH"(3) "1.prems" by auto
    moreover have "\<not> starts_with (a # b # rest) ''/*''" "\<not> starts_with (a # b # rest) ''*/''"
      using 3 by (auto simp: starts_with_iff)
    ultimately show ?thesis by (simp add: in_comment.other)
  qed
qed auto

lemma in_comment_skip_block: "in_comment d s r \<Longrightarrow> 0 < d \<Longrightarrow> skip_block d s = Some r"
proof (induction rule: in_comment.induct)
  case (other c s d r)
  then have IH: "skip_block d s = Some r" by blast
  then obtain b t where s: "s = b # t" by (cases s) auto
  have "\<not> (c = CHR ''/'' \<and> b = CHR ''*'')" "\<not> (c = CHR ''*'' \<and> b = CHR ''/'')"
    using other.hyps(1,2) s by (auto simp: starts_with_iff)
  then show ?case using IH s by auto
qed auto

lemma in_comment_iff: "in_comment 1 s r \<longleftrightarrow> skip_block 1 s = Some r"
  using skip_block_in_comment [of 1 s r] in_comment_skip_block [of 1 s r] by auto

text \<open>The scanner has one way to go on.\<close>

lemma white_space_head: "ch \<in> set white_space \<Longrightarrow> \<exists>c cs. ch = c # cs \<and> c \<noteq> CHR ''-'' \<and> c \<noteq> CHR ''/''"
proof -
  assume ch: "ch \<in> set white_space"
  have "list_all (\<lambda>ch. ch \<noteq> [] \<and> hd ch \<noteq> CHR ''-'' \<and> hd ch \<noteq> CHR ''/'') white_space" by code_simp
  then have "ch \<noteq> [] \<and> hd ch \<noteq> CHR ''-'' \<and> hd ch \<noteq> CHR ''/''" using ch unfolding list_all_iff by blast
  then show ?thesis by (cases ch) auto
qed

lemma skip_line_end:
  assumes "nl = LF \<or> nl = CR" "LF \<notin> set body" "CR \<notin> set body"
  shows "skip_line (body @ [nl] @ r) = r"
proof -
  have "dropWhile (\<lambda>c. c \<noteq> LF \<and> c \<noteq> CR) (body @ nl # r) = nl # r"
    using assms by (induction body) auto
  then show ?thesis by (simp add: skip_line_def)
qed

lemma skip_line_eof: "LF \<notin> set body \<Longrightarrow> CR \<notin> set body \<Longrightarrow> skip_line body = []"
  by (induction body) (auto simp: skip_line_def)

lemma skip_one_line: "skip_one (''--'' @ s) r \<longleftrightarrow> r = skip_line s"
proof
  assume "skip_one (''--'' @ s) r"
  then show "r = skip_line s"
    by (rule skip_oneE) (auto simp: skip_line_end [simplified] skip_line_eof dest!: white_space_head)
next
  assume r: "r = skip_line s"
  let ?body = "takeWhile (\<lambda>c. c \<noteq> LF \<and> c \<noteq> CR) s"
  have body: "LF \<notin> set ?body" "CR \<notin> set ?body" by (auto dest: set_takeWhileD)
  show "skip_one (''--'' @ s) r"
  proof (cases "dropWhile (\<lambda>c. c \<noteq> LF \<and> c \<noteq> CR) s")
    case Nil
    have "r = []" unfolding r skip_line_def Nil by simp
    moreover have "?body = s" using Nil by (metis append_Nil2 takeWhile_dropWhile_id)
    ultimately show ?thesis using skip_one.line_eof [OF body] by (simp only:)
  next
    case (Cons nl t)
    then have "nl = LF \<or> nl = CR" using hd_dropWhile [of "\<lambda>c. c \<noteq> LF \<and> c \<noteq> CR" s] by auto
    moreover have "s = ?body @ [nl] @ t" using Cons takeWhile_dropWhile_id [of _ s] by (metis append_Cons append_Nil)
    moreover have "r = t" using r Cons by (simp add: skip_line_def)
    ultimately show ?thesis using skip_one.line_end [of nl ?body t] body by simp
  qed
qed

lemma skip_one_block: "skip_one (''/*'' @ s) r \<longleftrightarrow> skip_block 1 s = Some r"
proof
  assume "skip_one (''/*'' @ s) r"
  then show "skip_block 1 s = Some r"
    by (rule skip_oneE) (auto simp: in_comment_iff [simplified] dest!: white_space_head)
next
  assume "skip_block 1 s = Some r"
  then show "skip_one (''/*'' @ s) r" using in_comment_iff skip_one.block by blast
qed

definition starts_space :: "bytes \<Rightarrow> bool" where
  "starts_space s \<longleftrightarrow> (case utf8_chars s of [] \<Rightarrow> False | ch # _ \<Rightarrow> is_ws ch)"

lemma skip_one_space: "starts_space (c # cs) \<Longrightarrow> skip_one (c # cs) r \<longleftrightarrow> r = dropWhile is_cont cs"
proof -
  assume sp: "starts_space (c # cs)"
  let ?ch = "c # takeWhile is_cont cs"
  have ws: "?ch \<in> set white_space" using sp by (simp add: starts_space_def is_ws_def)
  have c: "c \<noteq> CHR ''-''" "c \<noteq> CHR ''/''" using white_space_head [OF ws] by auto
  show ?thesis
  proof
    assume "skip_one (c # cs) r"
    then show "r = dropWhile is_cont cs"
    proof (rule skip_oneE)
      fix ch
      assume chars: "utf8_chars (ch @ r) = ch # utf8_chars r" and eq: "c # cs = ch @ r"
      have "ch = ?ch" using chars unfolding eq [symmetric] by simp
      then have "cs = takeWhile is_cont cs @ r" using eq by (metis append_Cons list.inject)
      then show ?thesis by (metis same_append_eq takeWhile_dropWhile_id)
    qed (use c in auto)
  next
    assume "r = dropWhile is_cont cs"
    then show "skip_one (c # cs) r" using ws by (intro skip_one.space [of ?ch]) auto
  qed
qed

lemma skip_one_cases:
  "skip_one s r \<Longrightarrow> starts_space s \<or> starts_with s ''--'' \<or> starts_with s ''/*''"
  by (erule skip_oneE) (auto simp: starts_space_def is_ws_def starts_with_iff)

lemma skip_one_determ:
  assumes a: "skip_one s r" "skip_one s r'"
  shows "r = r'"
  using skip_one_cases [OF a(1)]
proof (elim disjE)
  assume "starts_space s"
  then obtain c cs where "s = c # cs" by (cases s) (auto simp: starts_space_def)
  with a \<open>starts_space s\<close> show ?thesis
    using skip_one_space [of c cs r] skip_one_space [of c cs r'] by simp
next
  assume "starts_with s ''--''"
  then show ?thesis using a skip_one_line unfolding starts_with_iff by metis
next
  assume "starts_with s ''/*''"
  then show ?thesis using a skip_one_block unfolding starts_with_iff by (metis option.inject)
qed

lemma skips_unique:
  assumes "skips s h" "skips s h'"
  shows "h = h'"
proof -
  have path: "skip_one\<^sup>*\<^sup>* s h" "\<nexists>r. skip_one h r" "skip_one\<^sup>*\<^sup>* s h'" "\<nexists>r. skip_one h' r"
    using assms by (auto simp: skips_def)
  from path(1,3) show ?thesis
  proof (induction rule: converse_rtranclp_induct)
    case base
    then show ?case using path(2) by (metis converse_rtranclpE)
  next
    case (step y z)
    from step.prems step.hyps(1) path(4) have "skip_one\<^sup>*\<^sup>* z h'"
      using skip_one_determ by (metis converse_rtranclpE)
    then show ?case by (rule step.IH)
  qed
qed

lemma skips_step: "skip_one s t \<Longrightarrow> skips t h \<Longrightarrow> skips s h"
  by (auto simp: skips_def intro: converse_rtranclp_into_rtranclp)

lemma trim_start_skips: "skip_one\<^sup>*\<^sup>* s (trim_start s) \<and> \<not> starts_space (trim_start s)"
proof (induction s rule: utf8_chars.induct)
  case 1
  then show ?case by (simp add: trim_start_def starts_space_def)
next
  case (2 c cs)
  show ?case
  proof (cases "starts_space (c # cs)")
    case True
    then have "trim_start (c # cs) = trim_start (dropWhile is_cont cs)"
      by (simp add: trim_start_def starts_space_def)
    moreover have "skip_one (c # cs) (dropWhile is_cont cs)" using skip_one_space [OF True] by blast
    ultimately show ?thesis using 2 by (auto intro: converse_rtranclp_into_rtranclp)
  next
    case False
    then have "trim_start (c # cs) = concat (utf8_chars (c # cs))"
      by (simp add: trim_start_def starts_space_def)
    with False show ?thesis by (simp del: utf8_chars.simps)
  qed
qed

lemma trim_start_skips_to: "skips (trim_start t) h \<Longrightarrow> skips t h"
  using trim_start_skips [of t] by (auto simp: skips_def)

lemma strip_loop_skips:
  "\<not> starts_space t \<Longrightarrow>
   (case strip_loop t of Inr h \<Rightarrow> skips t h | Inl e \<Rightarrow> \<exists>h. skips t h \<and> starts_with h ''/*'')"
proof (induction t rule: strip_loop.induct)
  case (1 t)
  consider after where "strip_prefix ''--'' t = Some after"
    | "strip_prefix ''--'' t = None" "starts_with t ''/*''" "\<exists>e. skip_block_comment t = Inl e"
    | after where "strip_prefix ''--'' t = None" "starts_with t ''/*''" "skip_block_comment t = Inr after"
    | "strip_prefix ''--'' t = None" "\<not> starts_with t ''/*''"
    by (cases "strip_prefix ''--'' t"; cases "skip_block_comment t") auto
  then show ?case
  proof cases
    case (1 after)
    then have t: "t = ''--'' @ after" by simp
    have step: "skip_one t (skip_line after)" using skip_one_line t by blast
    have "case strip_loop (trim_start (skip_line after)) of Inr h \<Rightarrow> skips (trim_start (skip_line after)) h
        | Inl e \<Rightarrow> \<exists>h. skips (trim_start (skip_line after)) h \<and> starts_with h ''/*''"
      using "1.IH"(2) [OF 1] trim_start_skips by blast
    moreover have "strip_loop t = strip_loop (trim_start (skip_line after))"
      by (subst strip_loop.simps) (simp add: 1 del: strip_prefix_Some)
    ultimately show ?thesis
      using skips_step [OF step trim_start_skips_to] by (auto split: sum.splits)
  next
    case 2
    then obtain s where s: "t = ''/*'' @ s" by (auto simp: starts_with_iff)
    have "skip_block 1 s = None" using 2 s by (auto simp: skip_block_comment_def split: option.splits)
    then have "skips t t" using skip_one_block s by (simp add: skips_def)
    then show ?thesis using 2 by (auto simp: strip_loop.simps [of t])
  next
    case (3 after)
    then obtain s where s: "t = ''/*'' @ s" by (auto simp: starts_with_iff)
    have "skip_block 1 s = Some after" using 3 s by (auto simp: skip_block_comment_def split: option.splits)
    then have step: "skip_one t after" using skip_one_block s by blast
    have "case strip_loop (trim_start after) of Inr h \<Rightarrow> skips (trim_start after) h
        | Inl e \<Rightarrow> \<exists>h. skips (trim_start after) h \<and> starts_with h ''/*''"
      using "1.IH"(1) [OF 3] trim_start_skips by blast
    moreover have "strip_loop t = strip_loop (trim_start after)"
      by (subst strip_loop.simps) (simp add: 3)
    ultimately show ?thesis
      using skips_step [OF step trim_start_skips_to] by (auto split: sum.splits)
  next
    case 4
    then have "\<not> starts_with t ''--''" by (simp add: starts_with_def)
    then have "skips t t" using skip_one_cases "1.prems" 4(2) by (auto simp: skips_def)
    then show ?thesis using 4 by (simp add: strip_loop.simps [of t])
  qed
qed

lemma starts_allowed_no_comment: "starts_with h ''/*'' \<Longrightarrow> \<not> starts_allowed u h \<and> \<not> starts_with h ''(''"
  by (auto simp: starts_with_iff starts_allowed_def ALLOWED_PREFIXES_def to_ascii_uppercase_def ascii_upper_char_def
      is_lower_def byte_def split: option.splits)

lemma validate_sql_admits:
  "validate_sql uni_alnum sql = Inr () \<longleftrightarrow>
   (\<exists>head. skips sql head \<and> (starts_with head ''('' \<or> starts_allowed uni_alnum head))"
proof -
  have start: "\<not> starts_space (trim_start sql)" using trim_start_skips by blast
  show ?thesis
  proof (cases "strip_loop (trim_start sql)")
    case (Inl e)
    then obtain h where h: "skips (trim_start sql) h" "starts_with h ''/*''"
      using strip_loop_skips [OF start] by auto
    have "\<not> (starts_with head ''('' \<or> starts_allowed uni_alnum head)" if "skips sql head" for head
      using skips_unique [OF that trim_start_skips_to [OF h(1)]] starts_allowed_no_comment [OF h(2)] by blast
    then show ?thesis using Inl by (auto simp: validate_sql_def strip_leading_noise_def)
  next
    case (Inr h)
    then have h: "skips sql h" using strip_loop_skips [OF start] trim_start_skips_to by simp
    have "validate_sql uni_alnum sql = Inr () \<longleftrightarrow> starts_with h ''('' \<or> starts_allowed uni_alnum h"
      using Inr by (simp add: validate_sql_def strip_leading_noise_def)
    then show ?thesis using h skips_unique [OF _ h] by blast
  qed
qed

text \<open>A first word that is no keyword: neither a shorter nor a longer keyword fits.\<close>

lemma continues_alpha: "is_alpha c \<Longrightarrow> continues_word u (c # cs)"
  by (auto simp: continues_word_def byte_class_defs)

lemma ascii_upper_alpha: "is_alpha (ascii_upper_char c) = is_alpha c"
  by (cases "is_lower c") (auto simp: ascii_upper_char_def byte_class_defs byte_def of_char_of)

lemma first_word_allowed:
  assumes "word \<noteq> []" "list_all is_alpha word" "\<not> continues_word u rest"
    and "to_ascii_uppercase word \<notin> set ALLOWED_PREFIXES"
  shows "\<not> starts_allowed u (word @ rest)"
proof
  assume "starts_allowed u (word @ rest)"
  then obtain kw r where kw: "kw \<in> set ALLOWED_PREFIXES" "\<not> continues_word u r"
    and eq: "to_ascii_uppercase word @ to_ascii_uppercase rest = kw @ r"
    by (auto simp: starts_allowed_def list_ex_iff to_ascii_uppercase_def split: option.splits)
  have alpha: "is_alpha c" if "c \<in> set kw" for c
    using that kw(1) by (auto simp: ALLOWED_PREFIXES_def byte_class_defs byte_def)
  from eq consider us where "to_ascii_uppercase word = kw @ us" "us @ to_ascii_uppercase rest = r"
    | us where "to_ascii_uppercase word @ us = kw" "to_ascii_uppercase rest = us @ r"
    by (auto simp: append_eq_append_conv2)
  then show False
  proof cases
    case (1 us)
    show False
    proof (cases us)
      case (Cons c cs)
      then have "c \<in> set (to_ascii_uppercase word)" using 1 by simp
      then have "is_alpha c" using assms(2) by (auto simp: to_ascii_uppercase_def list_all_iff ascii_upper_alpha)
      then show False using kw(2) 1 Cons continues_alpha by auto
    qed (use 1(1) kw(1) assms(4) in simp)
  next
    case (2 us)
    show False
    proof (cases us)
      case (Cons c cs)
      then obtain d ds where rest: "rest = d # ds" "c = ascii_upper_char d"
        using 2(2) by (cases rest) (auto simp: to_ascii_uppercase_def)
      have "c \<in> set kw" using 2(1) Cons by (metis append_Cons in_set_conv_decomp)
      then have "is_alpha d" using alpha rest(2) ascii_upper_alpha by metis
      then show False using assms(3) rest(1) continues_alpha by blast
    qed (use 2(1) kw(1) assms(4) in simp)
  qed
qed

section \<open>Properties\<close>


text \<open>No statement whose first token is another word gets through, however it is dressed up:
  behind any white space and comments, a word that is none of the seven keywords is refused.
  In particular \<open>SET\<close>, \<open>RESET\<close>, \<open>DO\<close>, \<open>COPY\<close> and \<open>EXPLAIN\<close> are.\<close>

theorem validate_sql_refuses:
  assumes "skips sql (word @ rest)" and "word \<noteq> []" and "list_all is_alpha word"
    and "\<not> continues_word uni_alnum rest" and "to_ascii_uppercase word \<notin> set ALLOWED_PREFIXES"
  shows "validate_sql uni_alnum sql \<noteq> Inr ()"
proof
  assume "validate_sql uni_alnum sql = Inr ()"
  then obtain head where head: "skips sql head" "starts_with head ''('' \<or> starts_allowed uni_alnum head"
    using validate_sql_admits by blast
  then have "head = word @ rest" using skips_unique assms(1) by blast
  moreover have "\<not> starts_with (word @ rest) ''(''"
    using assms(2,3) by (cases word) (auto simp: starts_with_iff byte_class_defs byte_def)
  ultimately have "starts_allowed uni_alnum (word @ rest)" using head(2) by blast
  then show False using first_word_allowed assms(2-5) by blast
qed

theorem validate_sql_refuses_witness:
  "\<forall>uni_alnum. validate_sql uni_alnum (''/*x*/RESET ROLE'') \<noteq> Inr ()"
proof
  fix uni_alnum
  have "in_comment 1 (''x*/RESET ROLE'') (''RESET ROLE'')"
    using skip_block_in_comment [of 1 "''x*/RESET ROLE''" "''RESET ROLE''"] by simp
  then have "skip_one (''/*x*/RESET ROLE'') (''RESET ROLE'')"
    using skip_one.block [of "''x*/RESET ROLE''" "''RESET ROLE''"] by simp
  moreover have "\<not> starts_space (''RESET ROLE'')"
    by code_simp
  then have "\<nexists>r. skip_one (''RESET ROLE'') r"
    using skip_one_cases [of "''RESET ROLE''"] by (auto simp: starts_with_iff)
  ultimately have "skips (''/*x*/RESET ROLE'') (''RESET'' @ '' ROLE'')" by (auto simp: skips_def)
  then show "validate_sql uni_alnum (''/*x*/RESET ROLE'') \<noteq> Inr ()"
    by (rule validate_sql_refuses)
      (simp_all add: byte_class_defs byte_def continues_word_def is_cont_def ALLOWED_PREFIXES_def to_ascii_uppercase_def
        ascii_upper_char_def)
qed

end
