(* ===== verification/Tx_Session.thy ===== *)
theory Tx_Session
  imports Sql_Gate Effect
begin

text \<open>
  Multi-statement transactions of an app, from the second half of
  \<open>governance/enforcement/sql_proxy.rs\<close> (\<open>TxLifecycle\<close>, \<open>TxSession\<close> and the task that owns the
  PostgreSQL transaction). The task is a state machine: it waits in \<open>select!\<close>, takes a command
  from the channel, runs a statement, finalizes, and then gives back the channel, the permit and
  the completion latch, in this order. Other threads send commands, cancel, drop their handles,
  and time passes; they may do so between any two steps of the task.

  \<open>actor_step\<close> is the task, \<open>env_step\<close> the others. What PostgreSQL answers is left open: a
  statement that passes the filter returns any result, a \<open>COMMIT\<close> may fail.
\<close>

section \<open>State\<close>

datatype phase = TX_ACTIVE | TX_FINALIZING | TX_CANCEL_REQUESTED | TX_FINISHED

datatype tx_cmd = Exec bytes | Poison bytes | Commit | Rollback

text \<open>Where the task is: opening the transaction, at the top of the loop, with a command in hand, awaiting a statement,
  awaiting \<open>COMMIT\<close>, or in the epilogue after the loop; a task that could not open the
  transaction returns early and drops its permit and the latch on the way out.\<close>

datatype control =
    Beginning
  | AbortPermit | AbortCompletion | Aborted
  | AtSelect
  | Received tx_cmd
  | Executing bytes
  | Committing
  | DropChannel | DropPermit | DropCompletion | SendDone
  | Ended

datatype pg_tx = PgOpen | PgCommitted | PgRolledBack | PgCommitFailed

record tx =
  tx_phase :: phase
  tx_cancelled :: bool
  tx_completed :: bool
  tx_now :: nat
  tx_deadline :: nat
  tx_queue :: "tx_cmd list"
  tx_receiver_open :: bool
  tx_senders_open :: bool
  tx_failed :: "bytes option"
  tx_pg :: pg_tx
  tx_control :: control
  tx_permit :: bool
  tx_done :: bool
  tx_log :: "(bytes \<times> (bytes + unit)) list"
  tx_replies :: "(tx_cmd \<times> (bytes + unit)) list"

definition TX_CANCELLED :: bytes where "TX_CANCELLED = ''transaction invocation closed''"
definition TX_QUEUE :: nat where "TX_QUEUE = 8"
definition TX_MAX_CONCURRENT :: nat where "TX_MAX_CONCURRENT = 8"
definition POOL_MAX_CONNECTIONS :: nat where "POOL_MAX_CONNECTIONS = 20"
definition TX_MAX_WALL_TIME :: nat where "TX_MAX_WALL_TIME = 60"

text \<open>The state in which \<open>begin_with_invocation\<close> spawns the task.\<close>

definition new_session :: "nat \<Rightarrow> tx" where
  "new_session now =
     \<lparr>tx_phase = TX_ACTIVE, tx_cancelled = False, tx_completed = False, tx_now = now,
      tx_deadline = now + TX_MAX_WALL_TIME, tx_queue = [], tx_receiver_open = True, tx_senders_open = True,
      tx_failed = None, tx_pg = PgOpen, tx_control = Beginning, tx_permit = True, tx_done = False,
      tx_log = [], tx_replies = []\<rparr>"

section \<open>The lifecycle\<close>

definition cancel :: "tx \<Rightarrow> tx" where
  "cancel s =
     (if tx_phase s = TX_ACTIVE then s\<lparr>tx_phase := TX_CANCEL_REQUESTED, tx_cancelled := True\<rparr> else s)"

definition begin_finalization :: "tx \<Rightarrow> bool \<times> tx" where
  "begin_finalization s =
     (if tx_phase s = TX_ACTIVE then (True, s\<lparr>tx_phase := TX_FINALIZING\<rparr>) else (False, s))"

definition mark_finished :: "tx \<Rightarrow> tx" where
  "mark_finished s = s\<lparr>tx_phase := TX_FINISHED, tx_completed := True\<rparr>"

section \<open>The task\<close>

definition past_deadline :: "tx \<Rightarrow> bool" where
  "past_deadline s \<longleftrightarrow> tx_deadline s \<le> tx_now s"

definition reply :: "tx_cmd \<Rightarrow> bytes + unit \<Rightarrow> tx \<Rightarrow> tx" where
  "reply cmd r s = s\<lparr>tx_replies := tx_replies s @ [(cmd, r)]\<rparr>"

text \<open>\<open>pg_tx.rollback().await; break\<close>. Whatever the rollback returns, the transaction is gone.\<close>

definition rollback_break :: "tx \<Rightarrow> tx" where
  "rollback_break s = s\<lparr>tx_pg := PgRolledBack, tx_control := DropChannel\<rparr>"

text \<open>What a statement may return: the message of the filter when the filter refuses it,
  anything otherwise.\<close>

definition exec_result :: "(bytes \<Rightarrow> bool) \<Rightarrow> bytes \<Rightarrow> bytes + unit \<Rightarrow> bool" where
  "exec_result uni_alnum sql r \<longleftrightarrow> (\<forall>e. validate_sql uni_alnum sql = Inl e \<longrightarrow> r = Inl e)"

definition log_statement :: "(bytes \<Rightarrow> bool) \<Rightarrow> bytes \<Rightarrow> bytes + unit \<Rightarrow> tx \<Rightarrow> tx" where
  "log_statement uni_alnum sql r s =
     (if validate_sql uni_alnum sql = Inr () then s\<lparr>tx_log := tx_log s @ [(sql, r)]\<rparr> else s)"

definition note_failure :: "bytes + unit \<Rightarrow> tx \<Rightarrow> tx" where
  "note_failure r s = (case r of Inl e \<Rightarrow> s\<lparr>tx_failed := Some e\<rparr> | Inr _ \<Rightarrow> s)"

inductive actor_step :: "(bytes \<Rightarrow> bool) \<Rightarrow> tx \<Rightarrow> tx \<Rightarrow> bool" for uni_alnum where
  begin_ok:
    "tx_control s = Beginning \<Longrightarrow> actor_step uni_alnum s (s\<lparr>tx_control := AtSelect\<rparr>)"
| begin_fails:
    "tx_control s = Beginning \<Longrightarrow> actor_step uni_alnum s (s\<lparr>tx_pg := PgRolledBack, tx_control := AbortPermit\<rparr>)"
| abort_permit:
    "tx_control s = AbortPermit \<Longrightarrow> actor_step uni_alnum s (s\<lparr>tx_permit := False, tx_control := AbortCompletion\<rparr>)"
| abort_completion:
    "tx_control s = AbortCompletion \<Longrightarrow>
     actor_step uni_alnum s ((mark_finished s)\<lparr>tx_receiver_open := False, tx_queue := [], tx_control := Aborted\<rparr>)"
| select_cancelled:
    "tx_control s = AtSelect \<Longrightarrow> tx_cancelled s \<Longrightarrow> actor_step uni_alnum s (rollback_break s)"
| select_deadline:
    "tx_control s = AtSelect \<Longrightarrow> \<not> tx_cancelled s \<Longrightarrow> past_deadline s \<Longrightarrow>
     actor_step uni_alnum s (rollback_break (cancel s))"
| select_command:
    "tx_control s = AtSelect \<Longrightarrow> \<not> tx_cancelled s \<Longrightarrow> \<not> past_deadline s \<Longrightarrow> tx_queue s = cmd # cmds \<Longrightarrow>
     actor_step uni_alnum s (s\<lparr>tx_queue := cmds, tx_control := Received cmd\<rparr>)"
| select_closed:
    "tx_control s = AtSelect \<Longrightarrow> \<not> tx_cancelled s \<Longrightarrow> \<not> past_deadline s \<Longrightarrow> tx_queue s = [] \<Longrightarrow> \<not> tx_senders_open s \<Longrightarrow>
     actor_step uni_alnum s (rollback_break s)"
| exec_aborted:
    "tx_control s = Received (Exec sql) \<Longrightarrow> tx_failed s = Some reason \<Longrightarrow>
     actor_step uni_alnum s (reply (Exec sql) (Inl (''transaction is aborted: '' @ reason)) (s\<lparr>tx_control := AtSelect\<rparr>))"
| exec_start:
    "tx_control s = Received (Exec sql) \<Longrightarrow> tx_failed s = None \<Longrightarrow>
     actor_step uni_alnum s (s\<lparr>tx_control := Executing sql\<rparr>)"
| exec_cancelled:
    "tx_control s = Executing sql \<Longrightarrow> tx_cancelled s \<Longrightarrow>
     actor_step uni_alnum s (rollback_break (reply (Exec sql) (Inl TX_CANCELLED) (cancel s)))"
| exec_deadline:
    "tx_control s = Executing sql \<Longrightarrow> \<not> tx_cancelled s \<Longrightarrow> past_deadline s \<Longrightarrow>
     actor_step uni_alnum s (rollback_break (reply (Exec sql) (Inl ''transaction deadline exceeded'') (cancel s)))"
| exec_returns:
    "tx_control s = Executing sql \<Longrightarrow> \<not> tx_cancelled s \<Longrightarrow> \<not> past_deadline s \<Longrightarrow> exec_result uni_alnum sql r \<Longrightarrow>
     actor_step uni_alnum s (reply (Exec sql) r (note_failure r (log_statement uni_alnum sql r (s\<lparr>tx_control := AtSelect\<rparr>))))"
| poison:
    "tx_control s = Received (Poison err) \<Longrightarrow>
     actor_step uni_alnum s (reply (Poison err) (Inr ())
       (s\<lparr>tx_failed := (case tx_failed s of None \<Rightarrow> Some err | Some e \<Rightarrow> Some e), tx_control := AtSelect\<rparr>))"
| commit_cancelled:
    "tx_control s = Received Commit \<Longrightarrow> begin_finalization s = (False, s') \<Longrightarrow>
     actor_step uni_alnum s (reply Commit (Inl TX_CANCELLED) (rollback_break s'))"
| commit_after_failure:
    "tx_control s = Received Commit \<Longrightarrow> begin_finalization s = (True, s') \<Longrightarrow> tx_failed s = Some reason \<Longrightarrow>
     error = ''transaction rolled back after statement error: '' @ reason \<or>
     (\<exists>rb. error = ''transaction failed ('' @ reason @ '') and rollback failed ('' @ rb @ '')'') \<Longrightarrow>
     actor_step uni_alnum s (reply Commit (Inl error) (rollback_break s'))"
| commit_start:
    "tx_control s = Received Commit \<Longrightarrow> begin_finalization s = (True, s') \<Longrightarrow> tx_failed s = None \<Longrightarrow>
     actor_step uni_alnum s (s'\<lparr>tx_control := Committing\<rparr>)"
| commit_ok:
    "tx_control s = Committing \<Longrightarrow>
     actor_step uni_alnum s (reply Commit (Inr ()) (s\<lparr>tx_pg := PgCommitted, tx_control := DropChannel\<rparr>))"
| commit_error:
    "tx_control s = Committing \<Longrightarrow>
     actor_step uni_alnum s (reply Commit (Inl e) (s\<lparr>tx_pg := PgCommitFailed, tx_control := DropChannel\<rparr>))"
| rollback:
    "tx_control s = Received Rollback \<Longrightarrow> begin_finalization s = (ok, s') \<Longrightarrow>
     actor_step uni_alnum s (reply Rollback r (rollback_break s'))"
| drop_channel:
    "tx_control s = DropChannel \<Longrightarrow>
     actor_step uni_alnum s (s\<lparr>tx_receiver_open := False, tx_queue := [], tx_control := DropPermit\<rparr>)"
| drop_permit:
    "tx_control s = DropPermit \<Longrightarrow> actor_step uni_alnum s (s\<lparr>tx_permit := False, tx_control := DropCompletion\<rparr>)"
| drop_completion:
    "tx_control s = DropCompletion \<Longrightarrow> actor_step uni_alnum s ((mark_finished s)\<lparr>tx_control := SendDone\<rparr>)"
| send_done:
    "tx_control s = SendDone \<Longrightarrow> actor_step uni_alnum s (s\<lparr>tx_done := True, tx_control := Ended\<rparr>)"

inductive_cases actor_stepE: "actor_step u s t"

text \<open>The holders of the session: \<open>round_trip\<close> and \<open>try_enqueue\<close> put a command into the bounded
  channel while its receiver lives; \<open>cancel\<close> is called on drop and on close; the channel closes
  when the last sender is gone.\<close>

inductive env_step :: "tx \<Rightarrow> tx \<Rightarrow> bool" where
  send: "tx_senders_open s \<Longrightarrow> tx_receiver_open s \<Longrightarrow> length (tx_queue s) < TX_QUEUE \<Longrightarrow>
    env_step s (s\<lparr>tx_queue := tx_queue s @ [cmd]\<rparr>)"
| cancel: "env_step s (cancel s)"
| drop_senders: "env_step s (s\<lparr>tx_senders_open := False\<rparr>)"
| tick: "env_step s (s\<lparr>tx_now := tx_now s + n\<rparr>)"

inductive_cases env_stepE: "env_step s t"

inductive tx_step :: "(bytes \<Rightarrow> bool) \<Rightarrow> tx \<Rightarrow> tx \<Rightarrow> bool" for uni_alnum where
  actor: "actor_step uni_alnum s t \<Longrightarrow> tx_step uni_alnum s t"
| env: "env_step s t \<Longrightarrow> tx_step uni_alnum s t"

inductive_cases tx_stepE: "tx_step u s t"

section \<open>The invariant\<close>

definition serving :: "control \<Rightarrow> bool" where
  "serving c = (case c of Beginning \<Rightarrow> True | AtSelect \<Rightarrow> True | Received _ \<Rightarrow> True | Executing _ \<Rightarrow> True | Committing \<Rightarrow> True | _ \<Rightarrow> False)"

definition phase_inv :: "tx \<Rightarrow> bool" where
  "phase_inv s \<longleftrightarrow>
     (tx_cancelled s \<longrightarrow> tx_phase s = TX_CANCEL_REQUESTED \<or> tx_phase s = TX_FINISHED) \<and>
     (tx_control s = Committing \<longrightarrow> tx_phase s = TX_FINALIZING \<and> tx_failed s = None) \<and>
     (\<forall>sql. tx_control s = Executing sql \<longrightarrow> tx_failed s = None) \<and>
     (tx_pg s = PgOpen \<longleftrightarrow> serving (tx_control s)) \<and>
     (tx_pg s = PgCommitted \<or> tx_pg s = PgCommitFailed \<longrightarrow>
        \<not> tx_cancelled s \<and> tx_phase s \<noteq> TX_ACTIVE \<and> tx_failed s = None)"

text \<open>What the log and the replies say of a transaction, entry by entry.\<close>

definition entry_ok :: "(bytes \<Rightarrow> bool) \<Rightarrow> bytes option \<Rightarrow> bytes \<times> (bytes + unit) \<Rightarrow> bool" where
  "entry_ok u failed e \<longleftrightarrow> validate_sql u (fst e) = Inr () \<and> (failed = None \<longrightarrow> snd e = Inr ())"

definition reply_ok :: "bytes option \<Rightarrow> pg_tx \<Rightarrow> tx_cmd \<times> (bytes + unit) \<Rightarrow> bool" where
  "reply_ok failed pg e \<longleftrightarrow>
     (case fst e of
        Exec _ \<Rightarrow> snd e \<noteq> Inr () \<longrightarrow> failed \<noteq> None \<or> pg = PgRolledBack
      | Poison _ \<Rightarrow> failed \<noteq> None
      | Commit \<Rightarrow> snd e = Inr () \<longrightarrow> pg = PgCommitted
      | Rollback \<Rightarrow> pg = PgRolledBack)"

definition log_inv :: "(bytes \<Rightarrow> bool) \<Rightarrow> tx \<Rightarrow> bool" where
  "log_inv u s \<longleftrightarrow>
     list_all (entry_ok u (tx_failed s)) (tx_log s) \<and> list_all (reply_ok (tx_failed s) (tx_pg s)) (tx_replies s)"

definition release_inv :: "tx \<Rightarrow> bool" where
  "release_inv s \<longleftrightarrow>
     (tx_permit s \<longleftrightarrow> tx_control s \<notin> {DropCompletion, SendDone, Ended, AbortCompletion, Aborted}) \<and>
     (tx_completed s \<longleftrightarrow> tx_control s \<in> {SendDone, Ended, Aborted}) \<and>
     (tx_done s \<longleftrightarrow> tx_control s = Ended) \<and>
     (tx_receiver_open s \<longleftrightarrow> serving (tx_control s) \<or> tx_control s \<in> {DropChannel, AbortPermit, AbortCompletion})"

definition tx_inv :: "(bytes \<Rightarrow> bool) \<Rightarrow> tx \<Rightarrow> bool" where
  "tx_inv u s \<longleftrightarrow> phase_inv s \<and> log_inv u s \<and> release_inv s"

lemmas tx_defs = rollback_break_def reply_def cancel_def begin_finalization_def mark_finished_def
  note_failure_def log_statement_def serving_def

lemma phase_inv_actor: "phase_inv s \<Longrightarrow> actor_step u s t \<Longrightarrow> phase_inv t"
  by (erule actor_stepE) (auto simp: phase_inv_def tx_defs split: if_splits sum.splits option.splits)

lemma release_inv_actor: "release_inv s \<Longrightarrow> actor_step u s t \<Longrightarrow> release_inv t"
  by (erule actor_stepE) (auto simp: release_inv_def tx_defs split: if_splits sum.splits option.splits)

lemma entry_ok_fails: "entry_ok u f e \<Longrightarrow> entry_ok u (Some x) e"
  by (simp add: entry_ok_def)

lemma reply_ok_mono:
  "reply_ok f PgOpen e \<Longrightarrow> (f \<noteq> None \<Longrightarrow> f' \<noteq> None) \<Longrightarrow> reply_ok f' pg e"
  by (auto simp: reply_ok_def split: tx_cmd.splits)

lemma log_inv_open:
  assumes "log_inv u s" "tx_pg s = PgOpen" "tx_log t = tx_log s" "tx_failed t = tx_failed s"
    and "tx_replies t = tx_replies s @ new" "list_all (reply_ok (tx_failed t) (tx_pg t)) new"
  shows "log_inv u t"
  using assms reply_ok_mono [of "tx_failed s" _ "tx_failed s" "tx_pg t"]
  by (auto simp: log_inv_def list_all_iff)

lemma log_inv_same:
  "log_inv u s \<Longrightarrow> tx_log t = tx_log s \<Longrightarrow> tx_failed t = tx_failed s \<Longrightarrow> tx_pg t = tx_pg s \<Longrightarrow>
   tx_replies t = tx_replies s \<Longrightarrow> log_inv u t"
  by (simp add: log_inv_def)

lemma log_inv_actor:
  assumes p: "phase_inv s" and l: "log_inv u s" and st: "actor_step u s t"
  shows "log_inv u t"
  using st
proof (cases rule: actor_step.cases)
  case (exec_returns sql r)
  have pg: "tx_pg s = PgOpen" and f: "tx_failed s = None"
    using p exec_returns by (auto simp: phase_inv_def serving_def)
  have old: "list_all (entry_ok u f') (tx_log s)" "list_all (reply_ok f' PgOpen) (tx_replies s)" for f'
    using l f pg entry_ok_fails reply_ok_mono [of None _ f' PgOpen] unfolding log_inv_def list_all_iff
    by (metis option.exhaust)+
  show ?thesis
  proof (cases r)
    case (Inl e)
    have "entry_ok u (Some e) (sql, Inl e)" if "validate_sql u sql = Inr ()" using that by (simp add: entry_ok_def)
    moreover have "reply_ok (Some e) PgOpen (Exec sql, Inl e)" by (simp add: reply_ok_def)
    ultimately show ?thesis using exec_returns(1) Inl pg old [of "Some e"] by (simp add: log_inv_def tx_defs)
  next
    case (Inr x)
    then have "validate_sql u sql = Inr ()" using exec_returns(5)
      by (cases "validate_sql u sql") (auto simp: exec_result_def)
    moreover from this have "entry_ok u None (sql, Inr ())" by (simp add: entry_ok_def)
    moreover have "reply_ok None PgOpen (Exec sql, Inr ())" by (simp add: reply_ok_def)
    ultimately show ?thesis using exec_returns(1) Inr pg f old [of None] by (simp add: log_inv_def tx_defs)
  qed
next
  case (poison err)
  let ?f = "case tx_failed s of None \<Rightarrow> Some err | Some e \<Rightarrow> Some e"
  have pg: "tx_pg s = PgOpen" using p poison by (auto simp: phase_inv_def serving_def)
  have some: "\<exists>e. ?f = Some e" by (cases "tx_failed s") auto
  have "list_all (entry_ok u ?f) (tx_log s)" "list_all (reply_ok ?f PgOpen) (tx_replies s)"
    using l pg some entry_ok_fails reply_ok_mono [of "tx_failed s" _ ?f PgOpen] unfolding log_inv_def list_all_iff
    by (metis option.distinct(1))+
  moreover have "reply_ok ?f PgOpen (Poison err, Inr ())" using some by (auto simp: reply_ok_def)
  ultimately show ?thesis using poison(1) pg by (simp add: log_inv_def reply_def)
next
  case (exec_aborted sql reason)
  then show ?thesis using p l
    by (intro log_inv_open [OF l, of t "[(Exec sql, Inl (''transaction is aborted: '' @ reason))]"])
      (auto simp: phase_inv_def tx_defs reply_ok_def)
next
  case (exec_cancelled sql)
  then show ?thesis using p
    by (intro log_inv_open [OF l, of t "[(Exec sql, Inl TX_CANCELLED)]"]) (auto simp: phase_inv_def tx_defs reply_ok_def)
next
  case (exec_deadline sql)
  then show ?thesis using p
    by (intro log_inv_open [OF l, of t "[(Exec sql, Inl ''transaction deadline exceeded'')]"])
      (auto simp: phase_inv_def tx_defs reply_ok_def)
next
  case (commit_cancelled s')
  then show ?thesis using p
    by (intro log_inv_open [OF l, of t "[(Commit, Inl TX_CANCELLED)]"])
      (auto simp: phase_inv_def tx_defs reply_ok_def split: if_splits)
next
  case (commit_after_failure s' reason error)
  then show ?thesis using p
    by (intro log_inv_open [OF l, of t "[(Commit, Inl error)]"])
      (auto simp: phase_inv_def tx_defs reply_ok_def split: if_splits)
next
  case commit_ok
  then show ?thesis using p
    by (intro log_inv_open [OF l, of t "[(Commit, Inr ())]"]) (auto simp: phase_inv_def tx_defs reply_ok_def)
next
  case (commit_error e)
  then show ?thesis using p
    by (intro log_inv_open [OF l, of t "[(Commit, Inl e)]"]) (auto simp: phase_inv_def tx_defs reply_ok_def)
next
  case (rollback ok s' r)
  then show ?thesis using p
    by (intro log_inv_open [OF l, of t "[(Rollback, r)]"])
      (auto simp: phase_inv_def tx_defs reply_ok_def split: if_splits)
next
  case begin_fails
  then show ?thesis using p by (intro log_inv_open [OF l, of t "[]"]) (auto simp: phase_inv_def tx_defs)
next
  case select_cancelled
  then show ?thesis using p by (intro log_inv_open [OF l, of t "[]"]) (auto simp: phase_inv_def tx_defs)
next
  case select_deadline
  then show ?thesis using p by (intro log_inv_open [OF l, of t "[]"]) (auto simp: phase_inv_def tx_defs)
next
  case select_closed
  then show ?thesis using p by (intro log_inv_open [OF l, of t "[]"]) (auto simp: phase_inv_def tx_defs)
next
  case (commit_start s')
  then show ?thesis by (intro log_inv_same [OF l]) (auto simp: tx_defs split: if_splits)
qed (auto intro!: log_inv_same [OF l] simp: tx_defs)

lemma tx_inv_actor: "tx_inv u s \<Longrightarrow> actor_step u s t \<Longrightarrow> tx_inv u t"
  unfolding tx_inv_def using phase_inv_actor release_inv_actor log_inv_actor by blast

lemma tx_inv_env: "tx_inv u s \<Longrightarrow> env_step s t \<Longrightarrow> tx_inv u t"
proof -
  assume inv: "tx_inv u s" and st: "env_step s t"
  have "phase_inv t" using st inv unfolding tx_inv_def
    by (elim env_stepE conjE) (auto simp: phase_inv_def cancel_def)
  moreover have "release_inv t" using st inv unfolding tx_inv_def
    by (elim env_stepE conjE) (simp_all add: release_inv_def cancel_def)
  moreover have "log_inv u t" using st inv unfolding tx_inv_def
    by (elim env_stepE conjE) (simp_all add: log_inv_def cancel_def)
  ultimately show "tx_inv u t" by (simp add: tx_inv_def)
qed

lemma tx_inv_step: "tx_inv u s \<Longrightarrow> tx_step u s t \<Longrightarrow> tx_inv u t"
  by (erule tx_stepE) (blast intro: tx_inv_env tx_inv_actor)+

lemma tx_inv_new: "tx_inv u (new_session n)"
  by (simp add: tx_inv_def new_session_def phase_inv_def log_inv_def release_inv_def serving_def)

interpretation session: transition_system "\<lambda>s. \<exists>n. s = new_session n" "tx_step u" "tx_inv u" for u
  by unfold_locales (auto intro: tx_inv_new tx_inv_step)

section \<open>The task ends\<close>

definition stopping :: "tx \<Rightarrow> bool" where
  "stopping s \<longleftrightarrow> tx_cancelled s \<or> past_deadline s"

fun rank :: "control \<Rightarrow> nat" where
  "rank Beginning = 8"
| "rank (Received _) = 7"
| "rank (Executing _) = 6"
| "rank AtSelect = 5"
| "rank Committing = 5"
| "rank DropChannel = 4"
| "rank DropPermit = 3"
| "rank DropCompletion = 2"
| "rank AbortPermit = 2"
| "rank SendDone = 1"
| "rank AbortCompletion = 1"
| "rank Ended = 0"
| "rank Aborted = 0"

lemma stopping_step:
  "stopping s \<Longrightarrow> actor_step u s t \<Longrightarrow> stopping t \<and> rank (tx_control t) < rank (tx_control s)"
  by (erule actor_stepE) (auto simp: stopping_def past_deadline_def tx_defs split: if_splits sum.splits option.splits)

lemma stopping_progress:
  assumes "stopping s" "tx_control s \<noteq> Ended" "tx_control s \<noteq> Aborted"
  shows "\<exists>t. actor_step u s t"
proof (cases "tx_control s")
  case (Received cmd)
  show ?thesis
  proof (cases cmd)
    case (Exec sql)
    then show ?thesis using Received by (cases "tx_failed s") (auto intro: exec_aborted exec_start)
  next
    case Commit
    obtain ok s' where f: "begin_finalization s = (ok, s')" by force
    have at: "tx_control s = Received Commit" using Received Commit by simp
    show ?thesis
    proof (cases ok)
      case False
      then show ?thesis using commit_cancelled [OF at, of s' u] f by auto
    next
      case True
      then show ?thesis
        using commit_start [OF at, of s' u] commit_after_failure [OF at, of s' _ _ u, OF _ _ disjI1 [OF refl]] f
        by (cases "tx_failed s") auto
    qed
  next
    case Rollback
    obtain ok s' where "begin_finalization s = (ok, s')" by force
    then show ?thesis using Received Rollback by (blast intro: actor_step.rollback)
  qed (use Received in \<open>blast intro: actor_step.poison\<close>)
next
  case AtSelect
  then show ?thesis using assms(1) by (cases "tx_cancelled s") (auto simp: stopping_def intro: select_cancelled select_deadline)
next
  case (Executing sql)
  then show ?thesis using assms(1) by (cases "tx_cancelled s") (auto simp: stopping_def intro: exec_cancelled exec_deadline)
qed (use assms in \<open>auto intro: actor_step.intros\<close>)

lemma stopping_bounded:
  "(actor_step u ^^ k) s t \<Longrightarrow> stopping s \<Longrightarrow> k + rank (tx_control t) \<le> rank (tx_control s) \<and> stopping t"
proof (induction k arbitrary: t)
  case (Suc k)
  then obtain m where m: "(actor_step u ^^ k) s m" "actor_step u m t" by auto
  then show ?case using Suc.IH [OF m(1) Suc.prems(2)] stopping_step [of m u t] by auto
qed simp

lemma stopping_ends: "stopping s \<Longrightarrow> \<exists>t. (actor_step u)\<^sup>*\<^sup>* s t \<and> (tx_control t = Ended \<or> tx_control t = Aborted)"
proof (induction "rank (tx_control s)" arbitrary: s rule: less_induct)
  case less
  show ?case
  proof (cases "tx_control s = Ended \<or> tx_control s = Aborted")
    case False
    then obtain t where t: "actor_step u s t" using stopping_progress less.prems by blast
    then show ?thesis using less.hyps [of t] stopping_step [OF less.prems t] by (meson converse_rtranclp_into_rtranclp)
  qed auto
qed

lemma actor_tx_steps: "(actor_step u)\<^sup>*\<^sup>* s t \<Longrightarrow> (tx_step u)\<^sup>*\<^sup>* s t"
  by (induction rule: rtranclp_induct) (auto intro: rtranclp.rtrancl_into_rtrancl tx_step.actor)

section \<open>All sessions of the process\<close>

text \<open>\<open>TX_SEMAPHORE\<close>: a session is spawned only when \<open>try_acquire\<close> finds a permit.\<close>

definition permits_taken :: "tx list \<Rightarrow> nat" where
  "permits_taken ps = length (filter tx_permit ps)"

inductive pool_step :: "(bytes \<Rightarrow> bool) \<Rightarrow> tx list \<Rightarrow> tx list \<Rightarrow> bool" for uni_alnum where
  spawn: "permits_taken ps < TX_MAX_CONCURRENT \<Longrightarrow> pool_step uni_alnum ps (ps @ [new_session now])"
| run: "i < length ps \<Longrightarrow> tx_step uni_alnum (ps ! i) t \<Longrightarrow> pool_step uni_alnum ps (ps[i := t])"

inductive_cases pool_stepE: "pool_step u ps qs"

definition pool_inv :: "(bytes \<Rightarrow> bool) \<Rightarrow> tx list \<Rightarrow> bool" where
  "pool_inv u ps \<longleftrightarrow> list_all (tx_inv u) ps \<and> permits_taken ps \<le> TX_MAX_CONCURRENT"

lemma permit_kept: "tx_step u s t \<Longrightarrow> tx_permit t \<Longrightarrow> tx_permit s"
  by (elim tx_stepE actor_stepE env_stepE) (auto simp: tx_defs split: if_splits sum.splits option.splits)

lemma permits_update:
  "i < length ps \<Longrightarrow> (tx_permit t \<Longrightarrow> tx_permit (ps ! i)) \<Longrightarrow> permits_taken (ps[i := t]) \<le> permits_taken ps"
proof (induction ps arbitrary: i)
  case (Cons p ps)
  then show ?case by (cases i) (auto simp: permits_taken_def)
qed simp

lemma pool_inv_step: "pool_inv u ps \<Longrightarrow> pool_step u ps qs \<Longrightarrow> pool_inv u qs"
proof (erule pool_stepE)
  fix now
  assume "pool_inv u ps" "qs = ps @ [new_session now]" "permits_taken ps < TX_MAX_CONCURRENT"
  then show "pool_inv u qs" using tx_inv_new by (auto simp: pool_inv_def permits_taken_def)
next
  fix i t
  assume a: "pool_inv u ps" "qs = ps[i := t]" "i < length ps" "tx_step u (ps ! i) t"
  have "tx_inv u t" using a tx_inv_step by (auto simp: pool_inv_def list_all_length)
  then have "list_all (tx_inv u) qs" using a by (auto simp: pool_inv_def list_all_iff dest: subsetD [OF set_update_subset_insert])
  moreover have "permits_taken qs \<le> TX_MAX_CONCURRENT"
    using a permits_update [of i ps t] permit_kept by (fastforce simp: pool_inv_def)
  ultimately show "pool_inv u qs" by (simp add: pool_inv_def)
qed

interpretation pool: transition_system "\<lambda>ps. ps = []" "pool_step u" "pool_inv u" for u
  by unfold_locales (simp add: pool_inv_def permits_taken_def, rule pool_inv_step)

lemma completed_released: "tx_inv u t \<Longrightarrow> tx_completed t \<Longrightarrow> tx_pg t \<noteq> PgOpen \<and> \<not> tx_permit t"
  unfolding tx_inv_def phase_inv_def release_inv_def by (cases "tx_control t") (simp_all add: serving_def)

lemma open_holds_permit: "tx_inv u s \<Longrightarrow> tx_pg s = PgOpen \<Longrightarrow> tx_permit s"
  unfolding tx_inv_def phase_inv_def release_inv_def by (cases "tx_control s") (simp_all add: serving_def)

section \<open>Properties\<close>

text \<open>C3: A transaction commits only as a whole and only if nobody called it off. In every reachable
  state of a session in which PostgreSQL was told to commit, the cancellation flag is down and
  stays down, no statement has failed and the transaction was not poisoned, and every statement
  it ran had passed the filter and returned without an error. A caller who was told that the
  commit succeeded can rely on it, and one who was told that a statement failed will not find it
  committed.\<close>

theorem commit_is_clean:
  assumes "(tx_step uni_alnum)\<^sup>*\<^sup>* (new_session start) s"
  shows "(tx_pg s = PgCommitted \<or> tx_pg s = PgCommitFailed \<longrightarrow>
            \<not> tx_cancelled s \<and> tx_failed s = None \<and>
            (\<forall>(sql, r) \<in> set (tx_log s). validate_sql uni_alnum sql = Inr () \<and> r = Inr ())) \<and>
         ((Commit, Inr ()) \<in> set (tx_replies s) \<longrightarrow> tx_pg s = PgCommitted) \<and>
         ((Exec sql, Inl e) \<in> set (tx_replies s) \<or> (Poison p, r) \<in> set (tx_replies s) \<longrightarrow>
            tx_pg s \<noteq> PgCommitted)"
proof -
  have inv: "tx_inv uni_alnum s" using session.run_inv [OF assms tx_inv_new] .
  then have ph: "phase_inv s" and log: "\<forall>e \<in> set (tx_log s). entry_ok uni_alnum (tx_failed s) e"
    and rep: "\<forall>e \<in> set (tx_replies s). reply_ok (tx_failed s) (tx_pg s) e"
    by (auto simp: tx_inv_def log_inv_def list_all_iff)
  have "validate_sql uni_alnum sql = Inr () \<and> r = Inr ()" if "(sql, r) \<in> set (tx_log s)" "tx_failed s = None" for sql r
    using bspec [OF log that(1)] that(2) by (simp add: entry_ok_def)
  moreover have "tx_pg s = PgCommitted" if "(Commit, Inr ()) \<in> set (tx_replies s)"
    using bspec [OF rep that] by (simp add: reply_ok_def)
  moreover have "tx_pg s \<noteq> PgCommitted" if "(Exec sql, Inl e) \<in> set (tx_replies s)"
    using bspec [OF rep that] ph by (auto simp: reply_ok_def phase_inv_def)
  moreover have "tx_pg s \<noteq> PgCommitted" if "(Poison p, r) \<in> set (tx_replies s)"
    using bspec [OF rep that] ph by (auto simp: reply_ok_def phase_inv_def)
  ultimately show ?thesis using ph unfolding phase_inv_def by blast
qed

theorem commit_is_clean_witness:
  "\<exists>s. (tx_step (\<lambda>_. False))\<^sup>*\<^sup>* (new_session 0) s \<and> tx_pg s = PgCommitted \<and> \<not> tx_cancelled s"
proof -
  let ?u = "\<lambda>_ :: bytes. False"
  let ?s0 = "new_session 0"
  let ?s1 = "?s0\<lparr>tx_control := AtSelect\<rparr>"
  let ?s2 = "?s1\<lparr>tx_queue := [Commit]\<rparr>"
  let ?s3 = "?s2\<lparr>tx_queue := [], tx_control := Received Commit\<rparr>"
  let ?s4 = "?s3\<lparr>tx_phase := TX_FINALIZING, tx_control := Committing\<rparr>"
  let ?s5 = "reply Commit (Inr ()) (?s4\<lparr>tx_pg := PgCommitted, tx_control := DropChannel\<rparr>)"
  have "tx_step ?u ?s0 ?s1" by (intro tx_step.actor begin_ok) (simp add: new_session_def)
  moreover have "tx_step ?u ?s1 ?s2"
    using send [of ?s1 Commit] by (intro tx_step.env) (simp add: new_session_def TX_QUEUE_def)
  moreover have "tx_step ?u ?s2 ?s3"
    using select_command [of ?s2 Commit "[]" ?u]
    by (intro tx_step.actor) (simp add: new_session_def past_deadline_def TX_MAX_WALL_TIME_def)
  moreover have "tx_step ?u ?s3 ?s4"
    using commit_start [of ?s3 "?s3\<lparr>tx_phase := TX_FINALIZING\<rparr>" ?u]
    by (intro tx_step.actor) (simp add: new_session_def begin_finalization_def)
  moreover have "tx_step ?u ?s4 ?s5" by (intro tx_step.actor commit_ok) simp
  ultimately have run: "(tx_step ?u)\<^sup>*\<^sup>* ?s0 ?s5" by (meson rtranclp.rtrancl_into_rtrancl rtranclp.rtrancl_refl)
  have "tx_pg ?s5 = PgCommitted" by (simp add: reply_def)
  with commit_is_clean [OF run] run show ?thesis by blast
qed

text \<open>C17: A session that is cancelled or past its deadline ends. From any such reachable state the
  task always has a next step until it has returned, it takes at most eight steps on its own
  whatever PostgreSQL answers, and when it has signalled completion the transaction is closed and
  the permit is back.\<close>

theorem session_ends:
  assumes "(tx_step uni_alnum)\<^sup>*\<^sup>* (new_session start) s" and "tx_cancelled s \<or> past_deadline s"
  shows "(\<exists>t. (actor_step uni_alnum)\<^sup>*\<^sup>* s t \<and> tx_completed t) \<and>
    (\<forall>k t. (actor_step uni_alnum ^^ k) s t \<longrightarrow>
       k \<le> 8 \<and> ((\<exists>t'. actor_step uni_alnum t t') \<or> tx_completed t) \<and>
       (tx_completed t \<longrightarrow> tx_pg t \<noteq> PgOpen \<and> \<not> tx_permit t))"
proof -
  have stop: "stopping s" using assms(2) by (simp add: stopping_def)
  have inv: "tx_inv uni_alnum t" if "(actor_step uni_alnum)\<^sup>*\<^sup>* s t" for t
    using session.run_inv [OF rtranclp_trans [OF assms(1) actor_tx_steps [OF that]] tx_inv_new] .
  have completed: "tx_completed t" if "tx_inv uni_alnum t" "tx_control t = Ended \<or> tx_control t = Aborted" for t
    using that by (auto simp: tx_inv_def release_inv_def)
  show ?thesis
  proof (intro conjI allI impI)
    show "\<exists>t. (actor_step uni_alnum)\<^sup>*\<^sup>* s t \<and> tx_completed t"
      using stopping_ends [OF stop] inv completed by blast
  next
    fix k t assume run: "(actor_step uni_alnum ^^ k) s t"
    have reach: "(actor_step uni_alnum)\<^sup>*\<^sup>* s t" using run by (rule relpowp_imp_rtranclp)
    have "rank c \<le> 8" for c by (cases c) auto
    then show "k \<le> 8" using stopping_bounded [OF run stop] by (meson add_leD1 le_trans)
    show "(\<exists>t'. actor_step uni_alnum t t') \<or> tx_completed t"
      using stopping_progress [of t uni_alnum] stopping_bounded [OF run stop] completed [OF inv [OF reach]] by blast
    show "tx_pg t \<noteq> PgOpen" "\<not> tx_permit t" if "tx_completed t" using completed_released [OF inv [OF reach] that] by auto
  qed
qed

theorem session_ends_witness:
  "\<exists>t. (actor_step (\<lambda>_. False))\<^sup>*\<^sup>* (cancel (new_session 0)) t \<and> tx_completed t"
proof -
  have "(tx_step (\<lambda>_. False))\<^sup>*\<^sup>* (new_session 0) (cancel (new_session 0))"
    by (intro r_into_rtranclp tx_step.env env_step.cancel)
  moreover have "tx_cancelled (cancel (new_session 0)) \<or> past_deadline (cancel (new_session 0))"
    by (simp add: cancel_def new_session_def)
  ultimately show ?thesis using session_ends by blast
qed

text \<open>C18: However sessions are opened and run, at most eight of them hold a permit, and every session
  whose transaction may still be open holds one; so app transactions leave connections of the
  pool to everybody else.\<close>

theorem open_transactions_bounded:
  assumes "(pool_step uni_alnum)\<^sup>*\<^sup>* [] ps"
  shows "length (filter (\<lambda>s. tx_pg s = PgOpen) ps) \<le> TX_MAX_CONCURRENT \<and> TX_MAX_CONCURRENT < POOL_MAX_CONNECTIONS"
proof -
  have inv: "pool_inv uni_alnum ps"
    using pool.run_inv [OF assms] by (simp add: pool_inv_def permits_taken_def)
  have "tx_permit s" if "s \<in> set ps" "tx_pg s = PgOpen" for s
    using inv that open_holds_permit by (auto simp: pool_inv_def list_all_iff)
  then have "length (filter (\<lambda>s. tx_pg s = PgOpen) ps) \<le> length (filter tx_permit ps)"
    by (induction ps) auto
  then show ?thesis
    using inv by (simp add: pool_inv_def permits_taken_def TX_MAX_CONCURRENT_def POOL_MAX_CONNECTIONS_def)
qed

theorem open_transactions_bounded_witness:
  "length (filter (\<lambda>s. tx_pg s = PgOpen) [new_session 3]) \<le> TX_MAX_CONCURRENT"
proof -
  have "(pool_step (\<lambda>_. False))\<^sup>*\<^sup>* [] [new_session 3]"
    using spawn [of "[]" "\<lambda>_. False" 3] by (intro r_into_rtranclp) (simp add: permits_taken_def TX_MAX_CONCURRENT_def)
  from open_transactions_bounded [OF this] show ?thesis by blast
qed

end
