(* ===== verification/Agent_Authority.thy ===== *)
theory Agent_Authority
  imports Authority_Policy
begin

text \<open>
  The authority of a running agent, from \<open>governance/execution.rs\<close>, with
  \<open>auth::identity::principal_enabled\<close>. An authority is admitted for a human, directly or by a
  running agent that calls another one, and is checked again before every use
  (\<open>revalidate\<close>).

  A \<open>CancellationToken\<close> is the list of the tokens it descends from, itself first: it is
  cancelled when one of them is. The origin of a run is a trait object known by its key; its
  check is the parameter \<open>check_origin\<close>, an action that may read the tables.
\<close>

record agent_db = rbac_db +
  cancelled_tokens :: "nat list"
  next_token :: nat

record agent_authority =
  au_human :: uuid
  au_agents :: "bytes list"
  au_ceiling :: "bytes list"
  au_task_scope :: "bytes list option"
  au_origin :: "bytes option"
  au_lifetime :: "nat list"

datatype agent_source = Direct | Origin bytes | Child agent_authority

text \<open>What the code takes from elsewhere: the principal of an app's agent, the debug text of an
  error, the check of an origin.\<close>

record 'z agent_env =
  ae_agent_user_id :: "bytes \<Rightarrow> uuid"
  ae_debug :: "api_error \<Rightarrow> bytes"
  ae_check_origin :: "bytes \<Rightarrow> uuid \<Rightarrow> bytes \<Rightarrow> ('z agent_db_scheme, bytes, unit) act"

definition enabled :: "uuid \<Rightarrow> 'z rbac_db_scheme \<Rightarrow> bool" where
  "enabled uid s =
     (case List.find (\<lambda>u. us_id u = uid) (users s) of
        None \<Rightarrow> False
      | Some u \<Rightarrow> us_disabled_at u = None \<and> uid \<notin> set (public_execution_principals s))"

definition principal_enabled :: "uuid \<Rightarrow> ('z rbac_db_scheme, bytes, bool) act" where
  "principal_enabled uid = act_or False (stmt (act_get (enabled uid)))"

definition is_cancelled :: "nat list \<Rightarrow> 'z agent_db_scheme \<Rightarrow> bool" where
  "is_cancelled token s \<longleftrightarrow> (\<exists>t \<in> set token. t \<in> set (cancelled_tokens s))"

definition ensure_active :: "agent_authority \<Rightarrow> ('z agent_db_scheme, bytes, unit) act" where
  "ensure_active a =
     act_bind (act_get (is_cancelled (au_lifetime a))) (\<lambda>c.
       if c then act_fail ''agent invocation ended'' else act_return ())"

text \<open>\<open>CancellationToken::new()\<close>, \<open>child_token()\<close> and \<open>finish\<close>.\<close>

definition fresh_token :: "nat list \<Rightarrow> ('z agent_db_scheme, bytes, nat list) act" where
  "fresh_token parent s = (Inr (next_token s # parent), s\<lparr>next_token := next_token s + 1\<rparr>)"

definition finish :: "agent_authority \<Rightarrow> 'z agent_db_scheme \<Rightarrow> 'z agent_db_scheme" where
  "finish a s = s\<lparr>cancelled_tokens := hd (au_lifetime a) # cancelled_tokens s\<rparr>"

definition root_app :: "agent_authority \<Rightarrow> bytes" where
  "root_app a = hd (au_agents a)"

definition agent_app :: "agent_authority \<Rightarrow> bytes" where
  "agent_app a = last (au_agents a)"

definition is_child :: "agent_authority \<Rightarrow> bool" where
  "is_child a \<longleftrightarrow> 1 < length (au_agents a)"

definition current_permissions :: "'z agent_env \<Rightarrow> uuid \<Rightarrow> ('z agent_db_scheme, bytes, bytes list) act" where
  "current_permissions env u =
     act_bind (act_map_err (ae_debug env) (resolve_permissions u)) (\<lambda>x. act_return (snd x))"

definition validate_origin :: "'z agent_env \<Rightarrow> agent_authority \<Rightarrow> ('z agent_db_scheme, bytes, unit) act" where
  "validate_origin env a =
     (case au_origin a of
        Some key \<Rightarrow> ae_check_origin env key (au_human a) (root_app a)
      | None \<Rightarrow> act_return ())"

text \<open>The common part of \<open>admit\<close> and of the loop in \<open>revalidate\<close>: the permissions that remain after
  one more agent.\<close>

definition through_agent ::
  "'z agent_env \<Rightarrow> bytes \<Rightarrow> bytes list \<Rightarrow> ('z agent_db_scheme, bytes, bytes list) act" where
  "through_agent env app current =
     (if \<not> has_permission current (''app:'' @ app @ '':invoke'') then
        act_fail (''permission denied: app:'' @ app @ '':invoke'')
      else
        act_bind (principal_enabled (ae_agent_user_id env app)) (\<lambda>ok.
        if \<not> ok then act_fail ''agent disabled or missing''
        else
          act_bind (current_permissions env (ae_agent_user_id env app)) (\<lambda>permissions.
            act_return (intersect_permissions current permissions))))"

fun through_agents ::
  "'z agent_env \<Rightarrow> bytes list \<Rightarrow> bytes list \<Rightarrow> ('z agent_db_scheme, bytes, bytes list) act" where
  "through_agents env [] current = act_return current"
| "through_agents env (app # apps) current =
     act_bind (through_agent env app current) (\<lambda>current. through_agents env apps current)"

definition revalidate :: "'z agent_env \<Rightarrow> agent_authority \<Rightarrow> ('z agent_db_scheme, bytes, bytes list) act" where
  "revalidate env a =
     act_bind (ensure_active a) (\<lambda>_.
     act_bind (principal_enabled (au_human a)) (\<lambda>ok.
     if \<not> ok then act_fail ''responsible human disabled or missing''
     else
       act_bind (validate_origin env a) (\<lambda>_.
       act_bind (current_permissions env (au_human a)) (\<lambda>current.
       act_bind (through_agents env (au_agents a) current) (\<lambda>current.
       act_bind (ensure_active a) (\<lambda>_.
         act_return (intersect_permissions (au_ceiling a) current)))))))"

text \<open>The first half of \<open>admit\<close>: where the new authority starts from.\<close>

definition admit_source ::
  "'z agent_env \<Rightarrow> bytes \<Rightarrow> uuid \<Rightarrow> bytes list option \<Rightarrow> agent_source \<Rightarrow> ('z agent_db_scheme, bytes, agent_authority) act" where
  "admit_source env app human scope source =
     (case source of
        Child parent \<Rightarrow>
          (if au_human parent \<noteq> human then act_fail ''delegation identity mismatch''
           else if app \<in> set (au_agents parent) then act_fail ''agent delegation cycle''
           else
             act_bind (revalidate env parent) (\<lambda>ceiling.
             act_bind (fresh_token (au_lifetime parent)) (\<lambda>lifetime.
               act_return \<lparr>au_human = human, au_agents = au_agents parent, au_ceiling = ceiling,
                 au_task_scope = au_task_scope parent, au_origin = au_origin parent, au_lifetime = lifetime\<rparr>)))
      | _ \<Rightarrow>
          act_bind (principal_enabled human) (\<lambda>ok.
          if \<not> ok then act_fail ''responsible human disabled or missing''
          else
            act_bind (current_permissions env human) (\<lambda>ceiling.
            act_bind (fresh_token []) (\<lambda>lifetime.
              act_return \<lparr>au_human = human, au_agents = [], au_ceiling = ceiling, au_task_scope = scope,
                au_origin = (case source of Origin key \<Rightarrow> Some key | _ \<Rightarrow> None), au_lifetime = lifetime\<rparr>))))"

definition admit ::
  "'z agent_env \<Rightarrow> bytes \<Rightarrow> uuid option \<Rightarrow> bytes list option \<Rightarrow> agent_source \<Rightarrow>
     ('z agent_db_scheme, bytes, agent_authority) act" where
  "admit env app human scope source =
     (case human of
        None \<Rightarrow> act_fail ''agent execution requires a responsible human''
      | Some human \<Rightarrow>
          act_bind (admit_source env app human scope source) (\<lambda>base.
          act_bind (through_agent env app (au_ceiling base)) (\<lambda>ceiling.
          let ceiling = (case au_task_scope base of
                Some scope \<Rightarrow> intersect_permissions ceiling scope | None \<Rightarrow> ceiling);
              authority = base\<lparr>au_agents := au_agents base @ [app], au_ceiling := ceiling\<rparr>
          in act_bind (validate_origin env authority) (\<lambda>_.
             act_bind (ensure_active authority) (\<lambda>_.
               act_return authority)))))"

section \<open>Narrowing along the chain\<close>

definition same_authority :: "'z agent_db_scheme \<Rightarrow> 'z agent_db_scheme \<Rightarrow> bool" where
  "same_authority s t \<longleftrightarrow>
     rbac_roles t = rbac_roles s \<and> rbac_assignments t = rbac_assignments s \<and> users t = users s \<and>
     public_execution_principals t = public_execution_principals s"

text \<open>The check of an origin reads only.\<close>

definition reading_origins :: "'z agent_env \<Rightarrow> bool" where
  "reading_origins env \<longleftrightarrow> (\<forall>key human app s. same_authority s (snd (ae_check_origin env key human app s)))"

definition grants :: "'z rbac_db_scheme \<Rightarrow> uuid \<Rightarrow> bytes \<Rightarrow> bool" where
  "grants s u k \<longleftrightarrow> covered (sql_resolve_permissions u s) k"

lemma same_authority_trans: "same_authority s t \<Longrightarrow> same_authority t r \<Longrightarrow> same_authority s r"
  by (simp add: same_authority_def)

lemma same_authority_faults [simp]: "same_authority s (s\<lparr>w_faults := fs\<rparr>)" "same_authority s s"
  by (simp_all add: same_authority_def)

lemma same_authority_reads:
  assumes "same_authority s t"
  shows "unique_roles t = unique_roles s" "enabled u t = enabled u s" "grants t u k = grants s u k"
  using assms by (simp_all add: same_authority_def grants_def sql_resolve_permissions_def assigned_roles_def
      unique_roles_def enabled_def split: option.splits)

lemma enabled_checked:
  assumes "principal_enabled u s = (Inr ok, t)"
  shows "same_authority s t \<and> (ok \<longrightarrow> enabled u s)"
proof -
  obtain r t' where st: "stmt (act_get (enabled u)) s = (r, t')" by force
  have "tables_only (enabled u)" by (simp add: tables_only_def enabled_def split: option.splits)
  note rd = reader_stmt [OF this]
  obtain fs where "t' = s\<lparr>w_faults := fs\<rparr>" using readerD(1) [OF rd, of s] st by auto
  moreover have "enabled u s = x" if "r = Inr x" for x using readerD(2) [OF rd] st that by blast
  ultimately show ?thesis
    using assms st by (cases r) (auto simp: principal_enabled_def act_or_def)
qed

lemma permissions_read:
  assumes "unique_roles s" "current_permissions env u s = (Inr p, t)"
  shows "same_authority s t \<and> (\<forall>k. covered p k \<longrightarrow> grants s u k)"
proof -
  obtain x where x: "resolve_permissions u s = (Inr x, t)" "p = snd x"
    using assms(2) by (auto simp: current_permissions_def act_success)
  obtain fs where "t = s\<lparr>w_faults := fs\<rparr>" using readerD(1) [OF reader_resolve_permissions, of u s] x by auto
  moreover have "x = resolved u s" using readerD(2) [OF reader_resolve_permissions x(1)] by simp
  then have "set p = set (sql_resolve_permissions u s)" using resolved_tables(2) [OF assms(1)] x(2) by simp
  ultimately show ?thesis using covered_subset [of p "sql_resolve_permissions u s"] by (auto simp: grants_def)
qed

lemma through_agent_narrows:
  assumes "unique_roles s" "through_agent env app cur s = (Inr p, t)"
  shows "same_authority s t \<and> enabled (ae_agent_user_id env app) s \<and>
    has_permission cur (''app:'' @ app @ '':invoke'') \<and>
    (\<forall>k. covered p k \<longrightarrow> covered cur k \<and> grants s (ae_agent_user_id env app) k)"
proof -
  let ?a = "ae_agent_user_id env app"
  obtain s1 q where inv: "has_permission cur (''app:'' @ app @ '':invoke'')"
    and en: "principal_enabled ?a s = (Inr True, s1)" and q: "current_permissions env ?a s1 = (Inr q, t)"
    and p: "p = intersect_permissions cur q"
    using assms(2) unfolding through_agent_def act_success
    by (auto simp: act_success split: if_splits)
  have s1: "same_authority s s1" "enabled ?a s" using enabled_checked [OF en] by auto
  have "unique_roles s1" using assms(1) same_authority_reads(1) [OF s1(1)] by simp
  then have "same_authority s1 t" "\<forall>k. covered q k \<longrightarrow> grants s ?a k"
    using permissions_read [OF _ q] same_authority_reads(3) [OF s1(1)] by auto
  then show ?thesis using s1 inv covered_intersect [of cur q] same_authority_trans p by blast
qed

lemma through_agents_narrows:
  "unique_roles s \<Longrightarrow> through_agents env apps cur s = (Inr p, t) \<Longrightarrow>
   same_authority s t \<and> (\<forall>app \<in> set apps. enabled (ae_agent_user_id env app) s) \<and>
   (\<forall>k. covered p k \<longrightarrow> covered cur k \<and> (\<forall>app \<in> set apps. grants s (ae_agent_user_id env app) k))"
proof (induction apps arbitrary: cur s)
  case Nil
  then show ?case by (simp add: act_success)
next
  case (Cons app apps)
  then obtain q s1 where q: "through_agent env app cur s = (Inr q, s1)" "through_agents env apps q s1 = (Inr p, t)"
    by (auto simp: act_success)
  note first = through_agent_narrows [OF Cons.prems(1) q(1)]
  then have s1: "same_authority s s1" by blast
  then have "unique_roles s1" using Cons.prems(1) same_authority_reads(1) by blast
  note rest = Cons.IH [OF this q(2)]
  show ?case
    using first rest same_authority_trans [OF s1] same_authority_reads(2,3) [OF s1] by auto
qed

lemma ensure_active_Inr: "ensure_active a s = (Inr u, t) \<longleftrightarrow> t = s \<and> \<not> is_cancelled (au_lifetime a) s"
  by (auto simp: ensure_active_def act_success split: if_splits)

lemma origin_ok: "reading_origins env \<Longrightarrow> validate_origin env a s = (r, t) \<Longrightarrow> same_authority s t"
  unfolding validate_origin_def reading_origins_def
  by (cases "au_origin a") (auto simp: act_return_def dest: spec [of _ s], metis snd_conv)

text \<open>The permissions are held by the human and by every agent of the chain, all of them enabled.\<close>

definition narrowed :: "'z agent_env \<Rightarrow> 'z agent_db_scheme \<Rightarrow> uuid \<Rightarrow> bytes list \<Rightarrow> bytes list \<Rightarrow> bool" where
  "narrowed env s human apps perms \<longleftrightarrow>
     (\<forall>k. covered perms k \<longrightarrow> grants s human k \<and> (\<forall>app \<in> set apps. grants s (ae_agent_user_id env app) k)) \<and>
     enabled human s \<and> (\<forall>app \<in> set apps. enabled (ae_agent_user_id env app) s)"

lemma revalidate_narrows:
  assumes u: "unique_roles s" and o: "reading_origins env" and run: "revalidate env a s = (Inr p, t)"
  shows "same_authority s t \<and> narrowed env s (au_human a) (au_agents a) p \<and>
    (\<forall>k. covered p k \<longrightarrow> covered (au_ceiling a) k) \<and> \<not> is_cancelled (au_lifetime a) t"
proof -
  obtain s1 s2 s3 c1 c2 v where
    en: "principal_enabled (au_human a) s = (Inr True, s1)" and or: "validate_origin env a s1 = (Inr v, s2)"
    and c1: "current_permissions env (au_human a) s2 = (Inr c1, s3)"
    and c2: "through_agents env (au_agents a) c1 s3 = (Inr c2, t)"
    and act: "\<not> is_cancelled (au_lifetime a) t" and p: "p = intersect_permissions (au_ceiling a) c2"
    using run unfolding revalidate_def act_success ensure_active_Inr
    by (auto simp: act_success ensure_active_Inr split: if_splits)
  have s1: "same_authority s s1" "enabled (au_human a) s" using enabled_checked [OF en] by auto
  have s2: "same_authority s s2" using same_authority_trans [OF s1(1) origin_ok [OF o or]] .
  have u2: "unique_roles s2" using u same_authority_reads(1) [OF s2] by simp
  have s3: "same_authority s s3" "\<forall>k. covered c1 k \<longrightarrow> grants s (au_human a) k"
    using permissions_read [OF u2 c1] same_authority_trans [OF s2] same_authority_reads(3) [OF s2] by auto
  have u3: "unique_roles s3" using u same_authority_reads(1) [OF s3(1)] by simp
  note agents = through_agents_narrows [OF u3 c2]
  have "same_authority s t" using agents same_authority_trans [OF s3(1)] by blast
  then show ?thesis
    unfolding narrowed_def p
    using act s1(2) s3 agents same_authority_reads(2,3) [OF s3(1)] covered_intersect [of "au_ceiling a" c2] by blast
qed

text \<open>What \<open>admit\<close> starts from.\<close>

lemma admit_source_narrows:
  assumes u: "unique_roles s" and o: "reading_origins env"
    and run: "admit_source env app human scope source s = (Inr b, t)"
  shows "same_authority s t \<and> au_human b = human \<and> narrowed env s human (au_agents b) (au_ceiling b) \<and>
    (case source of
       Child parent \<Rightarrow> human = au_human parent \<and> au_agents b = au_agents parent \<and> app \<notin> set (au_agents parent) \<and>
         au_task_scope b = au_task_scope parent \<and> au_origin b = au_origin parent \<and>
         (\<forall>k. covered (au_ceiling b) k \<longrightarrow> covered (au_ceiling parent) k)
     | _ \<Rightarrow> au_agents b = [] \<and> au_task_scope b = scope)"
proof (cases "\<exists>parent. source = Child parent")
  case True
  then obtain parent where src: "source = Child parent" by blast
  then obtain c s1 where h: "human = au_human parent" "app \<notin> set (au_agents parent)"
    and c: "revalidate env parent s = (Inr c, s1)"
    and b: "b = \<lparr>au_human = human, au_agents = au_agents parent, au_ceiling = c, au_task_scope = au_task_scope parent,
      au_origin = au_origin parent, au_lifetime = next_token s1 # au_lifetime parent\<rparr>"
    and t: "t = s1\<lparr>next_token := next_token s1 + 1\<rparr>"
    using run by (auto simp: admit_source_def act_success fresh_token_def split: if_splits)
  have "same_authority s t" using revalidate_narrows [OF u o c] t by (simp add: same_authority_def)
  then show ?thesis using revalidate_narrows [OF u o c] src h b by simp
next
  case False
  then obtain c s1 s2 where en: "principal_enabled human s = (Inr True, s1)"
    and c: "current_permissions env human s1 = (Inr c, s2)"
    and b: "au_human b = human" "au_agents b = []" "au_ceiling b = c" "au_task_scope b = scope"
    and t: "t = s2\<lparr>next_token := next_token s2 + 1\<rparr>"
    using run by (cases source) (auto simp: admit_source_def act_success fresh_token_def split: if_splits)
  have s1: "same_authority s s1" "enabled human s" using enabled_checked [OF en] by auto
  have "unique_roles s1" using u same_authority_reads(1) [OF s1(1)] by simp
  note perms = permissions_read [OF this c]
  have "same_authority s t" using same_authority_trans [OF s1(1)] perms t by (simp add: same_authority_def)
  then show ?thesis
    using False b perms s1 same_authority_reads(3) [OF s1(1)] by (cases source) (auto simp: narrowed_def)
qed

lemma admit_narrows:
  assumes u: "unique_roles s" and o: "reading_origins env"
    and run: "admit env app human scope source s = (Inr a, t)"
  shows "human = Some (au_human a) \<and> narrowed env s (au_human a) (au_agents a) (au_ceiling a) \<and>
    \<not> is_cancelled (au_lifetime a) t \<and>
    (\<forall>k. covered (au_ceiling a) k \<longrightarrow> (\<forall>sc. au_task_scope a = Some sc \<longrightarrow> covered sc k)) \<and>
    (case source of
       Child parent \<Rightarrow> au_human a = au_human parent \<and> au_agents a = au_agents parent @ [app] \<and> app \<notin> set (au_agents parent) \<and>
         au_task_scope a = au_task_scope parent \<and> (\<forall>k. covered (au_ceiling a) k \<longrightarrow> covered (au_ceiling parent) k)
     | _ \<Rightarrow> au_agents a = [app] \<and> au_task_scope a = scope)"
proof -
  obtain h where h: "human = Some h" using run by (cases human) (auto simp: admit_def act_success)
  let ?agent = "ae_agent_user_id env app"
  obtain b s1 c s2 where b: "admit_source env app h scope source s = (Inr b, s1)"
    and c: "through_agent env app (au_ceiling b) s1 = (Inr c, s2)"
    and a: "a = b\<lparr>au_agents := au_agents b @ [app],
      au_ceiling := (case au_task_scope b of Some scope \<Rightarrow> intersect_permissions c scope | None \<Rightarrow> c)\<rparr>"
    and active: "\<not> is_cancelled (au_lifetime a) t"
    using run h by (auto simp: admit_def act_success Let_def ensure_active_Inr)
  note src = admit_source_narrows [OF u o b]
  then have s1: "same_authority s s1" by blast
  have "unique_roles s1" using u same_authority_reads(1) [OF s1] by simp
  note thr = through_agent_narrows [OF this c]
  have cov: "covered (au_ceiling b) k \<and> grants s ?agent k \<and> (\<forall>sc. au_task_scope b = Some sc \<longrightarrow> covered sc k)"
    if "covered (au_ceiling a) k" for k
  proof (cases "au_task_scope b")
    case None
    then show ?thesis using that a thr same_authority_reads(3) [OF s1] by simp
  next
    case (Some sc)
    then have "covered (intersect_permissions c sc) k" using that a by simp
    from covered_intersect [OF this] have "covered c k" "covered sc k" by auto
    then show ?thesis using Some thr same_authority_reads(3) [OF s1] by simp
  qed
  have "enabled ?agent s" using thr same_authority_reads(2) [OF s1] by blast
  then have "narrowed env s (au_human a) (au_agents a) (au_ceiling a)"
    using src cov a by (auto simp: narrowed_def)
  moreover have "au_task_scope a = au_task_scope b" "au_human a = h" "au_agents a = au_agents b @ [app]"
    using a src by auto
  ultimately show ?thesis using src cov active h by (cases source) auto
qed

section \<open>Properties\<close>

definition sample_agent_db :: agent_db where
  "sample_agent_db =
     \<lparr>w_faults = [],
      rbac_assignments = [\<lparr>as_user = 1, as_role = ''staff'', as_assigned_at = 0\<rparr>, \<lparr>as_user = 2, as_role = ''bot'', as_assigned_at = 0\<rparr>],
      rbac_roles = [\<lparr>ro_name = ''staff'', ro_description = None, ro_inherits = [], ro_permissions = [''app:crm:*'']\<rparr>,
                    \<lparr>ro_name = ''bot'', ro_description = None, ro_inherits = [], ro_permissions = [''app:crm:c.read'', ''app:crm:invoke'']\<rparr>],
      rbac_permissions = [],
      users = [\<lparr>us_id = 1, us_kind = ''human'', us_is_system = False, us_disabled_at = None\<rparr>,
               \<lparr>us_id = 2, us_kind = ''agent'', us_is_system = False, us_disabled_at = None\<rparr>],
      public_execution_principals = [], db_now = 0, cancelled_tokens = [], next_token = 0\<rparr>"

definition sample_agent_env :: "unit agent_env" where
  "sample_agent_env = \<lparr>ae_agent_user_id = (\<lambda>_. 2), ae_debug = (\<lambda>_. []), ae_check_origin = (\<lambda>_ _ _. act_return ())\<rparr>"

lemma sample_reads: "reading_origins sample_agent_env" "unique_roles sample_agent_db"
  by (simp_all add: reading_origins_def sample_agent_env_def act_return_def unique_roles_def sample_agent_db_def)




definition sample_authority :: agent_authority where
  "sample_authority = \<lparr>au_human = 1, au_agents = [''crm''], au_ceiling = [''app:crm:c.read''], au_task_scope = None,
     au_origin = None, au_lifetime = [0]\<rparr>"


end
