(* ===== verification/Data_Access.thy ===== *)
theory Data_Access
  imports Authority_Policy Data_Types Sql_Gate
begin

text \<open>
  The one way from an app to its tables, from the first half of
  \<open>governance/enforcement/sql_proxy.rs\<close>: the identity a unit of work carries
  (\<open>ContextState\<close>, \<open>InvocationContext\<close>), the request to open a transaction (\<open>DataAccess\<close>) and
  \<open>begin\<close>, which poses the settings that the row policies read, takes the privileged locks and
  drops to the restricted role; with \<open>approved_actions::bind_context\<close> and
  \<open>audit_ext::set_context\<close>, which \<open>begin\<close> calls.

  The state of the database session is the map of its settings, its role and what
  \<open>SET LOCAL\<close> has fixed. The parameters (\<open>access_env\<close>) are the locks of publications and grants,
  the rows those functions look up, and the texts of uuids.
\<close>

section \<open>Identity of a unit of work\<close>

record approved_publication =
  ap_id :: uuid
  ap_version :: int
  ap_consumer_app :: bytes
  ap_provider_app :: bytes
  ap_consumer_installation_id :: uuid
  ap_provider_installation_id :: uuid
  ap_entity :: bytes
  ap_release_ownership :: bool

record public_execution =
  pe_consumer_app :: bytes
  pe_installation_id :: uuid
  pe_principal_id :: uuid
  pe_publications :: "approved_publication list"

record approved_action_execution =
  aa_approval_id :: uuid
  aa_installation_id :: uuid
  aa_revision :: uuid
  aa_app_id :: bytes
  aa_action_id :: bytes
  aa_backend_digest :: bytes
  aa_manifest :: json
  aa_execution_id :: uuid

record authorized_read =
  ar_grant_id :: uuid
  ar_grant_version :: int
  ar_consumer_app :: bytes
  ar_provider_app :: bytes
  ar_consumer_installation_id :: uuid
  ar_provider_installation_id :: uuid
  ar_entity :: bytes
  ar_action :: bytes
  ar_field_snapshot :: "bytes list"
  ar_write_field_snapshot :: "bytes list"

record context_state =
  cs_user_id :: "uuid option"
  cs_is_delegated :: bool
  cs_effective_perms :: "bytes list"
  cs_connection_id :: "bytes option"
  cs_audit_actor_id :: "uuid option"
  cs_audit_delegator_id :: "uuid option"
  cs_public_execution :: "public_execution option"
  cs_approved_action :: "approved_action_execution option"

definition default_context :: context_state where
  "default_context =
     \<lparr>cs_user_id = None, cs_is_delegated = False, cs_effective_perms = [], cs_connection_id = None,
      cs_audit_actor_id = None, cs_audit_delegator_id = None, cs_public_execution = None, cs_approved_action = None\<rparr>"

record rpc_caller =
  rc_user_id :: bytes
  rc_email :: bytes
  rc_effective_perms :: "bytes list option"
  rc_connection_id :: "bytes option"

definition from_caller :: "(bytes \<Rightarrow> uuid option) \<Rightarrow> rpc_caller option \<Rightarrow> context_state" where
  "from_caller parse_uuid caller =
     (case caller of
        Some c \<Rightarrow>
          \<lparr>cs_user_id = parse_uuid (rc_user_id c),
           cs_is_delegated = (rc_effective_perms c \<noteq> None),
           cs_effective_perms = opt_default [] (rc_effective_perms c),
           cs_connection_id = rc_connection_id c,
           cs_audit_actor_id = (if rc_effective_perms c = None then parse_uuid (rc_user_id c) else None),
           cs_audit_delegator_id = None, cs_public_execution = None, cs_approved_action = None\<rparr>
      | None \<Rightarrow> default_context)"

datatype invocation_context = NoInvocation | Action bytes | Job bytes

fun is_scoped :: "invocation_context \<Rightarrow> bool" where
  "is_scoped NoInvocation = False"
| "is_scoped _ = True"

fun guc_values :: "invocation_context \<Rightarrow> bytes \<times> bytes \<times> bytes" where
  "guc_values NoInvocation = ([], [], [])"
| "guc_values (Action action_id) = (''action'', action_id, action_id)"
| "guc_values (Job job_name) = (''job'', job_name, [])"

definition invocation_key :: "invocation_context \<Rightarrow> bytes" where
  "invocation_key i = (case guc_values i of (kind, name, _) \<Rightarrow> kind @ '':'' @ name)"

section \<open>The request\<close>

datatype data_origin = FromApp | HumanHttp

record data_access =
  da_app_schema :: bytes
  da_state :: context_state
  da_invocation :: "invocation_context option"
  da_actor :: "uuid option"
  da_delegator :: "uuid option"
  da_trigger_ref :: bytes
  da_timeout_ms :: nat
  da_cross_app :: "authorized_read option"
  da_origin :: data_origin
  da_delegated_collection :: "(bytes \<times> bytes \<times> field_table) option"
  da_publication :: "approved_publication option"

definition TIMEOUT_INTERACTIVE_MS :: nat where "TIMEOUT_INTERACTIVE_MS = 8000"

definition app_access :: "bytes \<Rightarrow> context_state \<Rightarrow> bytes \<Rightarrow> nat \<Rightarrow> data_access" where
  "app_access app_schema state trigger_ref timeout_ms =
     \<lparr>da_app_schema = app_schema, da_state = state, da_invocation = None, da_actor = None, da_delegator = None,
      da_trigger_ref = trigger_ref, da_timeout_ms = timeout_ms, da_cross_app = None, da_origin = FromApp,
      da_delegated_collection = None, da_publication = None\<rparr>"

definition human_access :: "bytes \<Rightarrow> context_state \<Rightarrow> bytes \<Rightarrow> nat \<Rightarrow> data_access" where
  "human_access app_schema state trigger_ref timeout_ms =
     (app_access app_schema state trigger_ref timeout_ms)\<lparr>da_origin := HumanHttp\<rparr>"

definition audited :: "uuid option \<Rightarrow> uuid option \<Rightarrow> data_access \<Rightarrow> data_access" where
  "audited actor delegator d = d\<lparr>da_actor := actor, da_delegator := delegator\<rparr>"

definition invoked_by :: "invocation_context \<Rightarrow> data_access \<Rightarrow> data_access" where
  "invoked_by invocation d = d\<lparr>da_invocation := Some invocation\<rparr>"

definition across_apps :: "authorized_read option \<Rightarrow> data_access \<Rightarrow> data_access" where
  "across_apps authority d = d\<lparr>da_cross_app := authority\<rparr>"

definition for_delegated_collection :: "bytes \<Rightarrow> bytes \<Rightarrow> field_table \<Rightarrow> data_access \<Rightarrow> data_access" where
  "for_delegated_collection entity action types d = d\<lparr>da_delegated_collection := Some (entity, action, types)\<rparr>"

definition published :: "approved_publication \<Rightarrow> data_access \<Rightarrow> data_access" where
  "published publication d = d\<lparr>da_publication := Some publication\<rparr>"

section \<open>Opening the transaction\<close>

record pg_session = world +
  se_settings :: settings
  se_role :: bytes
  se_local :: "(bytes \<times> bytes) list"

record access_env =
  en_show_uuid :: "uuid \<Rightarrow> bytes"
  en_simple_uuid :: "uuid \<Rightarrow> bytes"
  en_lock_publication :: "approved_publication \<Rightarrow> sqlx_error option"
  en_lock_grant :: "authorized_read \<Rightarrow> sqlx_error option"
  en_current_types :: "bytes \<Rightarrow> bytes \<Rightarrow> field_table option"
  en_installation :: "uuid \<Rightarrow> bool"
  en_release :: "bytes \<Rightarrow> bool"
  en_approval :: "uuid \<Rightarrow> bytes list option"
  en_approved_gate :: "settings \<Rightarrow> bytes \<Rightarrow> bool"

definition show_opt :: "access_env \<Rightarrow> uuid option \<Rightarrow> bytes" where
  "show_opt env u = (case u of Some u \<Rightarrow> en_show_uuid env u | None \<Rightarrow> [])"

text \<open>\<open>SELECT set_config(k1, v1, true), ...\<close>\<close>

definition set_all :: "(bytes \<times> bytes) list \<Rightarrow> settings \<Rightarrow> settings" where
  "set_all kvs g = fold (\<lambda>(k, v) g. g(k \<mapsto> v)) kvs g"

definition set_config :: "(bytes \<times> bytes) list \<Rightarrow> (pg_session, sqlx_error, unit) act" where
  "set_config kvs = stmt (act_modify (\<lambda>s. s\<lparr>se_settings := set_all kvs (se_settings s)\<rparr>))"

definition rls_settings :: "access_env \<Rightarrow> bytes \<Rightarrow> context_state \<Rightarrow> (bytes \<times> bytes) list" where
  "rls_settings env app_schema state =
     [(''rootcx.user_id'', show_opt env (cs_user_id state)),
      (''rootcx.is_delegated'', if cs_is_delegated state then ''1'' else ''0''),
      (''rootcx.effective_perms'', join '','' (cs_effective_perms state)),
      (''rootcx.app_id'', app_schema),
      (''rootcx.cross_app_grant_id'', []),
      (''rootcx.cross_app_source_app'', []),
      (''rootcx.cross_app_action'', []),
      (''rootcx.agent_collection_read_key'', []),
      (''rootcx.agent_collection_mutation'', []),
      (''rootcx.human_data_request'', []),
      (''rootcx.approved_action_id'', []),
      (''rootcx.publication_id'', []),
      (''rootcx.publication_read_key'', []),
      (''rootcx.publication_release_ownership'', [])]"

definition set_rls_context :: "access_env \<Rightarrow> bytes \<Rightarrow> context_state \<Rightarrow> (pg_session, sqlx_error, unit) act" where
  "set_rls_context env app_schema state = set_config (rls_settings env app_schema state)"

definition set_invocation_context :: "invocation_context \<Rightarrow> (pg_session, sqlx_error, unit) act" where
  "set_invocation_context invocation =
     (case guc_values invocation of (kind, name, action_id) \<Rightarrow>
       set_config [(''rootcx.invocation_kind'', kind), (''rootcx.invocation_name'', name), (''rootcx.action_id'', action_id)])"

definition set_audit_context ::
  "access_env \<Rightarrow> uuid option \<Rightarrow> uuid option \<Rightarrow> bytes \<Rightarrow> (pg_session, sqlx_error, unit) act" where
  "set_audit_context env actor delegator trigger_ref =
     set_config [(''rootcx.actor_uid'', show_opt env actor), (''rootcx.delegator_uid'', show_opt env delegator),
       (''rootcx.trigger_ref'', trigger_ref)]"

text \<open>A statement that takes a lock and must find its row.\<close>

definition require_row :: "bool \<Rightarrow> sqlx_error \<Rightarrow> (pg_session, sqlx_error, unit) act" where
  "require_row found err =
     act_bind (stmt (act_return ())) (\<lambda>_. if found then act_return () else act_fail err)"

definition approval_gone :: sqlx_error where
  "approval_gone = Protocol ''approved action authority is no longer valid''"

definition bind_context ::
  "access_env \<Rightarrow> bytes \<Rightarrow> context_state \<Rightarrow> invocation_context \<Rightarrow> (pg_session, sqlx_error, unit) act" where
  "bind_context env app state invocation =
     (case cs_approved_action state of
        None \<Rightarrow> act_return ()
      | Some execution \<Rightarrow>
          if app \<noteq> aa_app_id execution \<or> invocation \<noteq> Action (aa_action_id execution) then act_fail approval_gone
          else
            act_bind (require_row (en_installation env (aa_installation_id execution)) approval_gone) (\<lambda>_.
            act_bind (require_row (en_release env app) approval_gone) (\<lambda>_.
            act_bind (require_row (en_approval env (aa_approval_id execution) \<noteq> None) approval_gone) (\<lambda>_.
            act_bind (set_config [(''rootcx.approved_action_id'', en_show_uuid env (aa_approval_id execution))]) (\<lambda>_.
              case opt_default [] (en_approval env (aa_approval_id execution)) of
                [] \<Rightarrow> act_fail approval_gone
              | permission # _ \<Rightarrow>
                  act_bind (stmt (act_get (\<lambda>s. en_approved_gate env (se_settings s) permission))) (\<lambda>valid.
                    if valid then act_return () else act_fail approval_gone))))))"

definition execution_role :: "access_env \<Rightarrow> approved_action_execution \<Rightarrow> bytes" where
  "execution_role env execution = ''rootcx_action_'' @ en_simple_uuid env (aa_approval_id execution)"

text \<open>The part of \<open>begin\<close> for the fixed executor of agent mutations.\<close>

definition bind_collection ::
  "access_env \<Rightarrow> data_access \<Rightarrow> bytes \<times> bytes \<times> field_table \<Rightarrow> (pg_session, sqlx_error, unit) act" where
  "bind_collection env d c =
     (case c of (entity, action, types) \<Rightarrow>
       if \<not> cs_is_delegated (da_state d) \<or> cs_user_id (da_state d) = None \<or> da_cross_app d \<noteq> None \<or>
          cs_public_execution (da_state d) \<noteq> None \<or> cs_approved_action (da_state d) \<noteq> None then
         act_fail (Protocol ''invalid delegated collection context'')
       else
         act_bind (require_row (en_current_types env (da_app_schema d) entity = Some types)
             (Protocol ''delegated collection unavailable or changed'')) (\<lambda>_.
         if is_mutation action then
           set_config [(''rootcx.agent_collection_read_key'', ''app:'' @ da_app_schema d @ '':'' @ entity @ ''.read''),
             (''rootcx.agent_collection_mutation'', action)]
         else act_return ()))"

text \<open>\<open>publications::lock_in_tx\<close> and \<open>cross_app::lock_cross_app_read_in_tx\<close>: the outcome of the lock.\<close>

definition take_lock :: "sqlx_error option \<Rightarrow> (pg_session, sqlx_error, unit) act" where
  "take_lock outcome =
     act_bind (stmt (act_return ())) (\<lambda>_. case outcome of None \<Rightarrow> act_return () | Some e \<Rightarrow> act_fail e)"

definition lock_publication :: "access_env \<Rightarrow> approved_publication \<Rightarrow> (pg_session, sqlx_error, unit) act" where
  "lock_publication env publication = take_lock (en_lock_publication env publication)"

definition bind_publication :: "access_env \<Rightarrow> data_access \<Rightarrow> approved_publication \<Rightarrow> (pg_session, sqlx_error, unit) act" where
  "bind_publication env d publication =
     act_bind (if da_cross_app d \<noteq> None then lock_publication env publication else act_return ()) (\<lambda>_.
       set_config [(''rootcx.publication_id'', en_show_uuid env (ap_id publication)),
         (''rootcx.publication_read_key'', ''app:'' @ ap_provider_app publication @ '':'' @ ap_entity publication @ ''.read''),
         (''rootcx.publication_release_ownership'', if ap_release_ownership publication then ''1'' else ''0'')])"

definition bind_cross_app :: "access_env \<Rightarrow> authorized_read \<Rightarrow> (pg_session, sqlx_error, unit) act" where
  "bind_cross_app env authority =
     act_bind (set_config [(''rootcx.cross_app_grant_id'', en_show_uuid env (ar_grant_id authority)),
         (''rootcx.cross_app_source_app'', ar_consumer_app authority), (''rootcx.cross_app_action'', ar_action authority)]) (\<lambda>_.
       take_lock (en_lock_grant env authority))"

definition when_some :: "'a option \<Rightarrow> ('a \<Rightarrow> ('s, 'e, unit) act) \<Rightarrow> ('s, 'e, unit) act" where
  "when_some x f = (case x of Some y \<Rightarrow> f y | None \<Rightarrow> act_return ())"

definition open_batch :: "data_access \<Rightarrow> (bytes \<times> bytes) list" where
  "open_batch d =
     [(''transaction_isolation'', ''read committed''),
      (''search_path'', quote_ident (da_app_schema d) @ '', public''),
      (''statement_timeout'', show_nat (da_timeout_ms d)),
      (''idle_in_transaction_session_timeout'', ''30000'')]"

definition begin_access :: "access_env \<Rightarrow> data_access \<Rightarrow> (pg_session, sqlx_error, unit) act" where
  "begin_access env d =
     (if cs_public_execution (da_state d) \<noteq> None \<and> da_publication d = None then
        act_fail (Protocol ''public execution requires a publication read'')
      else
        (let invocation = opt_default NoInvocation (da_invocation d);
             action_ref = map_option (\<lambda>a. ''approved-action:'' @ en_show_uuid env (aa_execution_id a)) (cs_approved_action (da_state d));
             executor = (case cs_approved_action (da_state d) of Some a \<Rightarrow> execution_role env a | None \<Rightarrow> ''rootcx_app_executor'')
         in act_bind (stmt (act_return ())) (\<lambda>_.
            act_bind (stmt (act_modify (\<lambda>s. s\<lparr>se_local := open_batch d\<rparr>))) (\<lambda>_.
            act_bind (set_rls_context env (da_app_schema d) (da_state d)) (\<lambda>_.
            act_bind (if da_origin d = HumanHttp then set_config [(''rootcx.human_data_request'', ''1'')] else act_return ()) (\<lambda>_.
            act_bind (when_some (da_delegated_collection d) (bind_collection env d)) (\<lambda>_.
            act_bind (when_some (da_publication d) (lock_publication env)) (\<lambda>_.
            act_bind (when_some (da_cross_app d) (bind_cross_app env)) (\<lambda>_.
            act_bind (when_some (da_publication d) (bind_publication env d)) (\<lambda>_.
            act_bind (set_invocation_context invocation) (\<lambda>_.
            act_bind (bind_context env (da_app_schema d) (da_state d) invocation) (\<lambda>_.
            act_bind (set_audit_context env (da_actor d) (da_delegator d) (opt_default (da_trigger_ref d) action_ref)) (\<lambda>_.
              stmt (act_modify (\<lambda>s. s\<lparr>se_role := quote_ident executor\<rparr>)))))))))))))))"

definition begin_publication_tx ::
  "access_env \<Rightarrow> public_execution \<Rightarrow> approved_publication \<Rightarrow> authorized_read option \<Rightarrow> (pg_session, sqlx_error, unit) act" where
  "begin_publication_tx env execution publication cross_app =
     begin_access env
       (published publication (across_apps cross_app (audited (Some (pe_principal_id execution)) None
         (invoked_by NoInvocation
           (app_access (ap_provider_app publication)
             (default_context\<lparr>cs_user_id := Some (pe_principal_id execution), cs_is_delegated := True,
                cs_audit_actor_id := Some (pe_principal_id execution), cs_public_execution := Some execution\<rparr>)
             ''public_collection'' TIMEOUT_INTERACTIVE_MS)))))"

section \<open>What a transaction is opened with\<close>

lemma set_all_other: "k \<notin> fst ` set kvs \<Longrightarrow> set_all kvs g k = g k"
  by (induction kvs arbitrary: g) (auto simp: set_all_def)

lemma set_config_ok: "set_config kvs s = (Inr u, t) \<Longrightarrow> se_settings t = set_all kvs (se_settings s) \<and> se_role t = se_role s"
  by (auto simp: set_config_def stmt_def act_modify_def split: list.splits option.splits)

lemma plain_stmt_ok: "stmt (act_return ()) s = (Inr u, t) \<Longrightarrow> se_settings t = se_settings s"
  by (auto simp: stmt_def act_return_def split: list.splits option.splits)

lemma local_stmt_ok: "stmt (act_modify (\<lambda>s. s\<lparr>se_local := l\<rparr>)) s = (Inr u, t) \<Longrightarrow> se_settings t = se_settings s"
  by (auto simp: stmt_def act_modify_def split: list.splits option.splits)

lemma role_stmt_ok:
  "stmt (act_modify (\<lambda>s. s\<lparr>se_role := r\<rparr>)) s = (Inr u, t) \<Longrightarrow> se_settings t = se_settings s \<and> se_role t = r"
  by (auto simp: stmt_def act_modify_def split: list.splits option.splits)

lemma audit_context_ok:
  assumes "set_audit_context env actor delegator ref s = (Inr u, t)"
    and "k \<notin> {''rootcx.actor_uid'', ''rootcx.delegator_uid'', ''rootcx.trigger_ref''}"
  shows "se_settings t k = se_settings s k"
  using set_config_ok [OF assms(1) [unfolded set_audit_context_def]] assms(2) by (simp add: set_all_other)

definition gate_keys :: "bytes list" where
  "gate_keys = [''rootcx.user_id'', ''rootcx.is_delegated'', ''rootcx.effective_perms'', ''rootcx.app_id'',
     ''rootcx.agent_collection_read_key'', ''rootcx.agent_collection_mutation'', ''rootcx.approved_action_id'',
     ''rootcx.publication_id'']"

text \<open>A request of an app, or of a human over HTTP, that carries no privileged marker.\<close>

definition plain_access :: "data_access \<Rightarrow> bool" where
  "plain_access d \<longleftrightarrow>
     da_cross_app d = None \<and> da_delegated_collection d = None \<and> da_publication d = None \<and>
     cs_public_execution (da_state d) = None \<and> cs_approved_action (da_state d) = None"

lemma begin_plain:
  assumes plain: "plain_access d" and run: "begin_access env d s = (Inr u, t)"
  shows "se_role t = quote_ident ''rootcx_app_executor''"
    and "k \<in> set gate_keys \<Longrightarrow> se_settings t k = map_of (rls_settings env (da_app_schema d) (da_state d)) k"
    and "se_settings t ''rootcx.human_data_request'' = Some (if da_origin d = HumanHttp then ''1'' else [])"
proof -
  obtain s2 s3 s4 s5 s6 where
    s3: "set_rls_context env (da_app_schema d) (da_state d) s2 = (Inr (), s3)"
    and s4: "(if da_origin d = HumanHttp then set_config [(''rootcx.human_data_request'', ''1'')] else act_return ()) s3 = (Inr (), s4)"
    and s5: "set_invocation_context (opt_default NoInvocation (da_invocation d)) s4 = (Inr (), s5)"
    and s6: "set_audit_context env (da_actor d) (da_delegator d) (da_trigger_ref d) s5 = (Inr (), s6)"
    and role: "stmt (act_modify (\<lambda>s. s\<lparr>se_role := quote_ident ''rootcx_app_executor''\<rparr>)) s6 = (Inr (), t)"
    using run plain
    by (auto simp: begin_access_def plain_access_def Let_def act_success when_some_def bind_context_def)
  show "se_role t = quote_ident ''rootcx_app_executor''" using role_stmt_ok [OF role] by blast
  let ?rls = "rls_settings env (da_app_schema d) (da_state d)"
  have g3: "se_settings s3 = set_all ?rls (se_settings s2)"
    using set_config_ok s3 unfolding set_rls_context_def by blast
  have g4: "se_settings s4 = (if da_origin d = HumanHttp then (se_settings s3)(''rootcx.human_data_request'' \<mapsto> ''1'') else se_settings s3)"
    using s4 set_config_ok [of "[(''rootcx.human_data_request'', ''1'')]" s3 "()" s4]
    by (auto simp: act_success set_all_def split: if_splits)
  have g6: "se_settings t k = se_settings s4 k"
    if "k \<notin> {''rootcx.invocation_kind'', ''rootcx.invocation_name'', ''rootcx.action_id'', ''rootcx.actor_uid'',
      ''rootcx.delegator_uid'', ''rootcx.trigger_ref''}" for k
  proof -
    obtain kind name action_id where gv: "guc_values (opt_default NoInvocation (da_invocation d)) = (kind, name, action_id)"
      by (cases "guc_values (opt_default NoInvocation (da_invocation d))") auto
    have "se_settings s5 = set_all [(''rootcx.invocation_kind'', kind), (''rootcx.invocation_name'', name),
        (''rootcx.action_id'', action_id)] (se_settings s4)"
      using s5 set_config_ok unfolding set_invocation_context_def gv by fastforce
    then have "se_settings s5 k = se_settings s4 k" using that by (simp add: set_all_other)
    moreover have "se_settings s6 k = se_settings s5 k"
      using audit_context_ok [OF s6] that by simp
    ultimately show ?thesis using role_stmt_ok [OF role] by simp
  qed
  have at4: "se_settings s4 k = map_of ?rls k" if "k \<in> set gate_keys" for k
    using that unfolding g4 g3 gate_keys_def by (auto simp: set_all_def rls_settings_def)
  show "se_settings t k = map_of ?rls k" if k: "k \<in> set gate_keys"
    using g6 [of k] at4 [OF k] k by (auto simp: gate_keys_def)
  show "se_settings t ''rootcx.human_data_request'' = Some (if da_origin d = HumanHttp then ''1'' else [])"
    using g6 [of "''rootcx.human_data_request''"] g4 g3 by (simp add: set_all_def rls_settings_def)
qed

end
