(* ===== verification/Workflow_Graph.thy ===== *)
theory Workflow_Graph
  imports Json "HOL-Library.Multiset"
begin

text \<open>
  Workflow graphs: the types of \<open>crates/shared-types\<close>, the items that flow between nodes
  (\<open>extensions/workflows/items.rs\<close>), the structural check (\<open>validate.rs\<close>) and the order in
  which nodes run (\<open>executor::topo_sort\<close>).

  A port is a \<open>u8\<close>, a natural number below 256; \<open>i as u8\<close> is taken modulo 256. The
  position of a node on the canvas is left out. \<open>topo_sort\<close> starts from the entries of a
  hash map, whose order is a parameter.
\<close>

section \<open>Types\<close>

datatype trigger_kind = Manual | Schedule | Webhook | RecordChange | Channel

datatype control_kind = ControlIf | Switch | Merge | ControlSet | Loop | Wait | Stop

datatype node_kind =
    Trigger trigger_kind
  | Tool bytes
  | Control control_kind
  | Code
  | SubWorkflow bytes

record workflow_node =
  wn_id :: bytes
  wn_kind :: node_kind
  wn_label :: "bytes option"
  wn_params :: json

record workflow_edge =
  we_from :: bytes
  we_to :: bytes
  we_from_output :: nat
  we_to_input :: nat

record workflow_graph =
  wg_nodes :: "workflow_node list"
  wg_edges :: "workflow_edge list"

record item =
  item_json :: json

datatype execution_status = Queued | Running | Succeeded | Failed | Canceled

fun execution_status_str :: "execution_status \<Rightarrow> bytes" where
  "execution_status_str Queued = ''queued''"
| "execution_status_str Running = ''running''"
| "execution_status_str Succeeded = ''succeeded''"
| "execution_status_str Failed = ''failed''"
| "execution_status_str Canceled = ''canceled''"

datatype node_status = NodePending | NodeRunning | NodeSucceeded | NodeFailed | NodeSkipped

fun node_status_str :: "node_status \<Rightarrow> bytes" where
  "node_status_str NodePending = ''pending''"
| "node_status_str NodeRunning = ''running''"
| "node_status_str NodeSucceeded = ''succeeded''"
| "node_status_str NodeFailed = ''failed''"
| "node_status_str NodeSkipped = ''skipped''"

fun is_trigger_kind :: "node_kind \<Rightarrow> bool" where
  "is_trigger_kind (Trigger _) = True"
| "is_trigger_kind _ = False"

section \<open>Items\<close>

definition get_nth :: "'a list \<Rightarrow> nat \<Rightarrow> 'a option" where
  "get_nth xs i = (if i < length xs then Some (xs ! i) else None)"

definition encode :: "item list list \<Rightarrow> json" where
  "encode output = JArray (map (\<lambda>port. JArray (map (\<lambda>item. jobj [(''json'', item_json item)]) port)) output)"

definition item_of :: "json \<Rightarrow> item" where
  "item_of v = \<lparr>item_json = opt_default v (get_key v ''json'')\<rparr>"

definition decode_port :: "json \<Rightarrow> nat \<Rightarrow> item list" where
  "decode_port output port =
     (case as_array output of
        Some ports \<Rightarrow>
          (case Option.bind (get_nth ports port) as_array of
             Some items_arr \<Rightarrow> map item_of items_arr
           | None \<Rightarrow> [])
      | None \<Rightarrow> if is_null output then [] else [\<lparr>item_json = output\<rparr>])"

definition port_carries :: "json \<Rightarrow> bool" where
  "port_carries p \<longleftrightarrow> (case as_array p of Some a \<Rightarrow> a \<noteq> [] | None \<Rightarrow> False)"

definition active_ports :: "json \<Rightarrow> nat list" where
  "active_ports output =
     (case as_array output of
        Some ports \<Rightarrow> map (\<lambda>(i, _). i mod 256) (filter (\<lambda>(_, p). port_carries p) (List.enumerate 0 ports))
      | None \<Rightarrow> [])"

definition node_item_json :: "json \<Rightarrow> nat \<Rightarrow> nat \<Rightarrow> json" where
  "node_item_json output port index =
     opt_default JNull
       (Option.bind (as_array output) (\<lambda>ports. Option.bind (get_nth ports port) (\<lambda>p.
        Option.bind (as_array p) (\<lambda>items. Option.bind (get_nth items index) (\<lambda>item. get_key item ''json'')))))"

section \<open>The structural check\<close>

definition node_ids :: "workflow_graph \<Rightarrow> bytes list" where
  "node_ids graph = map wn_id (wg_nodes graph)"

fun duplicate_errors :: "bytes list \<Rightarrow> bytes list \<Rightarrow> bytes list" where
  "duplicate_errors seen [] = []"
| "duplicate_errors seen (i # ids) =
     (if i \<in> set seen then (''duplicate node id: '' @ i) # duplicate_errors seen ids
      else duplicate_errors (i # seen) ids)"

definition edge_errors :: "bytes list \<Rightarrow> workflow_edge \<Rightarrow> bytes list" where
  "edge_errors ids e =
     (if we_from e \<in> set ids then [] else [''edge references nonexistent source node: '' @ we_from e]) @
     (if we_to e \<in> set ids then [] else [''edge references nonexistent target node: '' @ we_to e])"

definition note_ref :: "bytes list \<Rightarrow> bytes \<Rightarrow> bytes list \<Rightarrow> bytes list" where
  "note_ref valid_ids node_id errors =
     (if node_id \<in> set valid_ids then errors
      else
        (let msg = ''expression references nonexistent node: '' @ node_id
         in if msg \<in> set errors then errors else errors @ [msg]))"

text \<open>The loop for one of the two spellings of a reference.\<close>

function ref_loop :: "bytes \<Rightarrow> char \<Rightarrow> bytes list \<Rightarrow> bytes \<Rightarrow> bytes list \<Rightarrow> bytes list" where
  "ref_loop pat quote valid_ids rest errors =
     (case find_sub pat rest of
        None \<Rightarrow> errors
      | Some (_, after) \<Rightarrow>
          (case find_sub [quote] after of
             None \<Rightarrow> errors
           | Some (node_id, rest') \<Rightarrow> ref_loop pat quote valid_ids rest' (note_ref valid_ids node_id errors)))"
  by pat_completeness auto

termination
proof (relation "measure (\<lambda>(_, _, _, rest, _). length rest)", goal_cases)
  case (2 pat quote valid_ids rest errors x b after y node_id rest')
  then have "rest = b @ pat @ after" "after = node_id @ [quote] @ rest'"
    using find_sub_Some by (metis, metis)
  then show ?case by simp
qed simp

definition NODE_DQ :: bytes where "NODE_DQ = ''$node['' @ [DQ]"
definition NODE_SQ :: bytes where "NODE_SQ = ''$node['' @ [SQ]"

definition extract_node_refs :: "bytes list \<Rightarrow> bytes \<Rightarrow> bytes list \<Rightarrow> bytes list" where
  "extract_node_refs valid_ids s errors =
     ref_loop NODE_SQ SQ valid_ids s (ref_loop NODE_DQ DQ valid_ids s errors)"

fun collect_node_refs :: "bytes list \<Rightarrow> json \<Rightarrow> bytes list \<Rightarrow> bytes list"
and collect_members :: "bytes list \<Rightarrow> (bytes \<times> json) list \<Rightarrow> bytes list \<Rightarrow> bytes list"
and collect_elements :: "bytes list \<Rightarrow> json list \<Rightarrow> bytes list \<Rightarrow> bytes list" where
  "collect_node_refs ids (JString s) errors = extract_node_refs ids s errors"
| "collect_node_refs ids (JObject m) errors = collect_members ids m errors"
| "collect_node_refs ids (JArray arr) errors = collect_elements ids arr errors"
| "collect_node_refs ids JNull errors = errors"
| "collect_node_refs ids (JBool b) errors = errors"
| "collect_node_refs ids (JNumber n) errors = errors"
| "collect_members ids [] errors = errors"
| "collect_members ids ((k, v) # m) errors = collect_members ids m (collect_node_refs ids v errors)"
| "collect_elements ids [] errors = errors"
| "collect_elements ids (v # vs) errors = collect_elements ids vs (collect_node_refs ids v errors)"

definition validate :: "workflow_graph \<Rightarrow> bytes list + unit" where
  "validate graph =
     (let ids = node_ids graph;
          errors0 = (if card (set ids) \<noteq> length ids then duplicate_errors [] ids else []);
          errors1 = errors0 @ (if \<exists>n \<in> set (wg_nodes graph). is_trigger_kind (wn_kind n) then [] else [''graph has no trigger node'']);
          errors2 = errors1 @ concat (map (edge_errors ids) (wg_edges graph));
          errors = fold (\<lambda>n errs. collect_node_refs ids (wn_params n) errs) (wg_nodes graph) errors2
      in if errors = [] then Inr () else Inl errors)"

section \<open>The order of execution\<close>

text \<open>\<open>entry(k).or_insert(0)\<close>, and \<open>+= 1\<close> on it.\<close>

definition entry_zero :: "bytes \<Rightarrow> (bytes \<times> nat) list \<Rightarrow> (bytes \<times> nat) list" where
  "entry_zero k m = (if k \<in> fst ` set m then m else map_insert k 0 m)"

definition count_edge :: "workflow_edge \<Rightarrow> (bytes \<times> nat) list \<Rightarrow> (bytes \<times> nat) list" where
  "count_edge e m = map_insert (we_to e) (opt_default 0 (map_of m (we_to e)) + 1) m"

definition in_degrees :: "workflow_graph \<Rightarrow> (bytes \<times> nat) list" where
  "in_degrees graph =
     fold count_edge (wg_edges graph) (fold (\<lambda>n. entry_zero (wn_id n)) (wg_nodes graph) [])"

text \<open>The inner loop over the edges; \<open>None\<close> is the overflow of \<open>*d -= 1\<close>.\<close>

fun release :: "bytes \<Rightarrow> workflow_edge list \<Rightarrow> (bytes \<times> nat) list \<Rightarrow> bytes list \<Rightarrow> ((bytes \<times> nat) list \<times> bytes list) option" where
  "release n [] deg queue = Some (deg, queue)"
| "release n (e # es) deg queue =
     (if we_from e = n then
        (case map_of deg (we_to e) of
           None \<Rightarrow> release n es deg queue
         | Some 0 \<Rightarrow> None
         | Some (Suc d) \<Rightarrow>
             release n es (map_insert (we_to e) d deg) (if d = 0 then queue @ [we_to e] else queue))
      else release n es deg queue)"

lemma sum_map_insert:
  "map_of deg k = Some (Suc d) \<Longrightarrow> Suc (sum_list (map snd (map_insert k d deg))) = sum_list (map snd deg)"
  by (induction deg) auto

lemma release_measure:
  "release n es deg queue = Some (deg', queue') \<Longrightarrow>
   length queue' + sum_list (map snd deg') \<le> length queue + sum_list (map snd deg)"
  by (induction n es deg queue rule: release.induct)
    (fastforce split: if_splits option.splits nat.splits simp: sum_map_insert [symmetric])+

function topo_loop :: "workflow_edge list \<Rightarrow> (bytes \<times> nat) list \<Rightarrow> bytes list \<Rightarrow> bytes list \<Rightarrow> bytes list option" where
  "topo_loop edges deg [] order = Some order"
| "topo_loop edges deg (n # queue) order =
     (case release n edges deg queue of
        None \<Rightarrow> None
      | Some (deg', queue') \<Rightarrow> topo_loop edges deg' queue' (order @ [n]))"
  by pat_completeness auto

termination
  by (relation "measure (\<lambda>(_, deg, queue, _). length queue + sum_list (map snd deg))")
    (auto dest: release_measure)

definition topo_sort :: "((bytes \<times> nat) list \<Rightarrow> (bytes \<times> nat) list) \<Rightarrow> workflow_graph \<Rightarrow> bytes list option" where
  "topo_sort arrange graph =
     (let in_degree = in_degrees graph
      in topo_loop (wg_edges graph) in_degree (map fst (filter (\<lambda>(_, d). d = 0) (arrange in_degree))) [])"

section \<open>Items flow through unchanged\<close>

lemma item_of_encoded [simp]: "item_of (jobj [(''json'', item_json i)]) = i"
  by (simp add: item_of_def get_key_jobj)

lemma decode_encode: "decode_port (encode output) port = opt_default [] (get_nth output port)"
  by (simp add: decode_port_def encode_def get_nth_def comp_def)

lemma node_item_encode:
  "node_item_json (encode output) port index =
   opt_default JNull (Option.bind (get_nth output port) (\<lambda>p. map_option item_json (get_nth p index)))"
  by (simp add: node_item_json_def encode_def get_nth_def get_key_jobj)

lemma active_encode:
  "set (active_ports (encode output)) = {i mod 256 | i. i < length output \<and> output ! i \<noteq> []}"
  by (fastforce simp: active_ports_def encode_def port_carries_def in_set_enumerate_eq image_iff)

section \<open>What the check admits\<close>

text \<open>The references one spelling of a string contains, as the scan finds them.\<close>

function scan_refs :: "bytes \<Rightarrow> char \<Rightarrow> bytes \<Rightarrow> bytes set" where
  "scan_refs pat quote rest =
     (case find_sub pat rest of
        None \<Rightarrow> {}
      | Some (_, after) \<Rightarrow>
          (case find_sub [quote] after of
             None \<Rightarrow> {}
           | Some (node_id, rest') \<Rightarrow> insert node_id (scan_refs pat quote rest')))"
  by pat_completeness auto

termination
proof (relation "measure (\<lambda>(_, _, rest). length rest)", goal_cases)
  case (2 pat quote rest x b after y node_id rest')
  then have "rest = b @ pat @ after" "after = node_id @ [quote] @ rest'"
    using find_sub_Some by (metis, metis)
  then show ?case by simp
qed simp

fun json_strings :: "json \<Rightarrow> bytes set"
and member_strings :: "(bytes \<times> json) list \<Rightarrow> bytes set"
and element_strings :: "json list \<Rightarrow> bytes set" where
  "json_strings (JString s) = {s}"
| "json_strings (JObject m) = member_strings m"
| "json_strings (JArray arr) = element_strings arr"
| "json_strings JNull = {}"
| "json_strings (JBool b) = {}"
| "json_strings (JNumber n) = {}"
| "member_strings [] = {}"
| "member_strings ((k, v) # m) = json_strings v \<union> member_strings m"
| "element_strings [] = {}"
| "element_strings (v # vs) = json_strings v \<union> element_strings vs"

text \<open>The nodes that the expressions in a value refer to.\<close>

definition refs_of :: "json \<Rightarrow> bytes set" where
  "refs_of v = (\<Union>s \<in> json_strings v. scan_refs NODE_DQ DQ s \<union> scan_refs NODE_SQ SQ s)"

definition well_formed :: "workflow_graph \<Rightarrow> bool" where
  "well_formed graph \<longleftrightarrow>
     distinct (node_ids graph) \<and>
     (\<exists>n \<in> set (wg_nodes graph). is_trigger_kind (wn_kind n)) \<and>
     (\<forall>e \<in> set (wg_edges graph). we_from e \<in> set (node_ids graph) \<and> we_to e \<in> set (node_ids graph)) \<and>
     (\<forall>n \<in> set (wg_nodes graph). refs_of (wn_params n) \<subseteq> set (node_ids graph))"

lemma note_ref_empty [simp]: "note_ref ids i errs = [] \<longleftrightarrow> errs = [] \<and> i \<in> set ids"
  by (auto simp: note_ref_def Let_def)

lemma ref_loop_empty: "ref_loop pat q ids rest errs = [] \<longleftrightarrow> errs = [] \<and> scan_refs pat q rest \<subseteq> set ids"
proof (induction pat q ids rest errs rule: ref_loop.induct)
  case (1 pat quote ids rest errs)
  show ?case
  proof (cases "find_sub pat rest")
    case (Some x)
    obtain b after where x: "x = (b, after)" by force
    show ?thesis
    proof (cases "find_sub [quote] after")
      case (Some y)
      obtain i rest' where y: "y = (i, rest')" by force
      have "ref_loop pat quote ids rest' (note_ref ids i errs) = [] \<longleftrightarrow>
          note_ref ids i errs = [] \<and> scan_refs pat quote rest' \<subseteq> set ids"
        using 1 \<open>find_sub pat rest = Some x\<close> x Some y by blast
      then show ?thesis
        using \<open>find_sub pat rest = Some x\<close> x Some y
        by (subst ref_loop.simps, subst scan_refs.simps) auto
    qed (use \<open>find_sub pat rest = Some x\<close> x in \<open>simp add: ref_loop.simps scan_refs.simps\<close>)
  qed (simp add: ref_loop.simps scan_refs.simps)
qed

declare ref_loop.simps [simp del] scan_refs.simps [simp del]

lemma collect_refs_empty:
  "collect_node_refs ids v errs = [] \<longleftrightarrow> errs = [] \<and> refs_of v \<subseteq> set ids"
  "collect_members ids m errs = [] \<longleftrightarrow>
     errs = [] \<and> (\<Union>s \<in> member_strings m. scan_refs NODE_DQ DQ s \<union> scan_refs NODE_SQ SQ s) \<subseteq> set ids"
  "collect_elements ids vs errs = [] \<longleftrightarrow>
     errs = [] \<and> (\<Union>s \<in> element_strings vs. scan_refs NODE_DQ DQ s \<union> scan_refs NODE_SQ SQ s) \<subseteq> set ids"
  by (induction ids v errs and ids m errs and ids vs errs
      rule: collect_node_refs_collect_members_collect_elements.induct)
    (auto simp: refs_of_def extract_node_refs_def ref_loop_empty)

lemma fold_collect_empty:
  "fold (\<lambda>n errs. collect_node_refs ids (wn_params n) errs) ns errs = [] \<longleftrightarrow>
   errs = [] \<and> (\<forall>n \<in> set ns. refs_of (wn_params n) \<subseteq> set ids)"
  by (induction ns arbitrary: errs) (auto simp: collect_refs_empty)

lemma duplicate_errors_empty:
  "duplicate_errors seen ids = [] \<longleftrightarrow> distinct ids \<and> set ids \<inter> set seen = {}"
  by (induction seen ids rule: duplicate_errors.induct) auto

lemma validate_ok_iff: "validate graph = Inr () \<longleftrightarrow> well_formed graph"
proof -
  have "(if card (set ids) \<noteq> length ids then duplicate_errors [] ids else []) = [] \<longleftrightarrow> distinct ids" for ids
    using duplicate_errors_empty [of "[]" ids] by (auto simp: card_distinct distinct_card)
  moreover have "concat (map (edge_errors ids) es) = [] \<longleftrightarrow>
      (\<forall>e \<in> set es. we_from e \<in> set ids \<and> we_to e \<in> set ids)" for ids es
    by (auto simp: edge_errors_def)
  ultimately show ?thesis
    unfolding validate_def well_formed_def Let_def fold_collect_empty by (simp only: append_is_Nil_conv) auto
qed

section \<open>What the order contains\<close>

definition edge_rel :: "workflow_graph \<Rightarrow> (bytes \<times> bytes) set" where
  "edge_rel graph = (\<lambda>e. (we_from e, we_to e)) ` set (wg_edges graph)"

definition edges_to :: "bytes \<Rightarrow> workflow_edge list \<Rightarrow> workflow_edge list" where
  "edges_to m es = filter (\<lambda>e. we_to e = m) es"

definition pending_edges :: "bytes list \<Rightarrow> bytes \<Rightarrow> workflow_edge list \<Rightarrow> nat" where
  "pending_edges order m es = length (filter (\<lambda>e. we_from e \<notin> set order) (edges_to m es))"

definition edges_between :: "bytes \<Rightarrow> bytes \<Rightarrow> workflow_edge list \<Rightarrow> nat" where
  "edges_between n m es = length (filter (\<lambda>e. we_from e = n \<and> we_to e = m) es)"

lemma edges_between_Cons [simp]:
  "edges_between n m [] = 0"
  "edges_between n m (e # es) = (if we_from e = n \<and> we_to e = m then 1 else 0) + edges_between n m es"
  by (simp_all add: edges_between_def)

lemma release_spec:
  assumes "\<And>m d. map_of deg m = Some d \<Longrightarrow> edges_between n m es \<le> d"
  shows "\<exists>deg' released. release n es deg queue = Some (deg', queue @ released) \<and>
    (\<forall>m. map_of deg' m = map_option (\<lambda>d. d - edges_between n m es) (map_of deg m)) \<and>
    distinct released \<and> set released = {m. \<exists>d. map_of deg m = Some d \<and> 0 < d \<and> d = edges_between n m es}"
  using assms
proof (induction es arbitrary: deg queue)
  case Nil
  then show ?case by (auto intro: option.map_ident [symmetric])
next
  case (Cons e es)
  show ?case
  proof (cases "we_from e = n \<and> we_to e \<in> dom (map_of deg)")
    case False
    then have eq: "release n (e # es) deg queue = release n es deg queue" by (auto split: option.splits)
    have same: "map_of deg m = Some d \<Longrightarrow> edges_between n m (e # es) = edges_between n m es" for m d
      using False by auto
    have "edges_between n m es \<le> d" if "map_of deg m = Some d" for m d
      using Cons.prems [OF that] same [OF that] by simp
    then obtain deg' released where r: "release n es deg queue = Some (deg', queue @ released)"
      "\<forall>m. map_of deg' m = map_option (\<lambda>d. d - edges_between n m es) (map_of deg m)" "distinct released"
      "set released = {m. \<exists>d. map_of deg m = Some d \<and> 0 < d \<and> d = edges_between n m es}"
      using Cons.IH [of deg queue] by blast
    have "map_of deg' m = map_option (\<lambda>d. d - edges_between n m (e # es)) (map_of deg m)" for m
      using r(2) same [of m] by (cases "map_of deg m") simp_all
    moreover have "set released = {m. \<exists>d. map_of deg m = Some d \<and> 0 < d \<and> d = edges_between n m (e # es)}"
      using r(4) same by (auto simp del: edges_between_Cons)
    ultimately show ?thesis unfolding eq using r(1,3) by blast
  next
    case True
    then obtain d0 where "map_of deg (we_to e) = Some d0" by auto
    moreover have "1 \<le> d0" using Cons.prems [OF calculation] True by simp
    ultimately obtain d where d: "map_of deg (we_to e) = Some (Suc d)" by (cases d0) auto
    let ?deg = "map_insert (we_to e) d deg" and ?queue = "if d = 0 then queue @ [we_to e] else queue"
    have eq: "release n (e # es) deg queue = release n es ?deg ?queue" using True d by simp
    have "edges_between n m es \<le> d'" if "map_of ?deg m = Some d'" for m d'
      using that Cons.prems [of m] Cons.prems [OF d] True by (auto split: if_splits)
    then obtain deg' released where r: "release n es ?deg ?queue = Some (deg', ?queue @ released)"
      "\<forall>m. map_of deg' m = map_option (\<lambda>d. d - edges_between n m es) (map_of ?deg m)" "distinct released"
      "set released = {m. \<exists>d. map_of ?deg m = Some d \<and> 0 < d \<and> d = edges_between n m es}"
      using Cons.IH [of ?deg ?queue] by blast
    let ?released = "if d = 0 then we_to e # released else released"
    have zero: "d = 0 \<Longrightarrow> edges_between n (we_to e) es = 0" using Cons.prems [OF d] True by simp
    have "map_of deg' m = map_option (\<lambda>x. x - edges_between n m (e # es)) (map_of deg m)" for m
      using r(2) d True by (cases "m = we_to e") auto
    moreover have "distinct ?released" using r(3,4) by auto
    moreover have "set ?released = {m. \<exists>d. map_of deg m = Some d \<and> 0 < d \<and> d = edges_between n m (e # es)}"
    proof (rule set_eqI)
      fix m
      have mem: "m \<in> set released \<longleftrightarrow> (\<exists>x. map_of ?deg m = Some x \<and> 0 < x \<and> x = edges_between n m es)"
        using r(4) by blast
      show "m \<in> set ?released \<longleftrightarrow> m \<in> {m. \<exists>d. map_of deg m = Some d \<and> 0 < d \<and> d = edges_between n m (e # es)}"
      proof (cases "m = we_to e")
        case True
        then show ?thesis using mem d zero \<open>we_from e = n \<and> _\<close> by (cases "d = 0") auto
      next
        case False
        then show ?thesis using mem by auto
      qed
    qed
    ultimately show ?thesis unfolding eq using r(1) by (intro exI [of _ deg'] exI [of _ ?released]) auto
  qed
qed

lemma pending_step:
  assumes "n \<notin> set order"
  shows "pending_edges order m es = pending_edges (order @ [n]) m es + edges_between n m es"
  using assms by (induction es) (auto simp: pending_edges_def edges_to_def)

lemma pending_zero: "pending_edges order m es = 0 \<longleftrightarrow> (\<forall>e \<in> set es. we_to e = m \<longrightarrow> we_from e \<in> set order)"
  by (auto simp: pending_edges_def edges_to_def filter_empty_conv)

text \<open>The sources of every edge into a node of the order come before it.\<close>

definition sources_first :: "workflow_edge list \<Rightarrow> bytes list \<Rightarrow> bool" where
  "sources_first es order \<longleftrightarrow>
     (\<forall>xs n ys. order = xs @ n # ys \<longrightarrow> (\<forall>e \<in> set es. we_to e = n \<longrightarrow> we_from e \<in> set xs))"

lemma sources_first_snoc:
  assumes "sources_first es order" "\<forall>e \<in> set es. we_to e = n \<longrightarrow> we_from e \<in> set order"
  shows "sources_first es (order @ [n])"
  using assms unfolding sources_first_def by (auto simp: append_eq_append_conv2 append_eq_Cons_conv Cons_eq_append_conv)

definition topo_inv :: "bytes set \<Rightarrow> workflow_edge list \<Rightarrow> (bytes \<times> nat) list \<Rightarrow> bytes list \<Rightarrow> bytes list \<Rightarrow> bool" where
  "topo_inv ids es deg queue order \<longleftrightarrow>
     (\<forall>m. map_of deg m = (if m \<in> ids then Some (pending_edges order m es) else None)) \<and>
     distinct (order @ queue) \<and>
     set (order @ queue) = {m \<in> ids. pending_edges order m es = 0} \<and>
     sources_first es order"

lemma topo_inv_step:
  assumes "topo_inv ids es deg (n # queue) order"
  shows "\<exists>deg' queue'. release n es deg queue = Some (deg', queue') \<and> topo_inv ids es deg' queue' (order @ [n])"
proof -
  have deg: "map_of deg m = (if m \<in> ids then Some (pending_edges order m es) else None)" for m
    using assms by (simp add: topo_inv_def)
  have n: "n \<notin> set order" "n \<in> ids" "pending_edges order n es = 0" using assms by (auto simp: topo_inv_def)
  note pend = pending_step [OF n(1)]
  have "edges_between n m es \<le> d" if "map_of deg m = Some d" for m d
    using that deg [of m] pend [of m es] by (simp split: if_splits)
  then obtain deg' released where r: "release n es deg queue = Some (deg', queue @ released)"
    "\<forall>m. map_of deg' m = map_option (\<lambda>d. d - edges_between n m es) (map_of deg m)" "distinct released"
    "set released = {m. \<exists>d. map_of deg m = Some d \<and> 0 < d \<and> d = edges_between n m es}"
    using release_spec [of deg n es queue] by blast
  have deg': "map_of deg' m = (if m \<in> ids then Some (pending_edges (order @ [n]) m es) else None)" for m
    using r(2) deg [of m] pend [of m] by simp
  have rel: "set released = {m \<in> ids. pending_edges order m es \<noteq> 0 \<and> pending_edges (order @ [n]) m es = 0}"
    unfolding r(4) using deg pend by auto
  have old: "set (order @ n # queue) = {m \<in> ids. pending_edges order m es = 0}" using assms by (simp add: topo_inv_def)
  have "set ((order @ [n]) @ (queue @ released)) = {m \<in> ids. pending_edges (order @ [n]) m es = 0}"
    using old pend unfolding set_append rel by auto
  moreover have "distinct ((order @ [n]) @ (queue @ released))"
    using assms r(3) rel old by (auto simp: topo_inv_def)
  moreover have "sources_first es (order @ [n])"
    using assms n(3) by (intro sources_first_snoc) (auto simp: topo_inv_def pending_zero)
  ultimately have "topo_inv ids es deg' (queue @ released) (order @ [n])"
    using deg' by (simp add: topo_inv_def)
  then show ?thesis using r(1) by blast
qed

lemma topo_loop_inv:
  "topo_inv ids es deg queue order \<Longrightarrow> \<exists>deg' order'. topo_loop es deg queue order = Some order' \<and> topo_inv ids es deg' [] order'"
proof (induction es deg queue order rule: topo_loop.induct)
  case (2 es deg n queue order)
  then obtain deg' queue' where "release n es deg queue = Some (deg', queue')" "topo_inv ids es deg' queue' (order @ [n])"
    using topo_inv_step by blast
  then show ?case using "2.IH" by simp
qed auto

lemma map_of_entry_zero: "map_of (entry_zero k m) = (if k \<in> dom (map_of m) then map_of m else (map_of m)(k \<mapsto> 0))"
  by (auto simp: entry_zero_def dom_map_of_conv_image_fst)

lemma map_of_nodes_zero:
  "map_of (fold (\<lambda>n. entry_zero (wn_id n)) ns m) k =
   (if k \<in> dom (map_of m) then map_of m k else if k \<in> wn_id ` set ns then Some 0 else None)"
  by (induction ns arbitrary: m) (auto simp: map_of_entry_zero domIff)

lemma map_of_count_edges:
  "map_of (fold count_edge es m) k =
   (if k \<in> dom (map_of m) \<or> k \<in> we_to ` set es then Some (opt_default 0 (map_of m k) + length (edges_to k es)) else None)"
proof (induction es arbitrary: m)
  case (Cons e es)
  then show ?case by (auto simp: count_edge_def edges_to_def domIff)
qed (auto simp: edges_to_def domIff)

definition edges_closed :: "workflow_graph \<Rightarrow> bool" where
  "edges_closed graph \<longleftrightarrow>
     (\<forall>e \<in> set (wg_edges graph). we_from e \<in> set (node_ids graph) \<and> we_to e \<in> set (node_ids graph))"

lemma map_of_in_degrees:
  assumes "edges_closed graph"
  shows "map_of (in_degrees graph) m =
    (if m \<in> set (node_ids graph) then Some (pending_edges [] m (wg_edges graph)) else None)"
proof -
  have "we_to ` set (wg_edges graph) \<subseteq> set (node_ids graph)" using assms by (auto simp: edges_closed_def)
  moreover have "m \<in> wn_id ` set (wg_nodes graph) \<longleftrightarrow> m \<in> set (node_ids graph)" by (simp add: node_ids_def)
  ultimately show ?thesis
    unfolding in_degrees_def map_of_count_edges map_of_nodes_zero by (auto simp: pending_edges_def domIff)
qed

text \<open>In a finite set in which every element has a predecessor, a cycle leads to each of them.\<close>

lemma backward_cycle:
  assumes "finite S" and step: "\<And>m. m \<in> S \<Longrightarrow> \<exists>p \<in> S. (p, m) \<in> E" and "n \<in> S"
  shows "\<exists>c. (c, c) \<in> E\<^sup>+ \<and> (c, n) \<in> E\<^sup>*"
proof (rule ccontr)
  assume none: "\<not> ?thesis"
  let ?S = "{m \<in> S. (m, n) \<in> E\<^sup>*}"
  let ?R = "E \<inter> ?S \<times> ?S"
  have "acyclic ?R"
  proof (rule acyclicI, intro allI notI)
    fix c assume c: "(c, c) \<in> ?R\<^sup>+"
    then have "(c, c) \<in> E\<^sup>+" by (rule trancl_mono) blast
    moreover have "c \<in> ?S" using tranclD [OF c] by blast
    ultimately show False using none by blast
  qed
  moreover have "finite ?R" using assms(1) by simp
  ultimately have wf: "wf ?R" by (rule finite_acyclic_wf [rotated])
  have "n \<in> ?S" using assms(3) by simp
  from wfE_min [OF wf this] obtain z where "z \<in> ?S" and min: "\<And>y. (y, z) \<in> ?R \<Longrightarrow> y \<notin> ?S" by blast
  then obtain p where "p \<in> S" "(p, z) \<in> E" using step by blast
  moreover have "(p, n) \<in> E\<^sup>*" using calculation \<open>z \<in> ?S\<close> by (auto intro: converse_rtrancl_into_rtrancl)
  ultimately show False using min [of p] \<open>z \<in> ?S\<close> by blast
qed

lemma sources_first_ancestor:
  assumes "sources_first (wg_edges graph) order" and "(a, n) \<in> (edge_rel graph)\<^sup>+" and "order = xs @ n # ys"
  shows "a \<in> set xs"
  using assms(2,3)
proof (induction arbitrary: xs ys rule: trancl_induct)
  case (base y)
  then show ?case using assms(1) by (auto simp: sources_first_def edge_rel_def)
next
  case (step y z)
  then have "y \<in> set xs" using assms(1) by (auto simp: sources_first_def edge_rel_def)
  then obtain us vs where "xs = us @ y # vs" by (meson split_list)
  then show ?case using step by fastforce
qed

text \<open>A hash map lists each of its entries once, in some order.\<close>

definition arranges :: "((bytes \<times> nat) list \<Rightarrow> (bytes \<times> nat) list) \<Rightarrow> bool" where
  "arranges arrange \<longleftrightarrow> (\<forall>m. mset (arrange m) = mset m)"

lemma distinct_in_degrees: "distinct (map fst (in_degrees graph))"
proof -
  have "distinct (map fst m) \<Longrightarrow> distinct (map fst (fold (\<lambda>n. entry_zero (wn_id n)) ns m))" for ns :: "workflow_node list" and m
    by (induction ns arbitrary: m) (auto simp: entry_zero_def distinct_map_insert)
  moreover have "distinct (map fst m) \<Longrightarrow> distinct (map fst (fold count_edge es m))" for es :: "workflow_edge list" and m
    by (induction es arbitrary: m) (auto simp: count_edge_def distinct_map_insert)
  ultimately show ?thesis by (simp add: in_degrees_def)
qed

lemma topo_sort_starts:
  assumes "edges_closed graph" "arranges arrange"
  shows "topo_inv (set (node_ids graph)) (wg_edges graph) (in_degrees graph)
    (map fst (filter (\<lambda>(_, d). d = 0) (arrange (in_degrees graph)))) []"
proof -
  let ?m = "in_degrees graph"
  have same: "mset (arrange ?m) = mset ?m" using assms(2) by (simp add: arranges_def)
  then have set: "set (arrange ?m) = set ?m" by (metis set_mset_mset)
  have "distinct (map fst (arrange ?m))"
    using same distinct_in_degrees [of graph] by (metis mset_eq_imp_distinct_iff mset_map)
  then have "distinct (map fst (filter (\<lambda>(_, d). d = 0) (arrange ?m)))" by (rule distinct_map_filter)
  moreover have "set (map fst (filter (\<lambda>(_, d). d = 0) (arrange ?m))) =
      {k \<in> set (node_ids graph). pending_edges [] k (wg_edges graph) = 0}"
  proof -
    have "(k, 0) \<in> set ?m \<longleftrightarrow> map_of ?m k = Some 0" for k
      using distinct_in_degrees map_of_eq_Some_iff by metis
    then show ?thesis using map_of_in_degrees [OF assms(1)] by (auto simp: set image_iff split: if_splits)
  qed
  ultimately show ?thesis using map_of_in_degrees [OF assms(1)] by (simp add: topo_inv_def sources_first_def)
qed

lemma topo_sort_spec:
  assumes "edges_closed graph" "arranges arrange"
  shows "\<exists>order. topo_sort arrange graph = Some order \<and> distinct order \<and> sources_first (wg_edges graph) order \<and>
    set order = {n \<in> set (node_ids graph). \<nexists>c. (c, c) \<in> (edge_rel graph)\<^sup>+ \<and> (c, n) \<in> (edge_rel graph)\<^sup>*}"
proof -
  let ?E = "edge_rel graph"
  obtain deg order where run: "topo_sort arrange graph = Some order"
    and inv: "topo_inv (set (node_ids graph)) (wg_edges graph) deg [] order"
    using topo_loop_inv [OF topo_sort_starts [OF assms]] by (auto simp: topo_sort_def Let_def)
  have sf: "sources_first (wg_edges graph) order" and set: "set order = {m \<in> set (node_ids graph). pending_edges order m (wg_edges graph) = 0}"
    using inv by (simp_all add: topo_inv_def)
  have out: "\<not> ((c, c) \<in> ?E\<^sup>+ \<and> (c, n) \<in> ?E\<^sup>*)" if "n \<in> set order" for c n
  proof
    assume c: "(c, c) \<in> ?E\<^sup>+ \<and> (c, n) \<in> ?E\<^sup>*"
    obtain xs ys where n: "order = xs @ n # ys" using \<open>n \<in> set order\<close> by (auto dest: split_list)
    have "c \<in> set order" using c \<open>n \<in> set order\<close> sources_first_ancestor [OF sf _ n, of c] n by (auto simp: rtrancl_eq_or_trancl)
    then obtain us vs where "order = us @ c # vs" "c \<notin> set us" by (metis split_list_first)
    then show False using sources_first_ancestor [OF sf, of c c] c by blast
  qed
  have "\<exists>c. (c, c) \<in> ?E\<^sup>+ \<and> (c, n) \<in> ?E\<^sup>*" if "n \<in> set (node_ids graph) - set order" for n
  proof (rule backward_cycle [OF _ _ that])
    fix m assume "m \<in> set (node_ids graph) - set order"
    then obtain e where "e \<in> set (wg_edges graph)" "we_to e = m" "we_from e \<notin> set order"
      using set pending_zero by blast
    then show "\<exists>p \<in> set (node_ids graph) - set order. (p, m) \<in> ?E"
      using assms(1) by (auto simp: edges_closed_def edge_rel_def)
  qed simp
  then have "set order = {n \<in> set (node_ids graph). \<nexists>c. (c, c) \<in> ?E\<^sup>+ \<and> (c, n) \<in> ?E\<^sup>*}"
    using out set by blast
  then show ?thesis using run sf inv by (auto simp: topo_inv_def)
qed

section \<open>Properties\<close>

text \<open>C22: what a node emits is what its successors read. A port of an encoded output decodes to the items
  that were put on it, the expression \<open>$node["id"]\<close> reads the first of them, and with at most 256
  ports a port is active just when it carries items.\<close>

theorem items_round_trip:
  assumes "length output \<le> 256"
  shows "decode_port (encode output) p = opt_default [] (get_nth output p) \<and>
    (p \<in> set (active_ports (encode output)) \<longleftrightarrow> decode_port (encode output) p \<noteq> []) \<and>
    node_item_json (encode output) p 0 =
      (case decode_port (encode output) p of [] \<Rightarrow> JNull | i # _ \<Rightarrow> item_json i)"
proof -
  have "p \<in> {i mod 256 | i. i < length output \<and> output ! i \<noteq> []} \<longleftrightarrow> p < length output \<and> output ! p \<noteq> []"
    using assms by (auto intro!: exI [of _ p])
  then show ?thesis
    unfolding decode_encode active_encode node_item_encode
    by (auto simp: get_nth_def split: list.splits)
qed

lemma items_round_trip_witness:
  "length [[\<lparr>item_json = JBool True\<rparr>], []] \<le> 256 \<and>
   decode_port (encode [[\<lparr>item_json = JBool True\<rparr>], []]) 0 = [\<lparr>item_json = JBool True\<rparr>]"
  using items_round_trip [of "[[\<lparr>item_json = JBool True\<rparr>], []]" 0] by (simp add: get_nth_def)

text \<open>C21: the order of a workflow. For a graph that passes the check, and whatever order the hash map
  gives, the sort does not run into its subtraction, lists no node twice, lists a node only after all
  its sources, and lists just the nodes that no cycle leads to: the check admits cycles, and the nodes
  on and behind them are left out.\<close>

theorem topo_sort_order:
  assumes "validate graph = Inr ()" "arranges arrange"
  shows "\<exists>order. topo_sort arrange graph = Some order \<and> distinct order \<and> sources_first (wg_edges graph) order \<and>
    set order = {n \<in> set (node_ids graph). \<nexists>c. (c, c) \<in> (edge_rel graph)\<^sup>+ \<and> (c, n) \<in> (edge_rel graph)\<^sup>*}"
  using assms by (intro topo_sort_spec) (auto simp: validate_ok_iff well_formed_def edges_closed_def)

definition loop_graph :: workflow_graph where
  "loop_graph =
     \<lparr>wg_nodes = map (\<lambda>(i, k). \<lparr>wn_id = i, wn_kind = k, wn_label = None, wn_params = JNull\<rparr>)
        [(''t'', Trigger Manual), (''a'', Tool ''x''), (''b'', Tool ''x'')],
      wg_edges = map (\<lambda>(a, b). \<lparr>we_from = a, we_to = b, we_from_output = 0, we_to_input = 0\<rparr>)
        [(''t'', ''a''), (''a'', ''b''), (''b'', ''a'')]\<rparr>"

lemma topo_sort_order_witness:
  "validate loop_graph = Inr () \<and> topo_sort (\<lambda>m. m) loop_graph = Some [''t''] \<and> distinct [''t''] \<and>
   sources_first (wg_edges loop_graph) [''t'']"
proof -
  have ok: "validate loop_graph = Inr ()" and order: "topo_sort (\<lambda>m. m) loop_graph = Some [''t'']" by code_simp+
  have "arranges (\<lambda>m. m)" by (simp add: arranges_def)
  from topo_sort_order [OF ok this] show ?thesis using ok order by auto
qed

end
