(* ===== verification/Workflow_Expr.thy ===== *)
theory Workflow_Expr
  imports Workflow_Graph
begin

text \<open>
  Expressions in node parameters, from \<open>extensions/workflows/expr.rs\<close>: a string that is one
  \<open>{{ .. }}\<close> is the value of the expression, a string that contains some is interpolated.

  The JavaScript engine is a parameter: \<open>js_context\<close> makes a context from the input and from the
  object of node outputs, \<open>js_run\<close> evaluates a text in a context, which it may change, and gives
  the value as JSON, or nothing when evaluation or conversion fails or the value is undefined.
  One context serves all the strings of a value, so it is threaded through the traversal.
  \<open>show_json\<close> stands for the printer of \<open>serde_json\<close>.
\<close>

record 'c js_engine =
  js_context :: "json \<Rightarrow> json \<Rightarrow> 'c"
  js_run :: "bytes \<Rightarrow> 'c \<Rightarrow> json option \<times> 'c"
  show_json :: "json \<Rightarrow> bytes"

section \<open>Numbers\<close>

text \<open>The value of an integer as \<open>f64\<close>: 53 significant bits, ties to even.\<close>

fun bit_size :: "nat \<Rightarrow> nat" where
  "bit_size n = (if n = 0 then 0 else Suc (bit_size (n div 2)))"

definition round_double :: "nat \<Rightarrow> nat" where
  "round_double n =
     (let p = 2 ^ (bit_size n - 53); q = n div p; r = n mod p
      in if 2 * r < p \<or> (2 * r = p \<and> even q) then q * p else (q + 1) * p)"

text \<open>\<open>as_f64\<close> when the value has no fraction. The shortest decimal form of a double without a
  fraction has none either.\<close>

definition whole_f64 :: "json_number \<Rightarrow> int option" where
  "whole_f64 n =
     (case n of
        PosInt m \<Rightarrow> Some (int (round_double m))
      | NegInt i \<Rightarrow> Some (- int (round_double (nat (- i))))
      | Float x \<Rightarrow>
          (let sign = (\<lambda>v. if f_negative x then - int v else int v); p = 10 ^ nat (- f_exp x)
           in if 0 \<le> f_exp x then Some (sign (round_double (f_digits x * 10 ^ nat (f_exp x))))
              else if f_digits x mod p = 0 then Some (sign (round_double (f_digits x div p)))
              else None))"

text \<open>\<open>f as i64\<close> saturates, and \<open>json!\<close> of an \<open>i64\<close>.\<close>

definition i64_number :: "int \<Rightarrow> json_number" where
  "i64_number i = (if i < 0 then NegInt i else PosInt (nat i))"

definition fixup_number :: "json_number \<Rightarrow> json_number" where
  "fixup_number n =
     (case whole_f64 n of
        Some i \<Rightarrow> if - (2 ^ 63) \<le> i \<and> i \<le> 2 ^ 63 then i64_number (min i (2 ^ 63 - 1)) else n
      | None \<Rightarrow> n)"

fun fixup_integers :: "json \<Rightarrow> json" where
  "fixup_integers (JNumber n) = JNumber (fixup_number n)"
| "fixup_integers (JArray arr) = JArray (map fixup_integers arr)"
| "fixup_integers (JObject m) = JObject (map (\<lambda>(k, v). (k, fixup_integers v)) m)"
| "fixup_integers JNull = JNull"
| "fixup_integers (JBool b) = JBool b"
| "fixup_integers (JString s) = JString s"

section \<open>Strings\<close>

definition OPEN2 :: bytes where "OPEN2 = ''{{''"
definition CLOSE2 :: bytes where "CLOSE2 = ''}}''"

definition eval_js :: "'c js_engine \<Rightarrow> bytes \<Rightarrow> 'c \<Rightarrow> json \<times> 'c" where
  "eval_js js e c =
     (if e = [] then (JNull, c)
      else (case js_run js e c of
              (Some v, c') \<Rightarrow> (fixup_integers v, c')
            | (None, c') \<Rightarrow> (JNull, c')))"

definition shown :: "'c js_engine \<Rightarrow> json \<Rightarrow> bytes" where
  "shown js v = (case v of JString s \<Rightarrow> s | JNull \<Rightarrow> ''null'' | _ \<Rightarrow> show_json js v)"

function interpolate :: "'c js_engine \<Rightarrow> bytes \<Rightarrow> 'c \<Rightarrow> bytes \<times> 'c" where
  "interpolate js rest c =
     (case find_sub OPEN2 rest of
        None \<Rightarrow> (rest, c)
      | Some (before, after) \<Rightarrow>
          (case find_sub CLOSE2 after of
             Some (e, rest') \<Rightarrow>
               (case eval_js js (trim e) c of
                  (val, c') \<Rightarrow> (case interpolate js rest' c' of (result, c'') \<Rightarrow> (before @ shown js val @ result, c'')))
           | None \<Rightarrow> (case interpolate js after c of (result, c') \<Rightarrow> (before @ OPEN2 @ result, c'))))"
  by pat_completeness auto

termination
  by (relation "measure (\<lambda>(_, rest, _). length rest)") (auto dest!: find_sub_Some simp: OPEN2_def CLOSE2_def)

definition resolve_string :: "'c js_engine \<Rightarrow> bytes \<Rightarrow> 'c \<Rightarrow> json \<times> 'c" where
  "resolve_string js s c =
     (let trimmed = trim s
      in case Option.bind (strip_prefix OPEN2 trimmed) (strip_suffix CLOSE2) of
           Some e \<Rightarrow> eval_js js (trim e) c
         | None \<Rightarrow>
             if contains_sub trimmed OPEN2 \<and> contains_sub trimmed CLOSE2 then
               (case interpolate js s c of (result, c') \<Rightarrow> (JString result, c'))
             else (JString s, c))"

section \<open>Values\<close>

fun resolve_tree :: "'c js_engine \<Rightarrow> json \<Rightarrow> 'c \<Rightarrow> json \<times> 'c"
and resolve_members :: "'c js_engine \<Rightarrow> (bytes \<times> json) list \<Rightarrow> 'c \<Rightarrow> (bytes \<times> json) list \<times> 'c"
and resolve_elements :: "'c js_engine \<Rightarrow> json list \<Rightarrow> 'c \<Rightarrow> json list \<times> 'c" where
  "resolve_tree js (JString s) c = resolve_string js s c"
| "resolve_tree js (JObject m) c = (case resolve_members js m c of (m', c') \<Rightarrow> (JObject m', c'))"
| "resolve_tree js (JArray arr) c = (case resolve_elements js arr c of (arr', c') \<Rightarrow> (JArray arr', c'))"
| "resolve_tree js JNull c = (JNull, c)"
| "resolve_tree js (JBool b) c = (JBool b, c)"
| "resolve_tree js (JNumber n) c = (JNumber n, c)"
| "resolve_members js [] c = ([], c)"
| "resolve_members js ((k, v) # m) c =
     (case resolve_tree js v c of (v', c') \<Rightarrow>
        (case resolve_members js m c' of (m', c'') \<Rightarrow> ((k, v') # m', c'')))"
| "resolve_elements js [] c = ([], c)"
| "resolve_elements js (v # vs) c =
     (case resolve_tree js v c of (v', c') \<Rightarrow>
        (case resolve_elements js vs c' of (vs', c'') \<Rightarrow> (v' # vs', c'')))"

text \<open>What \<open>$node[id].json\<close> is: the first item of port 0, or the stored value when it is not in the
  format of items per port.\<close>

definition has_first_port :: "json \<Rightarrow> bool" where
  "has_first_port stored \<longleftrightarrow>
     Option.bind (as_array stored) (\<lambda>ports. Option.bind (get_nth ports 0) as_array) \<noteq> None"

definition node_json :: "json \<Rightarrow> json" where
  "node_json stored =
     (let first = node_item_json stored 0 0
      in if is_null first \<and> \<not> has_first_port stored then stored else first)"

definition resolve :: "'c js_engine \<Rightarrow> json \<Rightarrow> json \<Rightarrow> (bytes \<times> json) list \<Rightarrow> json" where
  "resolve js value input outputs =
     (let nodes = JObject (btree_of (map (\<lambda>(i, stored). (i, jobj [(''json'', node_json stored)])) outputs))
      in fst (resolve_tree js value (js_context js input nodes)))"

section \<open>What is left alone\<close>

fun plain_value :: "json \<Rightarrow> bool" where
  "plain_value (JString s) = (\<not> contains_sub s OPEN2)"
| "plain_value (JArray arr) = list_all plain_value arr"
| "plain_value (JObject m) = list_all (\<lambda>(_, v). plain_value v) m"
| "plain_value _ = True"

lemma trim_part: "\<exists>a b. s = a @ trim s @ b"
proof -
  have part: "\<exists>a. xs = a @ dropWhile is_ws xs" for xs
    by (metis takeWhile_dropWhile_id)
  obtain a where a: "utf8_chars s = a @ dropWhile is_ws (utf8_chars s)" using part by blast
  obtain b where b: "rev (dropWhile is_ws (utf8_chars s)) = b @ dropWhile is_ws (rev (dropWhile is_ws (utf8_chars s)))"
    using part by blast
  have "dropWhile is_ws (utf8_chars s) = rev (dropWhile is_ws (rev (dropWhile is_ws (utf8_chars s)))) @ rev b"
    using arg_cong [OF b, of rev] by simp
  then have "concat (utf8_chars s) = concat a @ trim s @ concat (rev b)"
    unfolding trim_def using a by (metis concat_append)
  then show ?thesis by (metis concat_utf8_chars)
qed

lemma contains_trim: "contains_sub (trim s) pat \<Longrightarrow> contains_sub s pat"
  using trim_part [of s] unfolding contains_sub_iff by (metis append.assoc)

lemma plain_string: "\<not> contains_sub s OPEN2 \<Longrightarrow> resolve_string js s c = (JString s, c)"
proof -
  assume plain: "\<not> contains_sub s OPEN2"
  then have no: "\<not> contains_sub (trim s) OPEN2" using contains_trim by blast
  then have "strip_prefix OPEN2 (trim s) = None"
    unfolding strip_prefix_None contains_sub_iff by (metis append_Nil)
  then show ?thesis using no by (simp add: resolve_string_def)
qed

lemma plain_resolves:
  "plain_value v \<Longrightarrow> resolve_tree js v c = (v, c)"
  "list_all (\<lambda>(_, v). plain_value v) m \<Longrightarrow> resolve_members js m c = (m, c)"
  "list_all plain_value vs \<Longrightarrow> resolve_elements js vs c = (vs, c)"
  by (induction js v c and js m c and js vs c rule: resolve_tree_resolve_members_resolve_elements.induct)
    (auto simp: plain_string)

end
