(* ===== verification/Workflow_Exec.thy ===== *)
theory Workflow_Exec
  imports Workflow_Expr Authority_Policy
begin

text \<open>
  Running one node of a workflow, from \<open>extensions/workflows/executor.rs\<close>, with the tool gate of
  \<open>tools/mod.rs\<close>: the items a node receives, whether it is reached at all, the control nodes, and
  tool nodes, which make one call for each item or one call in all.

  What a tool does is a parameter: \<open>we_execute\<close> gives the outcome of a call after the calls made
  before. The calls are recorded in the state. A tool is not assumed to touch the tables of the
  workflow engine itself.
\<close>

section \<open>State\<close>

record tool_call =
  tc_tool :: bytes
  tc_app_id :: bytes
  tc_user_id :: uuid
  tc_permissions :: "bytes list"
  tc_args :: json
  tc_key :: bytes

datatype workflow_event =
    NodeEvent bytes bytes json "bytes option"
  | DoneEvent bytes "bytes option"

record workflow_row =
  wf_id :: uuid
  wf_app_id :: bytes
  wf_name :: bytes
  wf_graph :: json
  wf_enabled :: bool
  wf_version :: int
  wf_created_by :: "uuid option"

record execution_row =
  ex_id :: uuid
  ex_workflow_id :: uuid
  ex_app_id :: bytes
  ex_status :: bytes
  ex_trigger_data :: "json option"
  ex_run_as :: uuid
  ex_error :: "bytes option"
  ex_graph :: "json option"
  ex_lease :: "int option"
  ex_attempts :: int

record node_run_row =
  nr_execution :: uuid
  nr_node :: bytes
  nr_status :: bytes
  nr_input :: json
  nr_output :: "json option"
  nr_error :: "bytes option"
  nr_attempts :: int

record wf_db = rbac_db +
  workflows :: "workflow_row list"
  executions :: "execution_row list"
  node_runs :: "node_run_row list"
  tool_calls :: "tool_call list"
  wf_events :: "(uuid \<times> workflow_event) list"

datatype batch_mode = PerItem | Once

fun batch_mode_parse :: "bytes \<Rightarrow> batch_mode option" where
  "batch_mode_parse s = (if s = ''once'' then Some Once else if s = ''perItem'' then Some PerItem else None)"

record tool_info =
  ti_batch_mode :: batch_mode
  ti_requires_agent_context :: bool

record 'c wf_env =
  we_js :: "'c js_engine"
  we_registry :: "bytes \<Rightarrow> tool_info option"
  we_execute :: "tool_call list \<Rightarrow> tool_call \<Rightarrow> bytes + json"
  we_show_uuid :: "uuid \<Rightarrow> bytes"
  we_arrange :: "(bytes \<times> nat) list \<Rightarrow> (bytes \<times> nat) list"
  we_parse_graph :: "json \<Rightarrow> bytes + workflow_graph"
  we_graph_json :: "workflow_graph \<Rightarrow> json"
  we_show_sqlx :: "sqlx_error \<Rightarrow> bytes"

type_synonym outputs = "(bytes \<times> json) list"
type_synonym node_result = "node_status \<times> item list list \<times> bytes option"

section \<open>Inputs and routing\<close>

definition inbound :: "bytes \<Rightarrow> workflow_graph \<Rightarrow> workflow_edge list" where
  "inbound node_id graph = filter (\<lambda>e. we_to e = node_id) (wg_edges graph)"

definition add_input :: "outputs \<Rightarrow> workflow_edge \<Rightarrow> item list list \<Rightarrow> item list list" where
  "add_input run_outputs e ports =
     (case map_of run_outputs (we_from e) of
        Some v \<Rightarrow> ports[we_to_input e := ports ! we_to_input e @ decode_port v (we_from_output e)]
      | None \<Rightarrow> ports)"

definition collect_inputs_by_port :: "bytes \<Rightarrow> workflow_graph \<Rightarrow> outputs \<Rightarrow> item list list" where
  "collect_inputs_by_port node_id graph run_outputs =
     (let ins = inbound node_id graph
      in if ins = [] then []
         else fold (add_input run_outputs) ins (replicate (Suc (Max (set (map we_to_input ins)))) []))"

definition items_to_json :: "item list \<Rightarrow> json" where
  "items_to_json its =
     (case its of [] \<Rightarrow> jobj [] | [i] \<Rightarrow> item_json i | _ \<Rightarrow> JArray (map item_json its))"

definition should_execute :: "bytes \<Rightarrow> workflow_graph \<Rightarrow> (bytes \<times> nat list) list \<Rightarrow> bool" where
  "should_execute node_id graph ports \<longleftrightarrow>
     (let is_trigger = (case List.find (\<lambda>n. wn_id n = node_id) (wg_nodes graph) of
            Some n \<Rightarrow> is_trigger_kind (wn_kind n) | None \<Rightarrow> False);
          ins = inbound node_id graph
      in if ins = [] then is_trigger
         else \<exists>e \<in> set ins. (case map_of ports (we_from e) of Some ps \<Rightarrow> we_from_output e \<in> set ps | None \<Rightarrow> False))"

section \<open>Control nodes\<close>

text \<open>Equality of JSON values: \<open>0.0\<close> and \<open>-0.0\<close> are equal.\<close>

fun norm_zero :: "json \<Rightarrow> json" where
  "norm_zero (JNumber (Float x)) = JNumber (Float (if f_digits x = 0 then F64 False 0 0 else x))"
| "norm_zero (JArray arr) = JArray (map norm_zero arr)"
| "norm_zero (JObject m) = JObject (map (\<lambda>(k, v). (k, norm_zero v)) m)"
| "norm_zero v = v"

definition json_eq :: "json \<Rightarrow> json \<Rightarrow> bool" where
  "json_eq a b \<longleftrightarrow> norm_zero a = norm_zero b"

definition overlay :: "json \<Rightarrow> json \<Rightarrow> json" where
  "overlay base patch =
     (case (as_object base, as_object patch) of
        (Some b, Some p) \<Rightarrow> JObject (fold (\<lambda>(k, v). btree_insert k v) p b)
      | _ \<Rightarrow> base)"

fun is_truthy :: "json \<Rightarrow> bool" where
  "is_truthy JNull = False"
| "is_truthy (JBool b) = b"
| "is_truthy (JNumber n) = (case n of PosInt k \<Rightarrow> k \<noteq> 0 | NegInt i \<Rightarrow> i \<noteq> 0 | Float x \<Rightarrow> f_digits x \<noteq> 0)"
| "is_truthy (JString s) = (s \<noteq> [] \<and> s \<noteq> ''false'' \<and> s \<noteq> ''0'')"
| "is_truthy (JArray a) = (a \<noteq> [])"
| "is_truthy (JObject m) = (m \<noteq> [])"

definition execute_if :: "'c js_engine \<Rightarrow> json \<Rightarrow> item list \<Rightarrow> outputs \<Rightarrow> node_result" where
  "execute_if js raw_params its outs =
     (let cond = (\<lambda>i. is_truthy (opt_default JNull (get_key (resolve js raw_params (item_json i) outs) ''condition'')))
      in (NodeSucceeded, [filter cond its, filter (\<lambda>i. \<not> cond i) its], None))"

fun position :: "('a \<Rightarrow> bool) \<Rightarrow> 'a list \<Rightarrow> nat option" where
  "position P [] = None"
| "position P (x # xs) = (if P x then Some 0 else map_option Suc (position P xs))"

definition switch_port :: "'c js_engine \<Rightarrow> json \<Rightarrow> outputs \<Rightarrow> item \<Rightarrow> nat" where
  "switch_port js raw_params outs i =
     (let v = opt_default JNull (get_key (resolve js raw_params (item_json i) outs) ''value'')
      in case Option.bind (get_key raw_params ''cases'') as_array of
           Some arr \<Rightarrow> opt_default (length arr) (position (\<lambda>c. json_eq c v) arr)
         | None \<Rightarrow> 0)"

definition execute_switch :: "'c js_engine \<Rightarrow> json \<Rightarrow> item list \<Rightarrow> outputs \<Rightarrow> node_result" where
  "execute_switch js raw_params its outs =
     (let num_cases = (case Option.bind (get_key raw_params ''cases'') as_array of Some arr \<Rightarrow> length arr | None \<Rightarrow> 0);
          ports = fold (\<lambda>i ports. let idx = switch_port js raw_params outs i in ports[idx := ports ! idx @ [i]])
            its (replicate (Suc num_cases) [])
      in (NodeSucceeded, ports, None))"

definition set_fields :: "'c js_engine \<Rightarrow> json \<Rightarrow> json \<Rightarrow> outputs \<Rightarrow> json" where
  "set_fields js raw_params input outs = opt_default (jobj []) (get_key (resolve js raw_params input outs) ''fields'')"

definition execute_set :: "'c js_engine \<Rightarrow> json \<Rightarrow> item list \<Rightarrow> outputs \<Rightarrow> node_result" where
  "execute_set js raw_params its outs =
     (let output =
            (if its = [] then [\<lparr>item_json = set_fields js raw_params (jobj []) outs\<rparr>]
             else map (\<lambda>i. \<lparr>item_json = overlay (item_json i) (set_fields js raw_params (item_json i) outs)\<rparr>) its)
      in (NodeSucceeded, [output], None))"

definition merge_by_position :: "item list list \<Rightarrow> item list" where
  "merge_by_position ports =
     map (\<lambda>i. \<lparr>item_json = fold (\<lambda>port acc. case get_nth port i of Some it \<Rightarrow> overlay acc (item_json it) | None \<Rightarrow> acc)
            ports (jobj [])\<rparr>)
       [0 ..< fold max (map length ports) 0]"

definition merge_by_field :: "item list list \<Rightarrow> json \<Rightarrow> item list" where
  "merge_by_field ports p =
     (let f1 = opt_default ''id'' (Option.bind (case get_key p ''field1'' of Some v \<Rightarrow> Some v | None \<Rightarrow> get_key p ''field'') as_str);
          f2 = opt_default f1 (Option.bind (get_key p ''field2'') as_str);
          left = opt_default [] (get_nth ports 0);
          right = opt_default [] (get_nth ports 1)
      in concat (map (\<lambda>l.
           (case get_key (item_json l) f1 of
              None \<Rightarrow> []
            | Some key \<Rightarrow>
                map (\<lambda>r. \<lparr>item_json = overlay (item_json l) (item_json r)\<rparr>)
                  (filter (\<lambda>r. case get_key (item_json r) f2 of Some k \<Rightarrow> json_eq k key | None \<Rightarrow> False) right))) left))"

definition execute_merge :: "'c js_engine \<Rightarrow> json \<Rightarrow> item list list \<Rightarrow> outputs \<Rightarrow> node_result" where
  "execute_merge js raw_params input_by_port outs =
     (let p = resolve js raw_params (jobj []) outs;
          mode = opt_default ''append'' (Option.bind (get_key p ''mode'') as_str);
          out = (if mode = ''combineByPosition'' then merge_by_position input_by_port
                 else if mode = ''combineByField'' then merge_by_field input_by_port p
                 else concat input_by_port)
      in (NodeSucceeded, [out], None))"

definition execute_stop :: "'c js_engine \<Rightarrow> json \<Rightarrow> outputs \<Rightarrow> node_result" where
  "execute_stop js raw_params outs =
     (let msg = opt_default ''workflow stopped''
            (Option.bind (get_key (resolve js raw_params (jobj []) outs) ''message'') as_str)
      in (NodeSucceeded, [[\<lparr>item_json = jobj [(''stopped'', JBool True), (''message'', JString msg)]\<rparr>]], None))"

definition not_implemented :: node_result where
  "not_implemented = (NodeSkipped, [[]], Some ''not implemented'')"

definition execute_control_node ::
  "'c js_engine \<Rightarrow> control_kind \<Rightarrow> json \<Rightarrow> item list \<Rightarrow> item list list \<Rightarrow> outputs \<Rightarrow> node_result" where
  "execute_control_node js control raw_params input_items input_by_port outs =
     (case control of
        ControlIf \<Rightarrow> execute_if js raw_params input_items outs
      | Switch \<Rightarrow> execute_switch js raw_params input_items outs
      | ControlSet \<Rightarrow> execute_set js raw_params input_items outs
      | Merge \<Rightarrow> execute_merge js raw_params input_by_port outs
      | Stop \<Rightarrow> execute_stop js raw_params outs
      | Loop \<Rightarrow> not_implemented
      | Wait \<Rightarrow> not_implemented)"

section \<open>Tool nodes\<close>

definition normalize_tool_output :: "json \<Rightarrow> item list" where
  "normalize_tool_output v =
     (case as_array v of
        Some arr \<Rightarrow> map (\<lambda>j. \<lparr>item_json = j\<rparr>) arr
      | None \<Rightarrow>
          (case List.map_filter (\<lambda>(_, w). as_array w) (opt_default [] (as_object v)) of
             [arr] \<Rightarrow> map (\<lambda>j. \<lparr>item_json = j\<rparr>) arr
           | _ \<Rightarrow> [\<lparr>item_json = v\<rparr>]))"

definition merge_args :: "json \<Rightarrow> json \<Rightarrow> json" where
  "merge_args params input =
     (case (as_object params, as_object input) of
        (Some b, Some i) \<Rightarrow> JObject (fold (\<lambda>(k, v) b. if k \<in> fst ` set b then b else btree_insert k v b) i b)
      | _ \<Rightarrow> params)"

datatype dispatch_error = PermissionDenied bytes | ExecutionFailed bytes

definition dispatch ::
  "'c wf_env \<Rightarrow> tool_call \<Rightarrow> ('z wf_db_scheme, bytes, dispatch_error + json) act" where
  "dispatch env call s =
     (let perm_key = ''tool:'' @ tc_tool call
      in if \<not> has_permission (tc_permissions call) perm_key then (Inr (Inl (PermissionDenied perm_key)), s)
         else (Inr (map_err ExecutionFailed (we_execute env (tool_calls s) call)),
               s\<lparr>tool_calls := tool_calls s @ [call]\<rparr>))"

fun dispatch_text :: "dispatch_error \<Rightarrow> bytes" where
  "dispatch_text (PermissionDenied e) = e"
| "dispatch_text (ExecutionFailed e) = e"

text \<open>The loop over the items; \<open>base\<close> is the call without its arguments and key.\<close>

fun tool_items ::
  "'c wf_env \<Rightarrow> tool_call \<Rightarrow> json \<Rightarrow> outputs \<Rightarrow> nat \<Rightarrow> item list \<Rightarrow> item list \<Rightarrow> ('z wf_db_scheme, bytes, node_result) act" where
  "tool_items env base params outs i [] acc = act_return (NodeSucceeded, [acc], None)"
| "tool_items env base params outs i (it # its) acc =
     (let args = merge_args (resolve (we_js env) params (item_json it) outs) (item_json it);
          call = base\<lparr>tc_args := args, tc_key := tc_key base @ '':'' @ show_nat i\<rparr>
      in act_bind (dispatch env call) (\<lambda>outcome.
           case outcome of
             Inr v \<Rightarrow> tool_items env base params outs (Suc i) its (acc @ normalize_tool_output v)
           | Inl e \<Rightarrow> act_return (NodeFailed, [[]], Some (dispatch_text e))))"

definition without_batch_mode :: "json \<Rightarrow> json" where
  "without_batch_mode params =
     (case params of JObject m \<Rightarrow> JObject (filter (\<lambda>(k, _). k \<noteq> ''batchMode'') m) | _ \<Rightarrow> params)"

definition execute_tool_node ::
  "'c wf_env \<Rightarrow> bytes \<Rightarrow> uuid \<Rightarrow> bytes list \<Rightarrow> bytes \<Rightarrow> json \<Rightarrow> item list \<Rightarrow> bytes \<Rightarrow> outputs \<Rightarrow>
     ('z wf_db_scheme, bytes, node_result) act" where
  "execute_tool_node env app_id user_id perms tool_name raw_params input_items idem_base outs =
     (case we_registry env tool_name of
        None \<Rightarrow> act_return (NodeFailed, [[]], Some (''unknown tool: '' @ tool_name))
      | Some t \<Rightarrow>
          (let mode = opt_default (ti_batch_mode t)
                 (Option.bind (Option.bind (get_key raw_params ''batchMode'') as_str) batch_mode_parse);
               empty = [\<lparr>item_json = jobj []\<rparr>];
               todo = (case mode of Once \<Rightarrow> empty | PerItem \<Rightarrow> if input_items = [] then empty else input_items);
               base = \<lparr>tc_tool = tool_name, tc_app_id = app_id, tc_user_id = user_id, tc_permissions = perms,
                       tc_args = JNull, tc_key = idem_base\<rparr>
           in tool_items env base (without_batch_mode raw_params) outs 0 todo []))"

section \<open>One node\<close>

record node_execution =
  ne_status :: node_status
  ne_output_json :: json
  ne_input_json :: json
  ne_error :: "bytes option"
  ne_halt :: bool

definition is_stop :: "node_kind \<Rightarrow> bool" where
  "is_stop kind \<longleftrightarrow> kind = Control Stop"

definition execute_node ::
  "'c wf_env \<Rightarrow> bytes \<Rightarrow> uuid \<Rightarrow> bytes list \<Rightarrow> workflow_node \<Rightarrow> workflow_graph \<Rightarrow> outputs \<Rightarrow> uuid \<Rightarrow>
     ('z wf_db_scheme, bytes, node_execution) act" where
  "execute_node env app_id user_id perms node graph run_outputs exec_id =
     (let input_by_port = collect_inputs_by_port (wn_id node) graph run_outputs;
          input_items = concat input_by_port;
          input_json = items_to_json input_items
      in act_bind
           (case wn_kind node of
              Trigger _ \<Rightarrow> act_return (NodeSucceeded, [[\<lparr>item_json = wn_params node\<rparr>]], None)
            | Tool tool_name \<Rightarrow>
                execute_tool_node env app_id user_id perms tool_name (wn_params node) input_items
                  (we_show_uuid env exec_id @ '':'' @ wn_id node) run_outputs
            | Control control \<Rightarrow>
                act_return (execute_control_node (we_js env) control (wn_params node) input_items input_by_port run_outputs)
            | _ \<Rightarrow> act_return not_implemented)
           (\<lambda>(status, output_items, error).
             act_return \<lparr>ne_status = status, ne_output_json = encode output_items, ne_input_json = input_json,
               ne_error = error, ne_halt = is_stop (wn_kind node)\<rparr>))"

end
