(* ===== verification/Workflow_Run.thy ===== *)
theory Workflow_Run
  imports Workflow_Exec
begin

text \<open>
  The durable runner of workflows, from \<open>extensions/workflows/runner.rs\<close>: it snapshots the graph
  into an execution, runs the nodes in order, stores every result, and after a crash takes up the
  execution again from the stored results.

  Sleeping between attempts and the heartbeat of the lease are left out. The channel of events is
  the list of what was published on it.
\<close>

section \<open>Policy\<close>

record retry_policy =
  rp_max_attempts :: nat
  rp_backoff_ms :: nat
  rp_continue_on_error :: bool

text \<open>\<open>as u32\<close> takes the number of attempts modulo \<open>2^32\<close>.\<close>

definition retry_policy_of :: "workflow_node \<Rightarrow> retry_policy" where
  "retry_policy_of node =
     (let r = get_key (wn_params node) ''retry'';
          num = (\<lambda>k. Option.bind (Option.bind r (\<lambda>v. get_key v k)) value_as_u64)
      in \<lparr>rp_max_attempts = max (opt_default 1 (num ''maxAttempts'')) 1 mod 2 ^ 32,
          rp_backoff_ms = opt_default 500 (num ''backoffMs''),
          rp_continue_on_error = opt_default False (Option.bind (get_key (wn_params node) ''continueOnError'') as_bool)\<rparr>)"

section \<open>Executions\<close>

definition text_stmt ::
  "'c wf_env \<Rightarrow> ('z wf_db_scheme, sqlx_error, 'a) act \<Rightarrow> ('z wf_db_scheme, bytes, 'a) act" where
  "text_stmt env m = act_map_err (we_show_sqlx env) (stmt m)"

text \<open>The first trigger node takes the data of the trigger as its parameters.\<close>

fun seed_trigger :: "json \<Rightarrow> workflow_node list \<Rightarrow> workflow_node list" where
  "seed_trigger td [] = []"
| "seed_trigger td (n # ns) =
     (if is_trigger_kind (wn_kind n) then n\<lparr>wn_params := td\<rparr> # ns else n # seed_trigger td ns)"

definition create_execution ::
  "'c wf_env \<Rightarrow> uuid \<Rightarrow> uuid \<Rightarrow> bytes \<Rightarrow> uuid \<Rightarrow> json option \<Rightarrow> int option \<Rightarrow> ('z wf_db_scheme, bytes, uuid) act" where
  "create_execution env new_id workflow_id app_id user_id trigger_data lease_msg_id =
     act_bind (text_stmt env (act_get (\<lambda>s. List.find (\<lambda>w. wf_id w = workflow_id \<and> wf_app_id w = app_id \<and> wf_enabled w) (workflows s)))) (\<lambda>row.
     case row of
       None \<Rightarrow> act_fail ''workflow not found or not enabled''
     | Some w \<Rightarrow>
         act_bind (act_lift (map_err (\<lambda>e. ''invalid graph: '' @ e) (we_parse_graph env (wf_graph w)))) (\<lambda>graph.
           let graph = (case trigger_data of Some td \<Rightarrow> graph\<lparr>wg_nodes := seed_trigger td (wg_nodes graph)\<rparr> | None \<Rightarrow> graph);
               snapshot = we_graph_json env graph
           in act_bind (text_stmt env (act_modify (\<lambda>s. s\<lparr>executions := executions s @
                [\<lparr>ex_id = new_id, ex_workflow_id = workflow_id, ex_app_id = app_id, ex_status = ''queued'',
                  ex_trigger_data = trigger_data, ex_run_as = user_id, ex_error = None, ex_graph = Some snapshot,
                  ex_lease = lease_msg_id, ex_attempts = 0\<rparr>]\<rparr>))) (\<lambda>_. act_return new_id)))"

text \<open>\<open>status IN ('queued', 'running')\<close>\<close>

definition in_flight :: "execution_row \<Rightarrow> bool" where
  "in_flight x \<longleftrightarrow> ex_status x = ''queued'' \<or> ex_status x = ''running''"

text \<open>The newest one, as rows are appended.\<close>

definition inflight_for_lease :: "int \<Rightarrow> ('z wf_db_scheme, bytes, uuid option) act" where
  "inflight_for_lease msg_id =
     act_or None (stmt (act_get (\<lambda>s. map_option ex_id
       (List.find (\<lambda>x. ex_lease x = Some msg_id \<and> in_flight x) (rev (executions s))))))"

section \<open>Stored results\<close>

definition attempt_i32 :: "nat \<Rightarrow> int" where
  "attempt_i32 n = (if n < 2 ^ 31 then int n else int n - 2 ^ 32)"

text \<open>\<open>INSERT .. ON CONFLICT (execution_id, node_id) DO UPDATE\<close>\<close>

fun upsert_run :: "node_run_row \<Rightarrow> node_run_row list \<Rightarrow> node_run_row list" where
  "upsert_run r [] = [r]"
| "upsert_run r (x # xs) =
     (if nr_execution x = nr_execution r \<and> nr_node x = nr_node r then r # xs else x # upsert_run r xs)"

definition persist_node_run ::
  "uuid \<Rightarrow> bytes \<Rightarrow> node_status \<Rightarrow> json \<Rightarrow> json \<Rightarrow> bytes option \<Rightarrow> nat \<Rightarrow> ('z wf_db_scheme, bytes, unit) act" where
  "persist_node_run exec_id node_id status input output error attempt =
     act_or () (stmt (act_modify (\<lambda>s. s\<lparr>node_runs := upsert_run
       \<lparr>nr_execution = exec_id, nr_node = node_id, nr_status = node_status_str status, nr_input = input,
        nr_output = Some output, nr_error = error, nr_attempts = attempt_i32 attempt\<rparr> (node_runs s)\<rparr>)))"

definition publish :: "uuid \<Rightarrow> workflow_event \<Rightarrow> ('z wf_db_scheme, bytes, unit) act" where
  "publish exec_id ev = act_modify (\<lambda>s. s\<lparr>wf_events := wf_events s @ [(exec_id, ev)]\<rparr>)"

record resume =
  rs_active_ports :: "(bytes \<times> nat list) list"
  rs_run_outputs :: outputs
  rs_done :: "bytes list"

definition seed_step :: "bytes \<times> bytes \<times> json option \<Rightarrow> resume \<Rightarrow> resume" where
  "seed_step row r =
     (case row of (node_id, status, output) \<Rightarrow>
        if status \<noteq> node_status_str NodeSucceeded then r
        else
          (let r' = (case output of
                 Some out \<Rightarrow> r\<lparr>rs_active_ports := map_insert node_id (active_ports out) (rs_active_ports r),
                   rs_run_outputs := map_insert node_id out (rs_run_outputs r)\<rparr>
               | None \<Rightarrow> r)
           in r'\<lparr>rs_done := node_id # rs_done r'\<rparr>))"

definition seed_resume :: "(bytes \<times> bytes \<times> json option) list \<Rightarrow> resume" where
  "seed_resume prior = fold seed_step prior \<lparr>rs_active_ports = [], rs_run_outputs = [], rs_done = []\<rparr>"

section \<open>The run\<close>

record run_ctx =
  rx_app_id :: bytes
  rx_user_id :: uuid
  rx_perms :: "bytes list"
  rx_graph :: workflow_graph
  rx_exec_id :: uuid

record loop_state =
  ls_active_ports :: "(bytes \<times> nat list) list"
  ls_run_outputs :: outputs
  ls_all_succeeded :: bool
  ls_first_error :: "bytes option"
  ls_aborted :: bool
  ls_halted :: bool

text \<open>The attempts at one node: the last execution and its number.\<close>

function attempts ::
  "'c wf_env \<Rightarrow> run_ctx \<Rightarrow> workflow_node \<Rightarrow> outputs \<Rightarrow> nat \<Rightarrow> ('z wf_db_scheme, bytes, node_execution \<times> nat) act" where
  "attempts env ctx node run_outputs attempt =
     act_bind (execute_node env (rx_app_id ctx) (rx_user_id ctx) (rx_perms ctx) node (rx_graph ctx) run_outputs (rx_exec_id ctx)) (\<lambda>ex.
       if ne_status ex = NodeFailed \<and> attempt < rp_max_attempts (retry_policy_of node) then
         act_bind (persist_node_run (rx_exec_id ctx) (wn_id node) NodeFailed (ne_input_json ex) (ne_output_json ex) (ne_error ex) attempt) (\<lambda>_.
           attempts env ctx node run_outputs (Suc attempt))
       else act_return (ex, attempt))"
  by pat_completeness auto

termination
  by (relation "measure (\<lambda>(_, _, node, _, attempt). rp_max_attempts (retry_policy_of node) - attempt)") auto

declare attempts.simps [simp del]

text \<open>\<open>continueOnError\<close>: the status that is recorded and the output that is passed on.\<close>

definition recorded :: "workflow_node \<Rightarrow> node_execution \<Rightarrow> node_status \<times> json" where
  "recorded node ex =
     (if ne_status ex = NodeFailed \<and> rp_continue_on_error (retry_policy_of node) then
        (NodeSucceeded, JArray [JArray [jobj [(''json'', jobj [(''error'', JString (opt_default [] (ne_error ex)))])]]])
      else (ne_status ex, ne_output_json ex))"

definition after_node :: "bytes \<Rightarrow> workflow_node \<Rightarrow> node_execution \<Rightarrow> loop_state \<Rightarrow> loop_state" where
  "after_node node_id node ex st =
     (case recorded node ex of (rec_status, output_json) \<Rightarrow>
        (let st' =
           (if rec_status = NodeSucceeded then
              st\<lparr>ls_active_ports := map_insert node_id (active_ports output_json) (ls_active_ports st),
                 ls_run_outputs := map_insert node_id output_json (ls_run_outputs st)\<rparr>
            else
              st\<lparr>ls_all_succeeded := False,
                 ls_first_error := (case ls_first_error st of Some e \<Rightarrow> Some e
                   | None \<Rightarrow> (case ne_error ex of Some e \<Rightarrow> Some e | None \<Rightarrow> Some ''node failed'')),
                 ls_aborted := ls_aborted st \<or> rec_status = NodeFailed\<rparr>)
         in st'\<lparr>ls_halted := ls_halted st' \<or> ne_halt ex\<rparr>))"

definition run_node ::
  "'c wf_env \<Rightarrow> run_ctx \<Rightarrow> bytes \<Rightarrow> workflow_node \<Rightarrow> loop_state \<Rightarrow> ('z wf_db_scheme, bytes, loop_state) act" where
  "run_node env ctx node_id node st =
     act_bind (attempts env ctx node (ls_run_outputs st) 1) (\<lambda>(ex, attempt).
       case recorded node ex of (rec_status, output_json) \<Rightarrow>
         act_bind (persist_node_run (rx_exec_id ctx) node_id rec_status (ne_input_json ex) output_json (ne_error ex) attempt) (\<lambda>_.
         act_bind (publish (rx_exec_id ctx) (NodeEvent node_id (node_status_str rec_status) output_json (ne_error ex))) (\<lambda>_.
           act_return (after_node node_id node ex st))))"

definition node_map :: "workflow_graph \<Rightarrow> bytes \<Rightarrow> workflow_node option" where
  "node_map graph = map_of (map_extend [] (map (\<lambda>n. (wn_id n, n)) (wg_nodes graph)))"

fun run_nodes ::
  "'c wf_env \<Rightarrow> run_ctx \<Rightarrow> bytes list \<Rightarrow> bytes list \<Rightarrow> loop_state \<Rightarrow> ('z wf_db_scheme, bytes, loop_state) act" where
  "run_nodes env ctx finished [] st = act_return st"
| "run_nodes env ctx finished (node_id # order) st =
     (case node_map (rx_graph ctx) node_id of
        None \<Rightarrow> run_nodes env ctx finished order st
      | Some node \<Rightarrow>
          if node_id \<in> set finished \<or> \<not> should_execute node_id (rx_graph ctx) (ls_active_ports st) then
            run_nodes env ctx finished order st
          else
            act_bind (run_node env ctx node_id node st) (\<lambda>st'.
              if ls_aborted st' \<or> ls_halted st' then act_return st' else run_nodes env ctx finished order st'))"

definition update_execution :: "uuid \<Rightarrow> (execution_row \<Rightarrow> execution_row) \<Rightarrow> 'z wf_db_scheme \<Rightarrow> 'z wf_db_scheme" where
  "update_execution exec_id f s = s\<lparr>executions := map (\<lambda>x. if ex_id x = exec_id then f x else x) (executions s)\<rparr>"

definition start_state :: "resume \<Rightarrow> loop_state" where
  "start_state r =
     \<lparr>ls_active_ports = rs_active_ports r, ls_run_outputs = rs_run_outputs r, ls_all_succeeded = True,
      ls_first_error = None, ls_aborted = False, ls_halted = False\<rparr>"

definition prior_runs :: "uuid \<Rightarrow> 'z wf_db_scheme \<Rightarrow> (bytes \<times> bytes \<times> json option) list" where
  "prior_runs exec_id s =
     map (\<lambda>r. (nr_node r, nr_status r, nr_output r)) (filter (\<lambda>r. nr_execution r = exec_id) (node_runs s))"

text \<open>\<open>run\<close> from the moment the snapshot is loaded and checked. The panic of \<open>topo_sort\<close> is an
  error here; it does not happen (\<open>topo_sort_spec\<close>).\<close>

definition finish_run :: "'c wf_env \<Rightarrow> run_ctx \<Rightarrow> loop_state \<Rightarrow> ('z wf_db_scheme, bytes, execution_status) act" where
  "finish_run env ctx st =
     (let final_status = (if ls_all_succeeded st then Succeeded else Failed)
      in act_bind (text_stmt env (act_modify (update_execution (rx_exec_id ctx)
           (\<lambda>x. x\<lparr>ex_status := execution_status_str final_status, ex_error := ls_first_error st, ex_lease := None\<rparr>)))) (\<lambda>_.
         act_bind (publish (rx_exec_id ctx) (DoneEvent (execution_status_str final_status) (ls_first_error st))) (\<lambda>_.
           act_return final_status)))"

definition run_graph :: "'c wf_env \<Rightarrow> run_ctx \<Rightarrow> ('z wf_db_scheme, bytes, execution_status) act" where
  "run_graph env ctx =
     act_bind (text_stmt env (act_modify (update_execution (rx_exec_id ctx)
       (\<lambda>x. x\<lparr>ex_status := ''running'', ex_attempts := ex_attempts x + 1\<rparr>)))) (\<lambda>_.
     case topo_sort (we_arrange env) (rx_graph ctx) of
       None \<Rightarrow> act_fail ''attempt to subtract with overflow''
     | Some order \<Rightarrow>
         act_bind (text_stmt env (act_get (prior_runs (rx_exec_id ctx)))) (\<lambda>prior.
           let r = seed_resume prior
           in act_bind (run_nodes env ctx (rs_done r) order (start_state r)) (finish_run env ctx)))"

definition run ::
  "'c wf_env \<Rightarrow> uuid \<Rightarrow> uuid \<Rightarrow> bytes list \<Rightarrow> int \<Rightarrow> ('z wf_db_scheme, bytes, execution_status) act" where
  "run env exec_id user_id perms lease_msg_id =
     act_bind (text_stmt env (act_get (\<lambda>s. List.find
       (\<lambda>x. ex_id x = exec_id \<and> ex_run_as x = user_id \<and> ex_lease x = Some lease_msg_id \<and> in_flight x) (executions s)))) (\<lambda>row.
     case row of
       None \<Rightarrow> act_fail ''execution identity, lease or status mismatch''
     | Some x \<Rightarrow>
         (case ex_graph x of
            None \<Rightarrow> act_fail ''execution has no graph snapshot''
          | Some graph_json \<Rightarrow>
              act_bind (act_lift (map_err (\<lambda>e. ''invalid graph snapshot: '' @ e) (we_parse_graph env graph_json))) (\<lambda>graph.
              act_bind (act_lift (map_err (\<lambda>issues. ''graph validation failed: '' @ join ''; '' issues) (validate graph))) (\<lambda>_.
                run_graph env \<lparr>rx_app_id = ex_app_id x, rx_user_id = user_id, rx_perms = perms, rx_graph = graph,
                  rx_exec_id = exec_id\<rparr>))))"

section \<open>An example\<close>

text \<open>A tool that always answers, and a workflow with a trigger, a call and a stop node.\<close>

definition plain_env :: "unit wf_env" where
  "plain_env =
     \<lparr>we_js = \<lparr>js_context = \<lambda>_ _. (), js_run = \<lambda>_ c. (None, c), show_json = \<lambda>_. []\<rparr>,
      we_registry = \<lambda>t. if t = ''ping'' then Some \<lparr>ti_batch_mode = PerItem, ti_requires_agent_context = False\<rparr> else None,
      we_execute = \<lambda>_ _. Inr (jobj [(''ok'', JBool True)]), we_show_uuid = \<lambda>_. ''x'', we_arrange = \<lambda>m. m,
      we_parse_graph = \<lambda>_. Inl ''unused'', we_graph_json = \<lambda>_. JNull, we_show_sqlx = \<lambda>_. ''error''\<rparr>"

definition example_graph :: "(bytes \<times> bytes) list \<Rightarrow> workflow_graph" where
  "example_graph es =
     \<lparr>wg_nodes = map (\<lambda>(i, k). \<lparr>wn_id = i, wn_kind = k, wn_label = None, wn_params = jobj []\<rparr>)
        [(''t'', Trigger Manual), (''a'', Tool ''ping''), (''s'', Control Stop)],
      wg_edges = map (\<lambda>(a, b). \<lparr>we_from = a, we_to = b, we_from_output = 0, we_to_input = 0\<rparr>) es\<rparr>"

definition example_ctx :: "(bytes \<times> bytes) list \<Rightarrow> run_ctx" where
  "example_ctx es =
     \<lparr>rx_app_id = ''app'', rx_user_id = 1, rx_perms = [''tool:ping''], rx_graph = example_graph es, rx_exec_id = 7\<rparr>"

definition example_db :: "json option \<Rightarrow> wf_db" where
  "example_db graph =
     \<lparr>w_faults = [], rbac_assignments = [], rbac_roles = [], rbac_permissions = [], users = [],
      public_execution_principals = [], db_now = 0, workflows = [],
      executions = [\<lparr>ex_id = 7, ex_workflow_id = 5, ex_app_id = ''app'', ex_status = ''queued'', ex_trigger_data = None,
        ex_run_as = 1, ex_error = None, ex_graph = graph, ex_lease = Some 3, ex_attempts = 0\<rparr>],
      node_runs = [], tool_calls = [], wf_events = []\<rparr>"

lemmas exec_defs = execute_node_def execute_tool_node_def execute_control_node_def execute_stop_def collect_inputs_by_port_def
  inbound_def add_input_def items_to_json_def should_execute_def is_stop_def dispatch_def normalize_tool_output_def merge_args_def
  without_batch_mode_def decode_port_def encode_def active_ports_def port_carries_def item_of_def get_nth_def get_key_jobj

lemmas run_defs = run_def run_graph_def run_node_def finish_run_def persist_node_run_def publish_def recorded_def after_node_def
  node_map_def update_execution_def start_state_def prior_runs_def seed_resume_def seed_step_def text_stmt_def stmt_def
  retry_policy_of_def attempt_i32_def in_flight_def attempts.simps map_extend_def Let_def
  act_bind_def act_get_def act_modify_def act_return_def act_fail_def act_map_err_def act_or_def act_lift_def

lemmas example_defs = plain_env_def example_graph_def example_ctx_def example_db_def

lemma example_check:
  "validate (example_graph [(''t'', ''a'')]) = Inr ()"
  "topo_sort (\<lambda>m. m) (example_graph [(''t'', ''a'')]) = Some [''t'', ''s'', ''a'']"
  "topo_sort (\<lambda>m. m) (example_graph [(''t'', ''a''), (''t'', ''s'')]) = Some [''t'', ''a'', ''s'']"
  "topo_sort (\<lambda>m. m) (example_graph [(''t'', ''s''), (''t'', ''a'')]) = Some [''t'', ''s'', ''a'']"
  by code_simp+

lemmas example_simps = run_defs exec_defs example_defs example_check [unfolded example_graph_def, simplified]

end
