(* ===== verification/Workflow_Calls.thy ===== *)
theory Workflow_Calls
  imports Workflow_Run
begin

text \<open>
  What a run of a workflow may do: its tool calls carry the authority the run was started with, are
  admitted by it, and come from tool nodes that the graph reaches from a trigger.
\<close>

section \<open>Nodes reached from a trigger\<close>

definition reached :: "workflow_graph \<Rightarrow> bytes \<Rightarrow> bool" where
  "reached graph n \<longleftrightarrow>
     (\<exists>t \<in> set (wg_nodes graph). is_trigger_kind (wn_kind t) \<and> (wn_id t, n) \<in> (edge_rel graph)\<^sup>*)"

lemma should_execute_reached:
  assumes "should_execute n graph ports" and "\<And>k. k \<in> fst ` set ports \<Longrightarrow> reached graph k"
  shows "reached graph n"
proof (cases "inbound n graph = []")
  case True
  then obtain t where "List.find (\<lambda>t. wn_id t = n) (wg_nodes graph) = Some t" "is_trigger_kind (wn_kind t)"
    using assms(1) by (auto simp: should_execute_def Let_def split: option.splits)
  then show ?thesis unfolding reached_def by (auto simp: find_Some_iff intro!: bexI [of _ t])
next
  case False
  then obtain e where e: "e \<in> set (inbound n graph)" "map_of ports (we_from e) \<noteq> None"
    using assms(1) by (auto simp: should_execute_def Let_def split: option.splits)
  then have "reached graph (we_from e)" using assms(2) by (metis map_of_eq_None_iff)
  moreover have "(we_from e, n) \<in> edge_rel graph" using e by (auto simp: inbound_def edge_rel_def)
  ultimately show ?thesis unfolding reached_def by (meson rtrancl.rtrancl_into_rtrancl)
qed

lemma node_map_Some: "node_map graph i = Some n \<Longrightarrow> n \<in> set (wg_nodes graph) \<and> wn_id n = i"
  by (auto simp: node_map_def map_of_map_extend dest!: map_of_SomeD split: option.splits)

section \<open>What a run keeps\<close>

definition call_ok :: "'c wf_env \<Rightarrow> run_ctx \<Rightarrow> tool_call \<Rightarrow> bool" where
  "call_ok env ctx c \<longleftrightarrow>
     tc_app_id c = rx_app_id ctx \<and> tc_user_id c = rx_user_id ctx \<and> tc_permissions c = rx_perms ctx \<and>
     has_permission (rx_perms ctx) (''tool:'' @ tc_tool c) \<and>
     (\<exists>node \<in> set (wg_nodes (rx_graph ctx)). \<exists>i.
        wn_kind node = Tool (tc_tool c) \<and> reached (rx_graph ctx) (wn_id node) \<and>
        tc_key c = we_show_uuid env (rx_exec_id ctx) @ '':'' @ wn_id node @ '':'' @ show_nat i)"

text \<open>The identity and the graph of an execution never change.\<close>

definition snapshots :: "'z wf_db_scheme \<Rightarrow> (uuid \<times> json option) list" where
  "snapshots s = map (\<lambda>x. (ex_id x, ex_graph x)) (executions s)"

definition run_inv :: "'c wf_env \<Rightarrow> run_ctx \<Rightarrow> 'z wf_db_scheme \<Rightarrow> 'z wf_db_scheme \<Rightarrow> bool" where
  "run_inv env ctx base s \<longleftrightarrow>
     (\<exists>cs. tool_calls s = tool_calls base @ cs \<and> (\<forall>c \<in> set cs. call_ok env ctx c)) \<and>
     (\<forall>r \<in> set (node_runs s). nr_execution r = rx_exec_id ctx \<longrightarrow> reached (rx_graph ctx) (nr_node r)) \<and>
     snapshots s = snapshots base"

lemma snapshots_update [simp]:
  "snapshots (s\<lparr>w_faults := fs\<rparr>) = snapshots s" "snapshots (s\<lparr>wf_events := es\<rparr>) = snapshots s"
  "snapshots (s\<lparr>tool_calls := cs\<rparr>) = snapshots s" "snapshots (s\<lparr>node_runs := rs\<rparr>) = snapshots s"
  by (simp_all add: snapshots_def)

lemma snapshots_executions:
  "(\<And>x. ex_id (f x) = ex_id x \<and> ex_graph (f x) = ex_graph x) \<Longrightarrow> snapshots (update_execution i f s) = snapshots s"
  by (auto simp: snapshots_def update_execution_def)

lemma run_inv_faults [simp]: "fault_free (run_inv env ctx base)"
  by (simp add: fault_free_def run_inv_def)

lemma run_inv_update [simp]:
  "run_inv env ctx base (s\<lparr>wf_events := es\<rparr>) = run_inv env ctx base s"
  by (simp add: run_inv_def)

lemma run_inv_executions:
  "(\<And>x. ex_id (f x) = ex_id x \<and> ex_graph (f x) = ex_graph x) \<Longrightarrow>
   run_inv env ctx base (update_execution i f s) = run_inv env ctx base s"
  using snapshots_executions [of f i s] by (simp add: run_inv_def update_execution_def)

lemma set_upsert: "set (upsert_run r rows) \<subseteq> insert r (set rows)"
  by (induction rows) auto

lemma keeps_dispatch:
  assumes "has_permission (tc_permissions c) (''tool:'' @ tc_tool c) \<Longrightarrow> call_ok env ctx c"
  shows "keeps (run_inv env ctx base) (dispatch env c)"
proof (unfold hoare_def, intro allI impI)
  fix s assume inv: "run_inv env ctx base s"
  show "case dispatch env c s of (Inl _, t) \<Rightarrow> run_inv env ctx base t | (Inr x, t) \<Rightarrow> run_inv env ctx base t"
  proof (cases "has_permission (tc_permissions c) (''tool:'' @ tc_tool c)")
    case True
    obtain cs where cs: "tool_calls s = tool_calls base @ cs" "\<forall>d \<in> set cs. call_ok env ctx d" using inv by (auto simp: run_inv_def)
    have "\<exists>cs'. tool_calls base @ cs @ [c] = tool_calls base @ cs' \<and> (\<forall>d \<in> set cs'. call_ok env ctx d)"
      using cs(2) assms [OF True] by (intro exI [of _ "cs @ [c]"]) auto
    then show ?thesis using True inv cs(1) by (simp add: dispatch_def run_inv_def)
  qed (use inv in \<open>simp add: dispatch_def\<close>)
qed

lemma keeps_tool_items:
  assumes "\<And>args i. has_permission (tc_permissions b) (''tool:'' @ tc_tool b) \<Longrightarrow>
    call_ok env ctx (b\<lparr>tc_args := args, tc_key := tc_key b @ '':'' @ show_nat i\<rparr>)"
  shows "keeps (run_inv env ctx base) (tool_items env b params outs i its acc)"
  using assms
  by (induction env b params outs i its acc rule: tool_items.induct)
    (auto simp: Let_def split: sum.splits intro!: keeps_bind keeps_dispatch hoare_return)

lemma keeps_execute_node:
  assumes "node \<in> set (wg_nodes (rx_graph ctx))" "reached (rx_graph ctx) (wn_id node)"
  shows "keeps (run_inv env ctx base)
    (execute_node env (rx_app_id ctx) (rx_user_id ctx) (rx_perms ctx) node (rx_graph ctx) outs (rx_exec_id ctx))"
proof -
  have "keeps (run_inv env ctx base) (execute_tool_node env (rx_app_id ctx) (rx_user_id ctx) (rx_perms ctx) tool (wn_params node)
      its (we_show_uuid env (rx_exec_id ctx) @ '':'' @ wn_id node) outs)" if "wn_kind node = Tool tool" for tool its
    unfolding execute_tool_node_def Let_def using assms that
    by (intro hoare_option hoare_return keeps_tool_items) (auto simp: call_ok_def)
  then show ?thesis
    unfolding execute_node_def Let_def
    by (intro keeps_bind) (auto split: node_kind.splits intro!: hoare_return)
qed

lemma keeps_persist:
  "reached (rx_graph ctx) n \<Longrightarrow> keeps (run_inv env ctx base) (persist_node_run (rx_exec_id ctx) n st i out err k)"
  unfolding persist_node_run_def
  by (intro hoare_or hoare_stmt hoare_modify run_inv_faults)
    (auto simp: run_inv_def dest!: subsetD [OF set_upsert])

lemma keeps_attempts:
  assumes "node \<in> set (wg_nodes (rx_graph ctx))" "reached (rx_graph ctx) (wn_id node)"
  shows "keeps (run_inv env ctx base) (attempts env ctx node outs k)"
  using assms
proof (induction env ctx node outs k rule: attempts.induct)
  case (1 env ctx node outs k)
  then show ?case
    by (subst attempts.simps) (auto intro!: keeps_bind hoare_return keeps_persist keeps_execute_node split: prod.splits)
qed

lemma keeps_run_node:
  assumes "node \<in> set (wg_nodes (rx_graph ctx))" "reached (rx_graph ctx) n" "wn_id node = n"
  shows "keeps (run_inv env ctx base) (run_node env ctx n node st)"
  unfolding run_node_def publish_def using assms
  by (auto intro!: keeps_bind keeps_attempts keeps_persist hoare_return hoare_modify split: prod.splits)

text \<open>The ports the loop knows are those of reached nodes.\<close>

definition ports_reached :: "workflow_graph \<Rightarrow> loop_state \<Rightarrow> bool" where
  "ports_reached graph st \<longleftrightarrow> fst ` set (ls_active_ports st) \<subseteq> Collect (reached graph)"

lemma after_node_ports: "ports_reached graph st \<Longrightarrow> reached graph n \<Longrightarrow> ports_reached graph (after_node n node ex st)"
  by (cases "recorded node ex") (simp add: ports_reached_def after_node_def Let_def)

lemma hoare_run_node:
  assumes "node \<in> set (wg_nodes (rx_graph ctx))" "reached (rx_graph ctx) n" "wn_id node = n"
    and "ports_reached (rx_graph ctx) st"
  shows "hoare (run_inv env ctx base) (run_node env ctx n node st)
    (\<lambda>st' s. run_inv env ctx base s \<and> ports_reached (rx_graph ctx) st') (run_inv env ctx base)"
  unfolding run_node_def publish_def using assms
  by (auto intro!: hoare_bind [where R = "\<lambda>_. run_inv env ctx base"] keeps_attempts keeps_persist hoare_return hoare_modify
      after_node_ports split: prod.splits)

lemma hoare_pure: "(A \<Longrightarrow> hoare P m Q E) \<Longrightarrow> hoare (\<lambda>s. P s \<and> A) m Q E"
  by (auto simp: hoare_def)

lemma keeps_run_nodes:
  "ports_reached (rx_graph ctx) st \<Longrightarrow> keeps (run_inv env ctx base) (run_nodes env ctx finished order st)"
proof (induction order arbitrary: st)
  case (Cons n order)
  show ?case
  proof (cases "node_map (rx_graph ctx) n")
    case (Some node)
    note node = node_map_Some [OF Some]
    show ?thesis
    proof (cases "n \<in> set finished \<or> \<not> should_execute n (rx_graph ctx) (ls_active_ports st)")
      case False
      then have r: "reached (rx_graph ctx) n"
        using should_execute_reached [of n "rx_graph ctx" "ls_active_ports st"] Cons.prems
        by (auto simp: ports_reached_def)
      have eq: "run_nodes env ctx finished (n # order) st = act_bind (run_node env ctx n node st)
          (\<lambda>st'. if ls_aborted st' \<or> ls_halted st' then act_return st' else run_nodes env ctx finished order st')"
        using Some False by simp
      show ?thesis unfolding eq
        using node r Cons.prems Cons.IH
        by (intro hoare_bind [OF hoare_run_node] hoare_pure hoare_if hoare_return) auto
    qed (use Some Cons in auto)
  qed (use Cons in simp)
qed (simp add: hoare_return)

lemma seed_resume_ports:
  assumes "\<And>n st out. (n, st, out) \<in> set prior \<Longrightarrow> reached graph n"
  shows "ports_reached graph (start_state (seed_resume prior))"
proof -
  have "fst ` set (rs_active_ports (fold seed_step rows r)) \<subseteq> Collect (reached graph)"
    if "set rows \<subseteq> set prior" "fst ` set (rs_active_ports r) \<subseteq> Collect (reached graph)" for rows r
    using that
  proof (induction rows arbitrary: r)
    case (Cons row rows)
    obtain n st out where row: "row = (n, st, out)" by (cases row) auto
    have "reached graph n" using Cons.prems(1) assms row by auto
    then have "fst ` set (rs_active_ports (seed_step row r)) \<subseteq> Collect (reached graph)"
      using Cons.prems(2) row by (simp add: seed_step_def Let_def split: option.splits)
    then show ?case using Cons by simp
  qed simp
  from this [of prior] show ?thesis by (simp add: ports_reached_def start_state_def seed_resume_def)
qed

section \<open>The whole run\<close>

text \<open>Stored results belong to reached nodes of the snapshot. A run keeps this; a new execution has
  no results.\<close>

definition rows_reached :: "'c wf_env \<Rightarrow> uuid \<Rightarrow> 'z wf_db_scheme \<Rightarrow> bool" where
  "rows_reached env exec_id s \<longleftrightarrow>
     (\<forall>x \<in> set (executions s). \<forall>g graph. ex_id x = exec_id \<longrightarrow> ex_graph x = Some g \<longrightarrow> we_parse_graph env g = Inr graph \<longrightarrow>
        (\<forall>r \<in> set (node_runs s). nr_execution r = exec_id \<longrightarrow> reached graph (nr_node r)))"

definition run_call :: "'c wf_env \<Rightarrow> uuid \<Rightarrow> uuid \<Rightarrow> bytes list \<Rightarrow> 'z wf_db_scheme \<Rightarrow> tool_call \<Rightarrow> bool" where
  "run_call env exec_id user_id perms s c \<longleftrightarrow>
     (\<exists>x \<in> set (executions s). \<exists>g graph. ex_id x = exec_id \<and> ex_run_as x = user_id \<and> in_flight x \<and>
        ex_graph x = Some g \<and> we_parse_graph env g = Inr graph \<and> well_formed graph \<and>
        call_ok env \<lparr>rx_app_id = ex_app_id x, rx_user_id = user_id, rx_perms = perms, rx_graph = graph, rx_exec_id = exec_id\<rparr> c)"

definition load_execution :: "uuid \<Rightarrow> uuid \<Rightarrow> int \<Rightarrow> 'z wf_db_scheme \<Rightarrow> execution_row option" where
  "load_execution exec_id user_id lease s =
     List.find (\<lambda>x. ex_id x = exec_id \<and> ex_run_as x = user_id \<and> ex_lease x = Some lease \<and> in_flight x) (executions s)"

lemma text_stmt_get:
  "text_stmt env (act_get f) s = (r, t) \<Longrightarrow> tables_only f \<Longrightarrow>
   (\<exists>fs. t = s\<lparr>w_faults := fs\<rparr>) \<and> (r = Inr (f s) \<or> (\<exists>e. r = Inl e))"
  by (auto simp: text_stmt_def act_map_err_def stmt_def act_get_def tables_only_def map_err_def
      split: list.splits option.splits prod.splits sum.splits)

lemma keeps_text_stmt: "hoare P m Q E \<Longrightarrow> fault_free P \<Longrightarrow> (\<And>s. P s \<Longrightarrow> E s) \<Longrightarrow> hoare P (text_stmt env m) Q E"
  unfolding text_stmt_def by (intro hoare_map_err hoare_stmt)

lemma keeps_run_graph:
  fixes base :: "'z wf_db_scheme"
  shows "keeps (run_inv env ctx base) (run_graph env ctx)"
proof -
  have prior: "hoare (run_inv env ctx base) (text_stmt env (act_get (prior_runs (rx_exec_id ctx))))
      (\<lambda>prior s. run_inv env ctx base s \<and> (\<forall>n st out. (n, st, out) \<in> set prior \<longrightarrow> reached (rx_graph ctx) n))
      (run_inv env ctx base)"
    by (intro keeps_text_stmt hoare_get) (auto simp: run_inv_def prior_runs_def)
  have finish: "keeps (run_inv env ctx base) (finish_run env ctx st)" for st
    unfolding finish_run_def Let_def publish_def
    by (intro keeps_bind keeps_text_stmt hoare_modify hoare_return) (auto simp: run_inv_executions)
  have rest: "hoare (\<lambda>s. run_inv env ctx base s \<and> (\<forall>n st out. (n, st, out) \<in> set prior \<longrightarrow> reached (rx_graph ctx) n))
      (let r = seed_resume prior in act_bind (run_nodes env ctx (rs_done r) order (start_state r)) (finish_run env ctx))
      (\<lambda>_. run_inv env ctx base) (run_inv env ctx base)" for prior order
    unfolding Let_def by (intro hoare_pure keeps_bind keeps_run_nodes finish) (auto intro!: seed_resume_ports)
  show ?thesis
    unfolding run_graph_def
    by (intro keeps_bind [of _ "text_stmt env (act_modify _)"] hoare_option hoare_fail hoare_bind [OF prior rest]
        keeps_text_stmt hoare_modify) (auto simp: run_inv_executions)
qed

lemma snapshots_rows_reached:
  "rows_reached env i s \<longleftrightarrow>
   (\<forall>(j, g) \<in> set (snapshots s). \<forall>v graph. j = i \<longrightarrow> g = Some v \<longrightarrow> we_parse_graph env v = Inr graph \<longrightarrow>
     (\<forall>r \<in> set (node_runs s). nr_execution r = i \<longrightarrow> reached graph (nr_node r)))"
  by (auto simp: rows_reached_def snapshots_def)

lemma run_within:
  fixes s :: "'z wf_db_scheme"
  assumes rows: "rows_reached env exec_id s" and ids: "distinct (map ex_id (executions s))"
    and run: "run env exec_id user_id perms lease s = (result, t)"
  shows "(\<exists>cs. tool_calls t = tool_calls s @ cs \<and> (\<forall>c \<in> set cs. run_call env exec_id user_id perms s c)) \<and>
    rows_reached env exec_id t"
proof -
  let ?load = "text_stmt env (act_get (load_execution exec_id user_id lease)) :: ('z wf_db_scheme, bytes, execution_row option) act"
  obtain r1 s1 where l: "?load s = (r1, s1)" by force
  have reads: "tables_only (load_execution exec_id user_id lease)" by (simp add: tables_only_def load_execution_def)
  obtain fs where s1: "s1 = s\<lparr>w_faults := fs\<rparr>" using text_stmt_get [OF l reads] by blast
  have same: "run_call env exec_id user_id perms s1 = run_call env exec_id user_id perms s"
    "rows_reached env exec_id s1 = rows_reached env exec_id s" by (simp_all add: s1 run_call_def rows_reached_def fun_eq_iff)
  define cont where "cont = (\<lambda>row :: execution_row option. case row of
       None \<Rightarrow> act_fail ''execution identity, lease or status mismatch''
     | Some x \<Rightarrow>
         (case ex_graph x of
            None \<Rightarrow> act_fail ''execution has no graph snapshot''
          | Some graph_json \<Rightarrow>
              act_bind (act_lift (map_err (\<lambda>e. ''invalid graph snapshot: '' @ e) (we_parse_graph env graph_json))) (\<lambda>graph.
              act_bind (act_lift (map_err (\<lambda>issues. ''graph validation failed: '' @ join ''; '' issues) (validate graph))) (\<lambda>_.
                run_graph env \<lparr>rx_app_id = ex_app_id x, rx_user_id = user_id, rx_perms = perms, rx_graph = graph,
                  rx_exec_id = exec_id\<rparr> :: ('z wf_db_scheme, bytes, execution_status) act))))"
  have "act_bind ?load cont s = (result, t)"
    using run by (simp add: run_def cont_def load_execution_def [abs_def])
  then have "(\<exists>e. r1 = Inl e \<and> t = s1) \<or> (\<exists>row. r1 = Inr row \<and> cont row s1 = (result, t))"
    using l by (cases r1) (auto simp: act_bind_def)
  moreover have ?thesis if "t = s1" using that same rows by (simp add: s1)
  moreover have ?thesis if "r1 = Inr (Some x)" "ex_graph x = Some g" "we_parse_graph env g = Inr graph" "validate graph = Inr ()"
    "run_graph env \<lparr>rx_app_id = ex_app_id x, rx_user_id = user_id, rx_perms = perms, rx_graph = graph, rx_exec_id = exec_id\<rparr> s1 = (result, t)"
    for x g graph
  proof -
    let ?ctx = "\<lparr>rx_app_id = ex_app_id x, rx_user_id = user_id, rx_perms = perms, rx_graph = graph, rx_exec_id = exec_id\<rparr>"
    have "load_execution exec_id user_id lease s = Some x" using text_stmt_get [OF l reads] that(1) by auto
    then have x: "x \<in> set (executions s)" "ex_id x = exec_id" "ex_run_as x = user_id" "in_flight x"
      by (auto simp: load_execution_def find_Some_iff)
    have "run_inv env ?ctx s s1"
      using rows x that(2,3) by (auto simp: run_inv_def s1 rows_reached_def)
    then have inv: "run_inv env ?ctx s t" using keeps_run [OF keeps_run_graph, of env ?ctx s s1] that(5) by simp
    have "run_call env exec_id user_id perms s c" if "call_ok env ?ctx c" for c
      using that x \<open>ex_graph x = Some g\<close> \<open>we_parse_graph env g = Inr graph\<close> \<open>validate graph = Inr ()\<close>
      unfolding run_call_def validate_ok_iff by blast
    moreover have "rows_reached env exec_id t"
    proof -
      have snap: "snapshots t = snapshots s" using inv by (simp add: run_inv_def)
      have only: "g' = Some g" if "(exec_id, g') \<in> set (snapshots s)" for g'
        using that x(1,2) \<open>ex_graph x = Some g\<close> ids unfolding snapshots_def by (auto simp: distinct_map inj_on_def)
      have rows: "reached graph (nr_node r)" if "r \<in> set (node_runs t)" "nr_execution r = exec_id" for r
        using inv that by (simp add: run_inv_def)
      show ?thesis unfolding snapshots_rows_reached snap
      proof (unfold case_prod_unfold, intro ballI allI impI)
        fix p v graph' r
        assume p: "p \<in> set (snapshots s)" "fst p = exec_id" "snd p = Some v" and "we_parse_graph env v = Inr graph'"
          and r: "r \<in> set (node_runs t)" "nr_execution r = exec_id"
        then have "Some v = Some g" using only [of "Some v"] p by (metis prod.collapse)
        then show "reached graph' (nr_node r)"
          using rows [OF r] \<open>we_parse_graph env g = Inr graph\<close> \<open>we_parse_graph env v = Inr graph'\<close> by simp
      qed
    qed
    ultimately show ?thesis using inv unfolding run_inv_def by blast
  qed
  moreover have "t = s1 \<or> (\<exists>x g graph. row = Some x \<and> ex_graph x = Some g \<and> we_parse_graph env g = Inr graph \<and> validate graph = Inr () \<and>
      run_graph env \<lparr>rx_app_id = ex_app_id x, rx_user_id = user_id, rx_perms = perms, rx_graph = graph, rx_exec_id = exec_id\<rparr> s1 = (result, t))"
    if "cont row s1 = (result, t)" for row
  proof (cases row)
    case (Some x)
    show ?thesis
    proof (cases "ex_graph x")
      case g: (Some g)
      show ?thesis
      proof (cases "we_parse_graph env g")
        case (Inr graph)
        then show ?thesis using that Some g
          by (cases "validate graph") (auto simp: cont_def act_fail_def)
      qed (use that Some g in \<open>auto simp: cont_def act_fail_def\<close>)
    qed (use that Some in \<open>auto simp: cont_def act_fail_def\<close>)
  qed (use that in \<open>auto simp: cont_def act_fail_def\<close>)
  ultimately show ?thesis by blast
qed

section \<open>The authority of a run\<close>

text \<open>C5: what a workflow may do. Every tool call of a run is made for the user and with the permissions the
  run was given, for the app of the execution, with a key made of the execution, the node and the item;
  the permission for the tool is among those given; and the call comes from a tool node that edges of the
  checked snapshot connect with a trigger. A run that is not of this user, not under this lease or not
  in flight makes no call. Stored results stay those of connected nodes, so this holds for the next
  attempt too.\<close>

theorem run_calls_within:
  assumes "rows_reached env exec_id s" "distinct (map ex_id (executions s))"
    and "run env exec_id user_id perms lease s = (result, t)"
  shows "(\<exists>cs. tool_calls t = tool_calls s @ cs \<and> (\<forall>c \<in> set cs. run_call env exec_id user_id perms s c)) \<and>
    rows_reached env exec_id t"
  using assms by (rule run_within)

definition example_env :: "(bytes \<times> bytes) list \<Rightarrow> unit wf_env" where
  "example_env es = plain_env\<lparr>we_parse_graph := \<lambda>_. Inr (example_graph es)\<rparr>"

lemma run_calls_within_witness:
  "\<exists>t c. run (example_env [(''t'', ''a'')]) 7 1 [''tool:ping''] 3 (example_db (Some JNull)) = (Inr Succeeded, t) \<and>
     tool_calls t = [c] \<and> run_call (example_env [(''t'', ''a'')]) 7 1 [''tool:ping''] (example_db (Some JNull)) c"
proof -
  let ?env = "example_env [(''t'', ''a'')]" and ?s = "example_db (Some JNull)"
  let ?run = "run ?env 7 1 [''tool:ping''] 3 ?s"
  obtain result t where run: "?run = (result, t)" by force
  have eval: "fst ?run = Inr Succeeded \<and> length (tool_calls (snd ?run)) = 1"
    by (simp add: example_simps example_env_def cong: if_weak_cong)
  have none: "tool_calls ?s = []" "rows_reached ?env 7 ?s" "distinct (map ex_id (executions ?s))"
    by (simp_all add: example_db_def rows_reached_def)
  from run_calls_within [OF none(2,3) run] obtain cs where "tool_calls t = cs" "\<forall>c \<in> set cs. run_call ?env 7 1 [''tool:ping''] ?s c"
    using none(1) by auto
  moreover have "result = Inr Succeeded" "length (tool_calls t) = 1" using eval unfolding run by simp_all
  ultimately show ?thesis using run by (cases cs) auto
qed

end
