(* ===== verification/Workflow_Resume.thy ===== *)
theory Workflow_Resume
  imports Workflow_Calls
begin

text \<open>
  Crash and resume. When tools answer alike to the same call, a run that was interrupted between two
  nodes and is taken up again from its stored results ends like a run that was never interrupted.

  The proof replaces the run by a function of the loop state and the stored results alone
  (\<open>replay\<close>) and then follows the interrupted and the resumed run node by node.
\<close>

section \<open>The outcome of a node\<close>

definition deterministic :: "'c wf_env \<Rightarrow> bool" where
  "deterministic env \<longleftrightarrow> (\<forall>h h' c. we_execute env h c = we_execute env h' c)"

definition skip_kind :: "node_kind \<Rightarrow> bool" where
  "skip_kind kind \<longleftrightarrow>
     (case kind of Code \<Rightarrow> True | SubWorkflow _ \<Rightarrow> True | Control Loop \<Rightarrow> True | Control Wait \<Rightarrow> True | _ \<Rightarrow> False)"

definition skipped_ex :: "workflow_graph \<Rightarrow> workflow_node \<Rightarrow> outputs \<Rightarrow> node_execution" where
  "skipped_ex graph node outs =
     \<lparr>ne_status = NodeSkipped, ne_output_json = encode [[]],
      ne_input_json = items_to_json (concat (collect_inputs_by_port (wn_id node) graph outs)),
      ne_error = Some ''not implemented'', ne_halt = False\<rparr>"

text \<open>An action that gives \<open>r\<close> and only makes calls.\<close>

definition only_calls :: "('z wf_db_scheme, bytes, 'a) act \<Rightarrow> 'a \<Rightarrow> bool" where
  "only_calls m r \<longleftrightarrow> (\<forall>s. \<exists>cs. m s = (Inr r, s\<lparr>tool_calls := cs\<rparr>))"

lemma only_calls_return: "only_calls (act_return r) r"
  unfolding only_calls_def act_return_def by (metis wf_db.surjective wf_db.update_convs(4))

lemma only_calls_bind:
  assumes m: "only_calls m r" and f: "only_calls (f r) q"
  shows "only_calls (act_bind m f) q"
proof (unfold only_calls_def, intro allI)
  fix s
  obtain cs where "m s = (Inr r, s\<lparr>tool_calls := cs\<rparr>)" using m unfolding only_calls_def by blast
  moreover obtain cs' where "f r (s\<lparr>tool_calls := cs\<rparr>) = (Inr q, (s\<lparr>tool_calls := cs\<rparr>)\<lparr>tool_calls := cs'\<rparr>)"
    using f unfolding only_calls_def by blast
  ultimately show "\<exists>cs. act_bind m f s = (Inr q, s\<lparr>tool_calls := cs\<rparr>)" by (auto simp: act_bind_def)
qed

lemma dispatch_det:
  assumes "deterministic env"
  shows "\<exists>r. only_calls (dispatch env c :: ('z wf_db_scheme, bytes, _) act) r"
proof (cases "has_permission (tc_permissions c) (''tool:'' @ tc_tool c)")
  case True
  have det: "we_execute env h c = we_execute env [] c" for h using assms by (simp add: deterministic_def)
  have "dispatch env c s = (Inr (map_err ExecutionFailed (we_execute env [] c)), s\<lparr>tool_calls := tool_calls s @ [c]\<rparr>)" for s :: "'z wf_db_scheme"
    using True det [of "tool_calls s"] by (simp add: dispatch_def)
  then show ?thesis unfolding only_calls_def by blast
next
  case False
  then have "dispatch env c = (act_return (Inl (PermissionDenied (''tool:'' @ tc_tool c))) :: ('z wf_db_scheme, bytes, _) act)"
    by (auto simp: dispatch_def act_return_def)
  then show ?thesis using only_calls_return by metis
qed

lemma tool_items_det:
  assumes "deterministic env"
  shows "\<exists>r. only_calls (tool_items env b params outs i its acc :: ('z wf_db_scheme, bytes, _) act) r \<and> fst r \<in> {NodeSucceeded, NodeFailed}"
proof (induction its arbitrary: i acc)
  case (Cons it its)
  let ?c = "b\<lparr>tc_args := merge_args (resolve (we_js env) params (item_json it) outs) (item_json it),
    tc_key := tc_key b @ '':'' @ show_nat i\<rparr>"
  let ?rest = "\<lambda>outcome. (case outcome of
      Inr v \<Rightarrow> tool_items env b params outs (Suc i) its (acc @ normalize_tool_output v)
    | Inl e \<Rightarrow> act_return (NodeFailed, [[]], Some (dispatch_text e))) :: ('z wf_db_scheme, bytes, node_result) act"
  obtain out where out: "only_calls (dispatch env ?c :: ('z wf_db_scheme, bytes, _) act) out" using dispatch_det [OF assms] by blast
  have "\<exists>r. only_calls (?rest out) r \<and> fst r \<in> {NodeSucceeded, NodeFailed}"
  proof (cases out)
    case (Inl e)
    then show ?thesis using only_calls_return [of "(NodeFailed, [[]], Some (dispatch_text e))"] by auto
  next
    case (Inr v)
    then show ?thesis using Cons [of "Suc i" "acc @ normalize_tool_output v"] by simp
  qed
  then obtain r where r: "only_calls (?rest out) r" "fst r \<in> {NodeSucceeded, NodeFailed}" by blast
  have "only_calls (act_bind (dispatch env ?c) ?rest) r" using r(1) by (rule only_calls_bind [OF out, of ?rest])
  then show ?case using r(2) unfolding tool_items.simps Let_def by blast
next
  case Nil
  show ?case using only_calls_return [of "(NodeSucceeded, [acc], None)"] by (intro exI conjI) auto
qed

lemma execute_tool_det:
  assumes "deterministic env"
  shows "\<exists>r. only_calls (execute_tool_node env a u p tool params its key outs :: ('z wf_db_scheme, bytes, _) act) r \<and>
    fst r \<in> {NodeSucceeded, NodeFailed}"
proof (cases "we_registry env tool")
  case None
  then show ?thesis using only_calls_return [of "(NodeFailed, [[]], Some (''unknown tool: '' @ tool))"]
    by (intro exI conjI) (auto simp: execute_tool_node_def)
next
  case (Some t)
  then show ?thesis unfolding execute_tool_node_def Let_def option.case(2) by (simp only: option.case) (rule tool_items_det [OF assms])
qed

lemma control_status: "fst (execute_control_node js c params its ports outs) = (if skip_kind (Control c) then NodeSkipped else NodeSucceeded)"
  by (cases c) (simp_all add: execute_control_node_def execute_if_def execute_switch_def execute_set_def execute_merge_def
      execute_stop_def not_implemented_def skip_kind_def Let_def)

lemma execute_node_det:
  assumes "deterministic env"
  shows "\<exists>ex. only_calls (execute_node env a u p node graph outs i :: ('z wf_db_scheme, bytes, _) act) ex \<and>
    (if skip_kind (wn_kind node) then ex = skipped_ex graph node outs else ne_status ex \<in> {NodeSucceeded, NodeFailed})"
proof -
  let ?ports = "collect_inputs_by_port (wn_id node) graph outs"
  let ?its = "concat ?ports"
  let ?kind = "(case wn_kind node of
              Trigger _ \<Rightarrow> act_return (NodeSucceeded, [[\<lparr>item_json = wn_params node\<rparr>]], None)
            | Tool tool_name \<Rightarrow> execute_tool_node env a u p tool_name (wn_params node) ?its (we_show_uuid env i @ '':'' @ wn_id node) outs
            | Control control \<Rightarrow> act_return (execute_control_node (we_js env) control (wn_params node) ?its ?ports outs)
            | _ \<Rightarrow> act_return not_implemented) :: ('z wf_db_scheme, bytes, node_result) act"
  have "\<exists>r. only_calls ?kind r \<and> (if skip_kind (wn_kind node) then r = not_implemented else fst r \<in> {NodeSucceeded, NodeFailed})"
  proof (cases "wn_kind node")
    case (Tool tool)
    then show ?thesis using execute_tool_det [OF assms] by (simp add: skip_kind_def)
  next
    case (Control c)
    let ?r = "execute_control_node (we_js env) c (wn_params node) ?its ?ports outs"
    have "skip_kind (Control c) \<Longrightarrow> ?r = not_implemented"
      by (cases c) (auto simp: execute_control_node_def skip_kind_def)
    then show ?thesis using Control control_status [of "we_js env" c "wn_params node" ?its ?ports outs]
      only_calls_return [of ?r] by (intro exI [of _ ?r]) auto
  next
    case (Trigger k)
    then show ?thesis using only_calls_return
      by (intro exI [of _ "(NodeSucceeded, [[\<lparr>item_json = wn_params node\<rparr>]], None)"]) (simp add: skip_kind_def)
  next
    case Code
    then show ?thesis using only_calls_return by (intro exI [of _ not_implemented]) (simp add: skip_kind_def)
  next
    case (SubWorkflow w)
    then show ?thesis using only_calls_return by (intro exI [of _ not_implemented]) (simp add: skip_kind_def)
  qed
  then obtain r where r: "only_calls ?kind r" "if skip_kind (wn_kind node) then r = not_implemented else fst r \<in> {NodeSucceeded, NodeFailed}"
    by blast
  obtain status out err where rr: "r = (status, out, err)" by (cases r) auto
  let ?ex = "\<lparr>ne_status = status, ne_output_json = encode out, ne_input_json = items_to_json ?its,
    ne_error = err, ne_halt = is_stop (wn_kind node)\<rparr>"
  have "only_calls (execute_node env a u p node graph outs i :: ('z wf_db_scheme, bytes, _) act) ?ex"
    unfolding execute_node_def Let_def by (rule only_calls_bind [OF r(1)]) (simp add: rr only_calls_return)
  moreover have "skip_kind (wn_kind node) \<Longrightarrow> \<not> is_stop (wn_kind node)" by (auto simp: skip_kind_def is_stop_def)
  ultimately show ?thesis using r(2) rr
    by (intro exI [of _ ?ex]) (auto simp: skipped_ex_def not_implemented_def)
qed

section \<open>Stored rows\<close>

definition run_row :: "run_ctx \<Rightarrow> bytes \<Rightarrow> node_status \<Rightarrow> node_execution \<Rightarrow> json \<Rightarrow> nat \<Rightarrow> node_run_row" where
  "run_row ctx n status ex out k =
     \<lparr>nr_execution = rx_exec_id ctx, nr_node = n, nr_status = node_status_str status, nr_input = ne_input_json ex,
      nr_output = Some out, nr_error = ne_error ex, nr_attempts = attempt_i32 k\<rparr>"

definition same_key :: "node_run_row \<Rightarrow> node_run_row \<Rightarrow> bool" where
  "same_key a b \<longleftrightarrow> nr_execution a = nr_execution b \<and> nr_node a = nr_node b"

lemma upsert_upsert: "same_key a b \<Longrightarrow> upsert_run b (upsert_run a rows) = upsert_run b rows"
  by (induction rows) (auto simp: same_key_def)

lemma upsert_new: "(\<And>x. x \<in> set rows \<Longrightarrow> \<not> same_key x r) \<Longrightarrow> upsert_run r rows = rows @ [r]"
  by (induction rows) (auto simp: same_key_def)

lemma upsert_same: "r \<in> set rows \<Longrightarrow> (\<And>x. x \<in> set rows \<Longrightarrow> same_key x r \<Longrightarrow> x = r) \<Longrightarrow> upsert_run r rows = rows"
  by (induction rows) (auto simp: same_key_def)

lemma persist_no_fault:
  "w_faults s = [] \<Longrightarrow>
   persist_node_run (rx_exec_id ctx) n st (ne_input_json ex) out (ne_error ex) k s =
     (Inr (), s\<lparr>node_runs := upsert_run (run_row ctx n st ex out k) (node_runs s)\<rparr>)"
  by (simp add: persist_node_run_def act_or_def stmt_def act_modify_def run_row_def)

text \<open>An action that gives \<open>r\<close>, makes calls and rewrites at most the row of node \<open>n\<close>.\<close>

definition only_row :: "run_ctx \<Rightarrow> bytes \<Rightarrow> ('z wf_db_scheme, bytes, 'a) act \<Rightarrow> 'a \<Rightarrow> bool" where
  "only_row ctx n m r \<longleftrightarrow>
     (\<forall>s. w_faults s = [] \<longrightarrow>
        (\<exists>cs rows. m s = (Inr r, s\<lparr>tool_calls := cs, node_runs := rows\<rparr>) \<and>
           (\<forall>row. nr_execution row = rx_exec_id ctx \<and> nr_node row = n \<longrightarrow> upsert_run row rows = upsert_run row (node_runs s))))"

lemma attempts_det:
  assumes "deterministic env"
  shows "\<exists>ex k. only_row ctx (wn_id node) (attempts env ctx node outs i :: ('z wf_db_scheme, bytes, _) act) (ex, k) \<and>
    (if skip_kind (wn_kind node) then ex = skipped_ex (rx_graph ctx) node outs \<and> k = i
     else ne_status ex \<in> {NodeSucceeded, NodeFailed})"
proof (induction "rp_max_attempts (retry_policy_of node) - i" arbitrary: i rule: less_induct)
  case less
  let ?node = "execute_node env (rx_app_id ctx) (rx_user_id ctx) (rx_perms ctx) node (rx_graph ctx) outs (rx_exec_id ctx)
    :: ('z wf_db_scheme, bytes, _) act"
  obtain ex where ex: "only_calls ?node ex"
    "if skip_kind (wn_kind node) then ex = skipped_ex (rx_graph ctx) node outs else ne_status ex \<in> {NodeSucceeded, NodeFailed}"
    using execute_node_det [OF assms] by blast
  show ?case
  proof (cases "ne_status ex = NodeFailed \<and> i < rp_max_attempts (retry_policy_of node)")
    case False
    have "only_row ctx (wn_id node) (attempts env ctx node outs i :: ('z wf_db_scheme, bytes, _) act) (ex, i)"
    proof (unfold only_row_def, intro allI impI)
      fix s :: "'z wf_db_scheme"
      obtain cs where "?node s = (Inr ex, s\<lparr>tool_calls := cs\<rparr>)" using ex(1) unfolding only_calls_def by blast
      then have "attempts env ctx node outs i s = (Inr (ex, i), s\<lparr>tool_calls := cs, node_runs := node_runs s\<rparr>)"
        using False by (subst attempts.simps) (auto simp: act_bind_def act_return_def)
      then show "\<exists>cs rows. attempts env ctx node outs i s = (Inr (ex, i), s\<lparr>tool_calls := cs, node_runs := rows\<rparr>) \<and>
          (\<forall>row. nr_execution row = rx_exec_id ctx \<and> nr_node row = wn_id node \<longrightarrow> upsert_run row rows = upsert_run row (node_runs s))"
        by blast
    qed
    then show ?thesis using ex(2) by (intro exI [of _ ex] exI [of _ i]) (auto split: if_splits)
  next
    case True
    then have "rp_max_attempts (retry_policy_of node) - Suc i < rp_max_attempts (retry_policy_of node) - i"
      by (auto intro: diff_less_mono2)
    from less [OF this] obtain ex' k where
      rest: "only_row ctx (wn_id node) (attempts env ctx node outs (Suc i) :: ('z wf_db_scheme, bytes, _) act) (ex', k)"
      and kind: "if skip_kind (wn_kind node) then ex' = skipped_ex (rx_graph ctx) node outs \<and> k = Suc i
        else ne_status ex' \<in> {NodeSucceeded, NodeFailed}"
      by blast
    have nskip: "\<not> skip_kind (wn_kind node)" using ex(2) True by (auto simp: skipped_ex_def)
    let ?row = "run_row ctx (wn_id node) NodeFailed ex (ne_output_json ex) i"
    have "only_row ctx (wn_id node) (attempts env ctx node outs i :: ('z wf_db_scheme, bytes, _) act) (ex', k)"
    proof (unfold only_row_def, intro allI impI)
      fix s :: "'z wf_db_scheme" assume nf: "w_faults s = []"
      obtain cs where c: "?node s = (Inr ex, s\<lparr>tool_calls := cs\<rparr>)" using ex(1) unfolding only_calls_def by blast
      let ?s = "s\<lparr>tool_calls := cs, node_runs := upsert_run ?row (node_runs s)\<rparr>"
      have eq: "attempts env ctx node outs i s = attempts env ctx node outs (Suc i) ?s"
        using True c persist_no_fault [of "s\<lparr>tool_calls := cs\<rparr>" ctx "wn_id node" NodeFailed ex "ne_output_json ex" i] nf
        by (subst attempts.simps) (simp add: act_bind_def)
      have "w_faults ?s = []" using nf by simp
      then obtain cs' rows where r: "attempts env ctx node outs (Suc i) ?s = (Inr (ex', k), ?s\<lparr>tool_calls := cs', node_runs := rows\<rparr>)"
        "\<forall>row. nr_execution row = rx_exec_id ctx \<and> nr_node row = wn_id node \<longrightarrow> upsert_run row rows = upsert_run row (node_runs ?s)"
        using rest unfolding only_row_def by blast
      show "\<exists>cs rows. attempts env ctx node outs i s = (Inr (ex', k), s\<lparr>tool_calls := cs, node_runs := rows\<rparr>) \<and>
          (\<forall>row. nr_execution row = rx_exec_id ctx \<and> nr_node row = wn_id node \<longrightarrow> upsert_run row rows = upsert_run row (node_runs s))"
        unfolding eq using r by (intro exI [of _ cs'] exI [of _ rows]) (auto simp: upsert_upsert same_key_def run_row_def)
    qed
    then show ?thesis using kind nskip by (intro exI [of _ ex'] exI [of _ k]) simp
  qed
qed

section \<open>The run as a function\<close>

type_synonym outcomes = "workflow_node \<Rightarrow> outputs \<Rightarrow> node_execution \<times> nat"

definition outcome_row :: "run_ctx \<Rightarrow> bytes \<Rightarrow> workflow_node \<Rightarrow> node_execution \<times> nat \<Rightarrow> node_run_row" where
  "outcome_row ctx n node r =
     (case r of (ex, k) \<Rightarrow> run_row ctx n (fst (recorded node ex)) ex (snd (recorded node ex)) k)"

fun replay :: "outcomes \<Rightarrow> run_ctx \<Rightarrow> bytes list \<Rightarrow> bytes list \<Rightarrow> loop_state \<times> node_run_row list \<Rightarrow> loop_state \<times> node_run_row list" where
  "replay F ctx finished [] p = p"
| "replay F ctx finished (n # order) (st, rows) =
     (case node_map (rx_graph ctx) n of
        None \<Rightarrow> replay F ctx finished order (st, rows)
      | Some node \<Rightarrow>
          if n \<in> set finished \<or> \<not> should_execute n (rx_graph ctx) (ls_active_ports st) then replay F ctx finished order (st, rows)
          else
            (let r = F node (ls_run_outputs st); st' = after_node n node (fst r) st;
                 rows' = upsert_run (outcome_row ctx n node r) rows
             in if ls_aborted st' \<or> ls_halted st' then (st', rows') else replay F ctx finished order (st', rows')))"

definition faithful :: "run_ctx \<Rightarrow> outcomes \<Rightarrow> bool" where
  "faithful ctx F \<longleftrightarrow>
     (\<forall>node outs. if skip_kind (wn_kind node) then F node outs = (skipped_ex (rx_graph ctx) node outs, 1)
        else ne_status (fst (F node outs)) \<in> {NodeSucceeded, NodeFailed})"

lemma outcome_fun:
  assumes "deterministic env"
  obtains F where "faithful ctx F"
    and "\<And>node outs. only_row ctx (wn_id node) (attempts env ctx node outs 1 :: ('z wf_db_scheme, bytes, _) act) (F node outs)"
proof -
  have "\<forall>p. \<exists>r. only_row ctx (wn_id (fst p)) (attempts env ctx (fst p) (snd p) 1 :: ('z wf_db_scheme, bytes, _) act) r \<and>
      (if skip_kind (wn_kind (fst p)) then r = (skipped_ex (rx_graph ctx) (fst p) (snd p), 1)
       else ne_status (fst r) \<in> {NodeSucceeded, NodeFailed})"
  proof
    fix p :: "workflow_node \<times> outputs"
    obtain ex k where "only_row ctx (wn_id (fst p)) (attempts env ctx (fst p) (snd p) 1 :: ('z wf_db_scheme, bytes, _) act) (ex, k)"
      "if skip_kind (wn_kind (fst p)) then ex = skipped_ex (rx_graph ctx) (fst p) (snd p) \<and> k = 1
       else ne_status ex \<in> {NodeSucceeded, NodeFailed}"
      using attempts_det [OF assms] by blast
    then show "\<exists>r. only_row ctx (wn_id (fst p)) (attempts env ctx (fst p) (snd p) 1 :: ('z wf_db_scheme, bytes, _) act) r \<and>
      (if skip_kind (wn_kind (fst p)) then r = (skipped_ex (rx_graph ctx) (fst p) (snd p), 1)
       else ne_status (fst r) \<in> {NodeSucceeded, NodeFailed})"
      by (intro exI [of _ "(ex, k)"]) auto
  qed
  from choice [OF this] obtain G where G: "\<And>p. only_row ctx (wn_id (fst p)) (attempts env ctx (fst p) (snd p) 1 :: ('z wf_db_scheme, bytes, _) act) (G p) \<and>
      (if skip_kind (wn_kind (fst p)) then G p = (skipped_ex (rx_graph ctx) (fst p) (snd p), 1)
       else ne_status (fst (G p)) \<in> {NodeSucceeded, NodeFailed})" by blast
  show thesis
  proof (rule that [of "\<lambda>node outs. G (node, outs)"])
    show "faithful ctx (\<lambda>node outs. G (node, outs))" unfolding faithful_def using G by (metis fst_conv snd_conv)
    show "only_row ctx (wn_id node) (attempts env ctx node outs 1 :: ('z wf_db_scheme, bytes, _) act) (G (node, outs))" for node outs
      using G [of "(node, outs)"] by simp
  qed
qed

lemma run_node_replay:
  assumes F: "only_row ctx (wn_id node) (attempts env ctx node (ls_run_outputs st) 1 :: ('z wf_db_scheme, bytes, _) act)
      (F node (ls_run_outputs st))"
    and "w_faults (s :: 'z wf_db_scheme) = []"
  shows "\<exists>cs es. run_node env ctx (wn_id node) node st s =
    (Inr (after_node (wn_id node) node (fst (F node (ls_run_outputs st))) st),
     s\<lparr>tool_calls := cs, wf_events := es,
       node_runs := upsert_run (outcome_row ctx (wn_id node) node (F node (ls_run_outputs st))) (node_runs s)\<rparr>)"
proof -
  obtain ex k where r: "F node (ls_run_outputs st) = (ex, k)" by force
  obtain cs rows where a: "attempts env ctx node (ls_run_outputs st) 1 s = (Inr (ex, k), s\<lparr>tool_calls := cs, node_runs := rows\<rparr>)"
    and up: "\<forall>row. nr_execution row = rx_exec_id ctx \<and> nr_node row = wn_id node \<longrightarrow> upsert_run row rows = upsert_run row (node_runs s)"
    using F assms(2) unfolding only_row_def r by blast
  obtain st' out where rec: "recorded node ex = (st', out)" by force
  let ?s = "s\<lparr>tool_calls := cs, node_runs := rows\<rparr>"
  have "persist_node_run (rx_exec_id ctx) (wn_id node) st' (ne_input_json ex) out (ne_error ex) k ?s =
      (Inr (), ?s\<lparr>node_runs := upsert_run (outcome_row ctx (wn_id node) node (ex, k)) (node_runs s)\<rparr>)"
    using persist_no_fault [of ?s ctx "wn_id node" st' ex out k] assms(2) up
    by (simp add: outcome_row_def rec run_row_def)
  then show ?thesis using a rec r
    by (intro exI [of _ cs] exI [of _ "wf_events s @ [(rx_exec_id ctx, NodeEvent (wn_id node) (node_status_str st') out (ne_error ex))]"])
      (simp add: run_node_def act_bind_def publish_def act_modify_def act_return_def)
qed

lemma run_nodes_replay:
  assumes F: "\<And>node outs. only_row ctx (wn_id node) (attempts env ctx node outs 1 :: ('z wf_db_scheme, bytes, _) act) (F node outs)"
    and "w_faults (s :: 'z wf_db_scheme) = []"
  shows "\<exists>cs es. run_nodes env ctx finished order st s =
    (Inr (fst (replay F ctx finished order (st, node_runs s))),
     s\<lparr>tool_calls := cs, wf_events := es, node_runs := snd (replay F ctx finished order (st, node_runs s))\<rparr>)"
  using assms(2)
proof (induction order arbitrary: st s)
  case Nil
  show ?case by (intro exI [of _ "tool_calls s"] exI [of _ "wf_events s"]) (simp add: act_return_def)
next
  case (Cons n order)
  show ?case
  proof (cases "node_map (rx_graph ctx) n")
    case None
    then show ?thesis using Cons by simp
  next
    case (Some node)
    have id: "wn_id node = n" using node_map_Some [OF Some] by simp
    show ?thesis
    proof (cases "n \<in> set finished \<or> \<not> should_execute n (rx_graph ctx) (ls_active_ports st)")
      case True
      then show ?thesis using Some Cons by simp
    next
      case False
      let ?r = "F node (ls_run_outputs st)"
      obtain cs es where one: "run_node env ctx n node st s = (Inr (after_node n node (fst ?r) st),
          s\<lparr>tool_calls := cs, wf_events := es, node_runs := upsert_run (outcome_row ctx n node ?r) (node_runs s)\<rparr>)"
        using run_node_replay [of ctx node env st F, OF F Cons.prems] unfolding id by blast
      let ?s = "s\<lparr>tool_calls := cs, wf_events := es, node_runs := upsert_run (outcome_row ctx n node ?r) (node_runs s)\<rparr>"
      show ?thesis
      proof (cases "ls_aborted (after_node n node (fst ?r) st) \<or> ls_halted (after_node n node (fst ?r) st)")
        case True
        then show ?thesis using Some False one by (auto simp: act_bind_def act_return_def Let_def)
      next
        case go: False
        have "w_faults ?s = []" using Cons.prems by simp
        from Cons.IH [OF this, of "after_node n node (fst ?r) st"] show ?thesis
          using Some False one go by (auto simp: act_bind_def Let_def)
      qed
    qed
  qed
qed

section \<open>What the stored rows seed\<close>

definition seeded :: "run_ctx \<Rightarrow> node_run_row list \<Rightarrow> resume" where
  "seeded ctx rows =
     seed_resume (map (\<lambda>r. (nr_node r, nr_status r, nr_output r)) (filter (\<lambda>r. nr_execution r = rx_exec_id ctx) rows))"

lemma seeded_prior: "seed_resume (prior_runs (rx_exec_id ctx) s) = seeded ctx (node_runs s)"
  by (simp add: seeded_def prior_runs_def)

lemma seeded_snoc:
  "nr_execution r = rx_exec_id ctx \<Longrightarrow>
   seeded ctx (rows @ [r]) = seed_step (nr_node r, nr_status r, nr_output r) (seeded ctx rows)"
  by (simp add: seeded_def seed_resume_def)

lemma succeeded_str [simp]: "node_status_str st = ''succeeded'' \<longleftrightarrow> st = NodeSucceeded"
  by (cases st) simp_all

lemma seeded_done:
  "n \<in> set (rs_done (seeded ctx rows)) \<longleftrightarrow>
   (\<exists>r \<in> set rows. nr_execution r = rx_exec_id ctx \<and> nr_node r = n \<and> nr_status r = ''succeeded'')"
proof (induction rows rule: rev_induct)
  case (snoc r rows)
  show ?case
  proof (cases "nr_execution r = rx_exec_id ctx")
    case True
    have "set (rs_done (seed_step (m, st, out) q)) = (if st = ''succeeded'' then insert m (set (rs_done q)) else set (rs_done q))"
      for m st out q by (auto simp: seed_step_def Let_def split: option.splits)
    then show ?thesis using snoc True by (auto simp: seeded_snoc)
  next
    case False
    then have "seeded ctx (rows @ [r]) = seeded ctx rows" by (simp add: seeded_def)
    then show ?thesis using snoc False by auto
  qed
qed (simp add: seeded_def seed_resume_def)

definition aligned :: "run_ctx \<Rightarrow> bytes set \<Rightarrow> loop_state \<Rightarrow> node_run_row list \<Rightarrow> bool" where
  "aligned ctx seen st rows \<longleftrightarrow>
     (\<forall>r \<in> set rows. nr_execution r = rx_exec_id ctx \<longrightarrow> nr_node r \<in> seen) \<and>
     distinct (map nr_node (filter (\<lambda>r. nr_execution r = rx_exec_id ctx) rows)) \<and>
     ls_active_ports st = rs_active_ports (seeded ctx rows) \<and> ls_run_outputs st = rs_run_outputs (seeded ctx rows)"

lemma aligned_mono: "aligned ctx seen st rows \<Longrightarrow> seen \<subseteq> seen' \<Longrightarrow> aligned ctx seen' st rows"
  by (auto simp: aligned_def)

lemma outcome_row_simps [simp]:
  "nr_execution (outcome_row ctx n node r) = rx_exec_id ctx" "nr_node (outcome_row ctx n node r) = n"
  "nr_status (outcome_row ctx n node r) = node_status_str (fst (recorded node (fst r)))"
  "nr_output (outcome_row ctx n node r) = Some (snd (recorded node (fst r)))"
  by (simp_all add: outcome_row_def run_row_def case_prod_unfold)

lemma aligned_step:
  assumes "aligned ctx seen st rows" "n \<notin> seen"
  shows "upsert_run (outcome_row ctx n node r) rows = rows @ [outcome_row ctx n node r]"
    and "aligned ctx (insert n seen) (after_node n node (fst r) st) (rows @ [outcome_row ctx n node r])"
proof -
  show "upsert_run (outcome_row ctx n node r) rows = rows @ [outcome_row ctx n node r]"
    using assms by (intro upsert_new) (auto simp: aligned_def same_key_def)
  show "aligned ctx (insert n seen) (after_node n node (fst r) st) (rows @ [outcome_row ctx n node r])"
    using assms unfolding aligned_def
    by (auto simp: seeded_snoc seed_step_def after_node_def Let_def split: prod.splits)
qed

text \<open>Running on leaves what was known before as it was.\<close>

lemma replay_grows:
  assumes "replay F ctx [] rest (st, rows) = (st1, rows1)" "aligned ctx seen st rows" "distinct rest" "seen \<inter> set rest = {}"
  shows "aligned ctx (seen \<union> set rest) st1 rows1 \<and>
    (\<exists>fresh. rows1 = rows @ fresh \<and> (\<forall>r \<in> set fresh. nr_execution r = rx_exec_id ctx \<and> nr_node r \<in> set rest)) \<and>
    (\<forall>k. k \<notin> set rest \<longrightarrow> map_of (ls_active_ports st1) k = map_of (ls_active_ports st) k \<and>
       map_of (ls_run_outputs st1) k = map_of (ls_run_outputs st) k)"
  using assms
proof (induction rest arbitrary: st rows seen)
  case (Cons n rest)
  have keep: "k \<noteq> n \<Longrightarrow> map_of (ls_active_ports (after_node n node ex st)) k = map_of (ls_active_ports st) k \<and>
      map_of (ls_run_outputs (after_node n node ex st)) k = map_of (ls_run_outputs st) k" for k node ex
    by (auto simp: after_node_def Let_def split: prod.splits)
  show ?case
  proof (cases "\<exists>node. node_map (rx_graph ctx) n = Some node \<and> should_execute n (rx_graph ctx) (ls_active_ports st)")
    case False
    then have "replay F ctx [] rest (st, rows) = (st1, rows1)" using Cons.prems(1) by (auto split: option.splits)
    from Cons.IH [OF this aligned_mono [OF Cons.prems(2), of "insert n seen"]] show ?thesis using Cons.prems(3,4) by auto
  next
    case True
    then obtain node where node: "node_map (rx_graph ctx) n = Some node" "should_execute n (rx_graph ctx) (ls_active_ports st)" by blast
    let ?r = "F node (ls_run_outputs st)"
    have n: "n \<notin> seen" using Cons.prems(4) by auto
    note step = aligned_step [OF Cons.prems(2) n, of node ?r]
    let ?st = "after_node n node (fst ?r) st" and ?rows = "rows @ [outcome_row ctx n node ?r]"
    have run: "(if ls_aborted ?st \<or> ls_halted ?st then (?st, ?rows) else replay F ctx [] rest (?st, ?rows)) = (st1, rows1)"
      using Cons.prems(1) node step(1) by (simp only: replay.simps option.case Let_def) simp
    show ?thesis
    proof (cases "ls_aborted ?st \<or> ls_halted ?st")
      case True
      then have "st1 = ?st" "rows1 = ?rows" using run by auto
      then show ?thesis using aligned_mono [OF step(2)] keep [of _ node "fst ?r"] by auto
    next
      case False
      then have "replay F ctx [] rest (?st, ?rows) = (st1, rows1)" using run by simp
      from Cons.IH [OF this step(2)] show ?thesis using Cons.prems(3,4) keep [of _ node "fst ?r"] by auto
    qed
  qed
qed auto

text \<open>Whether a node runs and what it is fed depend on its sources alone.\<close>

lemma should_execute_cong:
  assumes "\<And>e. e \<in> set (wg_edges graph) \<Longrightarrow> we_to e = n \<Longrightarrow> map_of ports (we_from e) = map_of ports' (we_from e)"
  shows "should_execute n graph ports = should_execute n graph ports'"
  using assms by (auto simp: should_execute_def inbound_def Let_def split: option.splits)

lemma collect_inputs_cong:
  assumes "\<And>e. e \<in> set (wg_edges graph) \<Longrightarrow> we_to e = n \<Longrightarrow> map_of outs (we_from e) = map_of outs' (we_from e)"
  shows "collect_inputs_by_port n graph outs = collect_inputs_by_port n graph outs'"
proof -
  have "fold (add_input outs) (inbound n graph) z = fold (add_input outs') (inbound n graph) z" for z
    using assms by (intro fold_cong) (auto simp: add_input_def inbound_def)
  then show ?thesis by (simp add: collect_inputs_by_port_def Let_def)
qed

lemma same_row:
  assumes "aligned ctx seen st rows" "r \<in> set rows" "x \<in> set rows" "nr_execution r = rx_exec_id ctx" "same_key x r"
  shows "x = r"
  using assms by (auto simp: aligned_def same_key_def distinct_map inj_on_def)

section \<open>The interrupted and the resumed run\<close>

text \<open>A resumed run starts with the ports and outputs that the interrupted one ended with.\<close>

definition ahead :: "loop_state \<Rightarrow> loop_state \<Rightarrow> loop_state" where
  "ahead st1 st = st\<lparr>ls_active_ports := ls_active_ports st1, ls_run_outputs := ls_run_outputs st1\<rparr>"

lemma after_succeeded:
  "fst (recorded node ex) = NodeSucceeded \<Longrightarrow> \<not> ne_halt ex \<Longrightarrow> ahead st1 (after_node n node ex st) = ahead st1 st"
  by (simp add: after_node_def ahead_def Let_def case_prod_unfold)

lemma ahead_simps [simp]:
  "ls_aborted (ahead st1 st) = ls_aborted st" "ls_halted (ahead st1 st) = ls_halted st"
  by (simp_all add: ahead_def)

lemma after_other:
  "fst (recorded node ex) \<noteq> NodeSucceeded \<Longrightarrow> after_node n node ex (ahead st1 st) = ahead st1 (after_node n node ex st)"
  "fst (recorded node ex) \<noteq> NodeSucceeded \<Longrightarrow> ahead (after_node n node ex st) st = st"
  by (simp_all add: after_node_def ahead_def Let_def case_prod_unfold)

lemma after_flags:
  "ls_aborted (after_node n node ex st) \<longleftrightarrow> ls_aborted st \<or> fst (recorded node ex) = NodeFailed"
  "ls_halted (after_node n node ex st) \<longleftrightarrow> ls_halted st \<or> ne_halt ex"
  by (auto simp: after_node_def Let_def split: prod.splits)

lemma recorded_status:
  "fst (recorded node ex) \<noteq> NodeSucceeded \<Longrightarrow> recorded node ex = (ne_status ex, ne_output_json ex)"
  by (auto simp: recorded_def)

lemma not_seeded_done:
  assumes "aligned ctx seen st rows" "r \<in> set rows" "nr_execution r = rx_exec_id ctx"
  shows "nr_node r \<in> set (rs_done (seeded ctx rows)) \<longleftrightarrow> nr_status r = ''succeeded''"
  using same_row [OF assms(1,2)] assms(2,3) by (auto simp: seeded_done same_key_def)

lemma upsert_again:
  assumes "aligned ctx seen st rows" "outcome_row ctx n node r \<in> set rows"
  shows "upsert_run (outcome_row ctx n node r) rows = rows"
  using assms by (intro upsert_same) (auto intro: same_row)

lemma skipped_cong:
  assumes "faithful ctx F" "skip_kind (wn_kind node)"
    and "collect_inputs_by_port (wn_id node) (rx_graph ctx) outs = collect_inputs_by_port (wn_id node) (rx_graph ctx) outs'"
  shows "F node outs = F node outs'"
  using assms by (auto simp: faithful_def skipped_ex_def)

text \<open>One step of the loop that runs its node, as the resumed run sees it.\<close>

lemma replay_run:
  assumes "node_map (rx_graph ctx) n = Some node" "should_execute n (rx_graph ctx) (ls_active_ports st)" "n \<notin> set finished"
  shows "replay F ctx finished (n # order) (st, rows) =
    (let r = F node (ls_run_outputs st); st' = after_node n node (fst r) st; rows' = upsert_run (outcome_row ctx n node r) rows
     in if ls_aborted st' \<or> ls_halted st' then (st', rows') else replay F ctx finished order (st', rows'))"
  using assms by simp

lemma replay_pass:
  assumes "node_map (rx_graph ctx) n = None \<or> n \<in> set finished \<or> \<not> should_execute n (rx_graph ctx) (ls_active_ports st)"
  shows "replay F ctx finished (n # order) (st, rows) = replay F ctx finished order (st, rows)"
  using assms by (auto split: option.splits)

lemma lockstep:
  assumes "faithful ctx F" and "sources_first (wg_edges (rx_graph ctx)) (pre @ rest)" "distinct (pre @ rest)"
    and "aligned ctx (set pre) st rows" and "replay F ctx [] rest (st, rows) = (st1, rows1)"
    and "\<not> ls_halted st1" "\<not> ls_aborted st" "\<not> ls_halted st"
  shows "replay F ctx (rs_done (seeded ctx rows1)) rest (ahead st1 st, rows1) = (st1, rows1)"
  using assms(2-)
proof (induction rest arbitrary: pre st rows)
  case Nil
  then show ?case by (simp add: ahead_def)
next
  case (Cons n rest)
  let ?done = "rs_done (seeded ctx rows1)" and ?graph = "rx_graph ctx"
  have grow: "aligned ctx (set pre \<union> set (n # rest)) st1 rows1"
    "\<And>k. k \<notin> set (n # rest) \<Longrightarrow> map_of (ls_active_ports st1) k = map_of (ls_active_ports st) k"
    "\<And>k. k \<notin> set (n # rest) \<Longrightarrow> map_of (ls_run_outputs st1) k = map_of (ls_run_outputs st) k"
    using replay_grows [OF Cons.prems(4,3)] Cons.prems(2) by auto
  have src: "we_from e \<notin> set (n # rest)" if "e \<in> set (wg_edges ?graph)" "we_to e = n" for e
    using Cons.prems(1,2) that unfolding sources_first_def by fastforce
  have same: "should_execute n ?graph (ls_active_ports (ahead st1 st)) = should_execute n ?graph (ls_active_ports st)"
    using src by (intro should_execute_cong) (simp add: ahead_def grow(2))
  have inputs: "collect_inputs_by_port n ?graph (ls_run_outputs st1) = collect_inputs_by_port n ?graph (ls_run_outputs st)"
    using src by (intro collect_inputs_cong) (simp add: grow(3))
  have next_node: "sources_first (wg_edges ?graph) ((pre @ [n]) @ rest)" "distinct ((pre @ [n]) @ rest)" using Cons.prems(1,2) by auto
  show ?case
  proof (cases "node_map ?graph n = None \<or> \<not> should_execute n ?graph (ls_active_ports st)")
    case True
    then have "replay F ctx [] rest (st, rows) = (st1, rows1)" using Cons.prems(4) replay_pass by metis
    moreover have "aligned ctx (set (pre @ [n])) st rows" using Cons.prems(3) by (rule aligned_mono) auto
    ultimately have "replay F ctx ?done rest (ahead st1 st, rows1) = (st1, rows1)"
      using Cons.IH next_node Cons.prems(5-) by blast
    then show ?thesis using True same replay_pass by metis
  next
    case False
    then obtain node where node: "node_map ?graph n = Some node" "should_execute n ?graph (ls_active_ports st)" by auto
    have id: "wn_id node = n" using node_map_Some [OF node(1)] by simp
    let ?r = "F node (ls_run_outputs st)"
    let ?st = "after_node n node (fst ?r) st" and ?row = "outcome_row ctx n node ?r"
    note step = aligned_step [OF Cons.prems(3), of n node ?r]
    have new: "n \<notin> set pre" using Cons.prems(2) by simp
    have run: "(if ls_aborted ?st \<or> ls_halted ?st then (?st, rows @ [?row]) else replay F ctx [] rest (?st, rows @ [?row])) = (st1, rows1)"
      using Cons.prems(4) node step(1) [OF new] by (simp only: replay.simps option.case Let_def) simp
    have al: "aligned ctx (set (pre @ [n])) ?st (rows @ [?row])" using step(2) [OF new] by simp
    have nohalt: "\<not> ls_halted ?st" using run Cons.prems(5) by (auto split: if_splits)
    have row: "?row \<in> set rows1"
    proof (cases "ls_aborted ?st")
      case True
      then show ?thesis using run by auto
    next
      case False
      then have "replay F ctx [] rest (?st, rows @ [?row]) = (st1, rows1)" using run nohalt by simp
      from replay_grows [OF this al] show ?thesis using Cons.prems(2) by auto
    qed
    have go: "replay F ctx ?done rest (ahead st1 ?st, rows1) = (st1, rows1)" if "\<not> ls_aborted ?st"
      using Cons.IH [OF next_node al] run nohalt that Cons.prems(5) by simp
    have fin: "n \<in> set ?done \<longleftrightarrow> fst (recorded node (fst ?r)) = NodeSucceeded"
      using not_seeded_done [OF grow(1) row] by simp
    show ?thesis
    proof (cases "fst (recorded node (fst ?r)) = NodeSucceeded")
      case True
      have "\<not> ne_halt (fst ?r)" "\<not> ls_aborted ?st" using nohalt True Cons.prems(6) by (simp_all add: after_flags)
      then show ?thesis
        using go replay_pass [of ctx n ?done "ahead st1 st" F rest rows1] True fin after_succeeded [OF True, of st1 n st] by simp
    next
      case bad: False
      note resumed = replay_run [of ctx n node "ahead st1 st" ?done F rest rows1, OF node(1)]
      have F: "F node (ls_run_outputs (ahead st1 st)) = ?r"
      proof (cases "skip_kind (wn_kind node)")
        case True
        have "F node (ls_run_outputs st1) = ?r" using skipped_cong [OF assms(1) True] inputs unfolding id by blast
        then show ?thesis by (simp add: ahead_def)
      next
        case False
        then have "ne_status (fst ?r) \<in> {NodeSucceeded, NodeFailed}" using assms(1) unfolding faithful_def by presburger
        then have "ls_aborted ?st" using bad recorded_status [OF bad] by (auto simp: after_flags)
        then have "st1 = ?st" using run by simp
        then show ?thesis using after_other(2) [OF bad] by simp
      qed
      have res: "replay F ctx ?done (n # rest) (ahead st1 st, rows1) =
          (if ls_aborted ?st then (ahead st1 ?st, rows1) else replay F ctx ?done rest (ahead st1 ?st, rows1))"
        using same node(2) fin bad upsert_again [OF grow(1) row] nohalt
        by (subst resumed) (simp_all add: Let_def F after_other(1) [OF bad])
      show ?thesis
      proof (cases "ls_aborted ?st")
        case True
        then have "st1 = ?st" "rows1 = rows @ [?row]" using run by auto
        then show ?thesis using res True by (simp add: ahead_def)
      next
        case False
        then show ?thesis using res go by simp
      qed
    qed
  qed
qed

lemma replay_append:
  assumes "\<not> ls_aborted st" "\<not> ls_halted st" "replay F ctx finished pre (st, rows) = (st1, rows1)"
  shows "replay F ctx finished (pre @ post) (st, rows) =
    (if ls_aborted st1 \<or> ls_halted st1 then (st1, rows1) else replay F ctx finished post (st1, rows1))"
  using assms
proof (induction pre arbitrary: st rows)
  case (Cons n pre)
  show ?case
  proof (cases "node_map (rx_graph ctx) n = None \<or> n \<in> set finished \<or> \<not> should_execute n (rx_graph ctx) (ls_active_ports st)")
    case True
    then show ?thesis using Cons by (auto split: option.splits)
  next
    case False
    then show ?thesis using Cons by (auto simp: Let_def split: if_splits)
  qed
qed auto

lemma replay_unfinished: "set finished \<inter> set order = {} \<Longrightarrow> replay F ctx finished order p = replay F ctx [] order p"
  by (induction F ctx finished order p rule: replay.induct) (auto simp: Let_def split: option.splits)

lemma replay_resumed:
  assumes "faithful ctx F" and "sources_first (wg_edges (rx_graph ctx)) (pre @ post)" "distinct (pre @ post)"
    and "\<forall>r \<in> set rows. nr_execution r \<noteq> rx_exec_id ctx"
    and start: "replay F ctx [] pre (start_state (seed_resume []), rows) = (st1, rows1)" and "\<not> ls_halted st1"
  shows "replay F ctx (rs_done (seeded ctx rows1)) (pre @ post) (start_state (seeded ctx rows1), rows1) =
    replay F ctx [] (pre @ post) (start_state (seed_resume []), rows)"
proof -
  let ?st = "start_state (seed_resume [])"
  have "filter (\<lambda>r. nr_execution r = rx_exec_id ctx) rows = []" using assms(4) by (simp add: filter_empty_conv)
  then have al: "aligned ctx (set []) ?st rows" using assms(4) by (auto simp: aligned_def seeded_def start_state_def)
  have al1: "aligned ctx (set pre) st1 rows1" using replay_grows [OF start al] assms(3) by simp
  have st: "start_state (seeded ctx rows1) = ahead st1 ?st"
    using al1 by (simp add: aligned_def start_state_def ahead_def)
  have fresh: "\<not> ls_aborted ?st" "\<not> ls_halted ?st" by (simp_all add: start_state_def)
  have first: "sources_first (wg_edges (rx_graph ctx)) ([] @ pre)" using assms(2) unfolding sources_first_def by (metis append_Cons append_Nil append_assoc)
  have "replay F ctx (rs_done (seeded ctx rows1)) pre (ahead st1 ?st, rows1) = (st1, rows1)"
    using lockstep [OF assms(1) first _ al start assms(6) fresh] assms(3) by simp
  from replay_append [OF _ _ this, of post] have
    "replay F ctx (rs_done (seeded ctx rows1)) (pre @ post) (ahead st1 ?st, rows1) =
      (if ls_aborted st1 \<or> ls_halted st1 then (st1, rows1) else replay F ctx (rs_done (seeded ctx rows1)) post (st1, rows1))"
    using fresh by simp
  moreover have "set (rs_done (seeded ctx rows1)) \<subseteq> set pre" using al1 by (auto simp: seeded_done aligned_def)
  then have "set (rs_done (seeded ctx rows1)) \<inter> set post = {}" using assms(3) by auto
  from replay_unfinished [OF this] have "replay F ctx (rs_done (seeded ctx rows1)) post (st1, rows1) = replay F ctx [] post (st1, rows1)" .
  ultimately show ?thesis unfolding st replay_append [OF fresh start] by simp
qed


text \<open>The execution is marked as running, and closed with its verdict.\<close>

definition running :: "run_ctx \<Rightarrow> 'z wf_db_scheme \<Rightarrow> 'z wf_db_scheme" where
  "running ctx = update_execution (rx_exec_id ctx) (\<lambda>x. x\<lparr>ex_status := ''running'', ex_attempts := ex_attempts x + 1\<rparr>)"

definition concluded :: "run_ctx \<Rightarrow> loop_state \<Rightarrow> 'z wf_db_scheme \<Rightarrow> 'z wf_db_scheme" where
  "concluded ctx st = update_execution (rx_exec_id ctx)
     (\<lambda>x. x\<lparr>ex_status := execution_status_str (if ls_all_succeeded st then Succeeded else Failed),
        ex_error := ls_first_error st, ex_lease := None\<rparr>)"

lemma run_graph_replay:
  assumes F: "\<And>node outs. only_row ctx (wn_id node) (attempts env ctx node outs 1 :: ('z wf_db_scheme, bytes, _) act) (F node outs)"
    and s: "w_faults (s :: 'z wf_db_scheme) = []" and "topo_sort (we_arrange env) (rx_graph ctx) = Some order"
    and res: "replay F ctx (rs_done (seeded ctx (node_runs s))) order (start_state (seeded ctx (node_runs s)), node_runs s) = (st, rows)"
  shows "\<exists>s'. run_graph env ctx s = (Inr (if ls_all_succeeded st then Succeeded else Failed), s') \<and> node_runs s' = rows \<and>
    executions s' = executions (concluded ctx st (running ctx s))"
proof -
  let ?r = "seeded ctx (node_runs s)"
  have r: "w_faults (running ctx s) = []" "node_runs (running ctx s) = node_runs s"
    using s by (simp_all add: running_def update_execution_def)
  obtain cs es where nodes: "run_nodes env ctx (rs_done ?r) order (start_state ?r) (running ctx s) =
      (Inr st, (running ctx s)\<lparr>tool_calls := cs, wf_events := es, node_runs := rows\<rparr>)"
    using run_nodes_replay [of ctx env F, OF F r(1), of "rs_done ?r" order "start_state ?r"] res r(2) by auto
  have "seed_resume (prior_runs (rx_exec_id ctx) (running ctx s)) = ?r" by (simp add: seeded_prior r(2))
  then show ?thesis using nodes s r assms(3)
    by (simp add: run_graph_def act_bind_def text_stmt_def act_map_err_def stmt_def act_modify_def act_get_def running_def [symmetric]
        finish_run_def Let_def publish_def act_return_def concluded_def update_execution_def)
qed

lemma running_twice: "executions s1 = executions (running ctx s) \<Longrightarrow>
  map (ex_attempts_update (\<lambda>_. 0)) (executions (concluded ctx st (running ctx s1))) =
  map (ex_attempts_update (\<lambda>_. 0)) (executions (concluded ctx st (running ctx s)))"
  by (simp add: concluded_def running_def update_execution_def)


text \<open>What a run in an example returns.\<close>

lemma returnsD: "(case p of (Inr a, s) \<Rightarrow> P a s | _ \<Rightarrow> False) \<Longrightarrow> \<exists>a s. p = (Inr a, s) \<and> P a s"
  by (auto split: prod.splits sum.splits)

definition a_first :: "(bytes \<times> bytes) list" where
  "a_first = [(''t'', ''a''), (''t'', ''s'')]"

definition s_first :: "(bytes \<times> bytes) list" where
  "s_first = [(''t'', ''s''), (''t'', ''a'')]"



end
