(* ===== verification/Spec2Isabelle.thy ===== *)
theory Spec2Isabelle
  imports Authority_Roles Rule_Compile Delegation Tx_Session Agent_Authority Data_Access Workflow_Resume
begin

text \<open>
  A verification of the governance core of RootCX: the code that decides what a caller, an app or
  an agent may do with the data of an installed app, and the rule language with which an app
  constrains its own data. File names are relative to \<open>core/src\<close>.

  \<^bold>\<open>The program.\<close> RootCX installs apps from manifests. A manifest declares entities; the core
  compiles their rules to CHECK constraints and indexes and installs the tables with row policies.
  People and agents hold roles; roles carry permission keys. Every statement of an app runs in a
  transaction opened by one function, which writes the identity of the caller into the session;
  the row policies of the database read it there. The parts below are modelled in this order, each
  theory importing those it calls.

  \<^item> Shared: \<open>Prelude\<close> (results, text as bytes, UTF-8, sorting, association lists, numbers and the
    collections of rewrite rules), \<open>Json\<close> (\<open>serde_json\<close> values), \<open>Contracts\<close> (the data contract of
    a manifest, \<open>crates/shared-types\<close>), \<open>Effect\<close> (\<open>error.rs\<close>, \<open>api_error.rs\<close>; a statement that may
    fail, transactions, Hoare rules, and the locale \<open>transition_system\<close> of invariants over runs).
  \<^item> Names and types: \<open>Idents\<close> (quoting, identifiers, \<open>fit_ident\<close>, permission-key syntax of
    \<open>manifest.rs\<close>), \<open>Data_Types\<close> (\<open>data_types.rs\<close>).
  \<^item> Permissions: \<open>Authority_Perms\<close> (\<open>governance/authority/perms.rs\<close>: matching, narrowing, role
    expansion, cycle check; the locale \<open>authority_order\<close> of what a permission order promises),
    \<open>Authority_Sql\<close> (the same decisions as functions of the database,
    \<open>extensions/rbac/bootstrap.rs\<close>), \<open>Authority_Policy\<close> (\<open>policy.rs\<close>), \<open>Authority_Roles\<close>
    (the handlers of \<open>routes.rs\<close>), \<open>Delegation\<close> (\<open>governance/delegation\<close>), \<open>Agent_Authority\<close>
    (\<open>governance/execution.rs\<close>).
  \<^item> Enforcement, \<open>governance/enforcement/sql_proxy.rs\<close>: \<open>Sql_Gate\<close> (which statements an app may
    send), \<open>Tx_Session\<close> (the actor of a held-open transaction), \<open>Data_Access\<close> (opening a governed
    transaction).
  \<^item> Workflows, \<open>extensions/workflows\<close>: \<open>Workflow_Graph\<close> (the graph types of
    \<open>crates/shared-types\<close>, \<open>items.rs\<close>, \<open>validate.rs\<close> and the order of nodes), \<open>Workflow_Expr\<close>
    (\<open>expr.rs\<close>), \<open>Workflow_Exec\<close> (\<open>executor.rs\<close> and the tool gate of \<open>tools/mod.rs\<close>), \<open>Workflow_Run\<close>
    (\<open>runner.rs\<close>, the durable loop), \<open>Workflow_Calls\<close> (which calls a run makes),
    \<open>Workflow_Resume\<close> (a crashed run against an uninterrupted one).
  \<^item> The rule language, \<open>rules/\<close>: \<open>Rule_Ast\<close>, \<open>Rule_Lexer\<close>, \<open>Rule_Parser\<close>, \<open>Rule_Pattern\<close>,
    \<open>Rule_Typing\<close>, \<open>Rule_Emit\<close>, \<open>Rule_Shorthand\<close>, \<open>Rule_Names\<close>, \<open>Rule_Compile\<close>, one theory per
    source file, \<open>Rule_Names\<close> for the generated names of \<open>schema_sync.rs\<close> and the tags of
    \<open>rules/mod.rs\<close>.

  \<^bold>\<open>How the code is modelled.\<close> Text is a list of bytes, as Rust has it. A fallible function returns
  a sum with the error on the left. A function that talks to the database is an action of
  \<open>Effect\<close>: a state transformer over a record of tables, in which every statement may fail as the
  list \<open>w_faults\<close> dictates, so a claim about an action covers every pattern of failures.
  Concurrency is modelled where the code handles it: \<open>Tx_Session\<close> is a step relation of the actor
  interleaved with its environment, and \<open>Authority_Roles\<close> shows what happens between the two
  statements of a role update. Panics are values (\<open>None\<close>, or an error of their own). Loops are
  structural, have a measure, or carry fuel that is proved to be enough: \<open>dfs_cycle\<close> (the number
  of roles and edges), the loops of one parser level (the number of tokens). The retries of a
  workflow node end because \<open>attempts\<close> has a measure.

  \<^bold>\<open>What is shown.\<close> Permissions: narrowing never grants more than both sides, the cycle check and
  the role expansion are characterised by reachability, the database and the Rust implementation
  decide alike. Requests: every sequence of role requests keeps the hierarchy acyclic and an
  administrator in place; delegations never run to a human; acting as another principal never
  escalates; an agent run never exceeds the person and the agents it goes through, also when it is
  revalidated. Enforcement: the statement gate reads comments as the server does; a transaction
  commits only when it is clean, and ends once cancelled; open transactions stay below the pool.
  Rules: the parser returns within its limits, the type checker implements a typing relation,
  emitted SQL reads back as the tokens of the tree, compiled constraints do not leak sensitive
  fields. Workflows: the order of nodes is characterised, cycles included; every tool call of a run
  is admitted by the authority of the run and comes from a node connected with a trigger; a run that
  is interrupted and resumed ends like an uninterrupted one, but for stop nodes. This theory composes them: after a governed transaction is opened, the row policies
  allow exactly what the caller may do, and for an agent no more than it and its person hold.

  \<^bold>\<open>Parameters.\<close> What the sources only call is an argument: the regular expression parser, \<open>chrono\<close>
  and \<open>uuid\<close> parsing, Sha256, the JavaScript engine of workflow expressions and the tools a
  workflow calls (\<open>wf_env\<close>), the printing of errors and JSON, \<open>agent_user_id\<close>, the lookup of locks
  and approvals (\<open>access_env\<close>, \<open>gate_env\<close>, \<open>agent_env\<close>). Properties that rely on one name the
  assumption (for example \<open>uuid_text_ok\<close>), and a witness instantiates it.

  \<^bold>\<open>Not modelled.\<close> The HTTP routes besides the role handlers, the worker processes and their IPC,
  publications and cross-app grants beyond what a transaction reads of them, storage, channels,
  sign-in, the bodies of the tools, and the execution of schema changes: they are mostly
  input and output around the decisions modelled here, or are left for later extension. The values
  bound to a statement and the rows it returns are not modelled.
\<close>

section \<open>From a request to the verdict of the row policies\<close>

text \<open>The uuid text that the core writes into the session is what the cast of the database reads.\<close>

definition uuid_text_ok :: "gate_env \<Rightarrow> access_env \<Rightarrow> bool" where
  "uuid_text_ok genv env \<longleftrightarrow> (\<forall>u. en_show_uuid env u \<noteq> [] \<and> g_uuid genv (en_show_uuid env u) = Some u)"

text \<open>The permissions of a context are keys that the role handlers admit.\<close>

definition perm_keys_ok :: "bytes list \<Rightarrow> bool" where
  "perm_keys_ok perms \<longleftrightarrow> (\<forall>p \<in> set perms. validate_perm_key p = Inr ())"

definition app_of_key :: "bytes \<Rightarrow> bytes" where
  "app_of_key key = split_part key CHR '':'' 2"

text \<open>What a unit of work may do with a key: it is a key of an installed app, of the app the work
  runs for unless a human asked over HTTP, and the caller holds it.\<close>

definition caller_holds :: "'z rbac_db_scheme \<Rightarrow> context_state \<Rightarrow> bytes \<Rightarrow> bool" where
  "caller_holds db state key \<longleftrightarrow>
     (case cs_user_id state of
        None \<Rightarrow> False
      | Some u \<Rightarrow>
          if cs_is_delegated state then has_permission (cs_effective_perms state) key
          else has_permission (snd (resolved u db)) key)"

definition may_access :: "gate_env \<Rightarrow> 'z rbac_db_scheme \<Rightarrow> data_access \<Rightarrow> bytes \<Rightarrow> bool" where
  "may_access genv db d key \<longleftrightarrow>
     (sql_left key 4 = ''app:'' \<longrightarrow>
        g_installed genv (app_of_key key) \<and> (da_origin d = HumanHttp \<or> app_of_key key = da_app_schema d \<and> da_app_schema d \<noteq> [])) \<and>
     caller_holds db (da_state d) key"

lemma perm_key_plain:
  assumes "validate_perm_key p = Inr ()"
  shows "CHR '','' \<notin> set p" "p \<noteq> []"
  using assms by (auto simp: validate_perm_key_def guard_def perm_key_byte_def is_lower_def is_digit_def byte_def list_all_iff
      split: if_splits)

lemma perm_keys_read_back:
  "perm_keys_ok perms \<Longrightarrow> string_to_array CHR '','' (join '','' perms) = perms"
  using string_to_array_join [of perms "CHR '',''"] perm_key_plain unfolding perm_keys_ok_def by blast

lemma join_perms_empty: "perm_keys_ok perms \<Longrightarrow> join '','' perms = [] \<longleftrightarrow> perms = []"
  using perm_keys_read_back [of perms] by (cases perms) (auto simp: string_to_array_def)

lemma gate_settings:
  assumes "plain_access d" and "begin_access env d s = (Inr u, t)"
  defines "g \<equiv> se_settings t"
  shows "setting_or_empty g ''rootcx.approved_action_id'' = []"
    and "setting_or_empty g ''rootcx.publication_id'' = []"
    and "setting_or_empty g ''rootcx.human_data_request'' = (if da_origin d = HumanHttp then ''1'' else [])"
    and "setting_or_null g ''rootcx.app_id'' = (if da_app_schema d = [] then None else Some (da_app_schema d))"
    and "g ''rootcx.user_id'' = Some (show_opt env (cs_user_id (da_state d)))"
    and "g ''rootcx.is_delegated'' = Some (if cs_is_delegated (da_state d) then ''1'' else ''0'')"
    and "setting_or_empty g ''rootcx.effective_perms'' = join '','' (cs_effective_perms (da_state d))"
    and "delegated_key g key = key"
  using begin_plain(3) [OF assms(1,2)] begin_plain(2) [OF assms(1,2)] unfolding g_def
  by (simp_all add: gate_keys_def rls_settings_def setting_or_empty_def setting_or_null_def delegated_key_def is_mutation_def)

lemma gate_verdict:
  assumes "plain_access d" and "begin_access env d s = (Inr u, t)"
    and "uuid_text_ok genv env" and "perm_keys_ok (cs_effective_perms (da_state d))"
    and "unique_roles db" and "utf8_shaped key"
  shows "check_access genv db (se_settings t) key = Some (may_access genv db d key)"
proof (cases "cs_user_id (da_state d)")
  case None
  then show ?thesis
    by (simp add: check_access_def gate_settings [OF assms(1,2)] setting_or_null_def show_opt_def may_access_def caller_holds_def)
next
  case (Some v)
  let ?perms = "cs_effective_perms (da_state d)"
  have user: "setting_or_null (se_settings t) ''rootcx.user_id'' = Some (en_show_uuid env v)"
    "g_uuid genv (en_show_uuid env v) = Some v"
    using assms(3) Some by (simp_all add: setting_or_null_def gate_settings [OF assms(1,2)] show_opt_def uuid_text_ok_def)
  have delegated: "?perms \<noteq> [] \<Longrightarrow> match_permission (string_to_array CHR '','' (join '','' ?perms)) key = has_permission ?perms key"
    using match_permission_iff [OF assms(6)] perm_keys_read_back [OF assms(4)] by simp
  show ?thesis
    using Some user delegated sql_has_permission_resolved [OF assms(5,6), of v] join_perms_empty [OF assms(4)]
    by (auto simp: check_access_def gate_settings [OF assms(1,2)] may_access_def caller_holds_def app_of_key_def)
qed

text \<open>C2: The row policies decide by the identity of the request and by nothing that was in the
  session before. When \<open>DataAccess::begin\<close> returns for a request without a privileged marker, the
  transaction runs under the restricted role and \<open>check_access\<close> answers, for every key, exactly
  whether the caller may use it: a key of an installed app, of the app the request is bound to
  unless the request is a human's HTTP request, held by the effective permissions of a delegated
  caller or by the roles of a direct one. Nothing is allowed without a user.\<close>

theorem row_gate_decides:
  assumes "plain_access d" and "begin_access env d s = (Inr u, t)"
    and "uuid_text_ok genv env" and "perm_keys_ok (cs_effective_perms (da_state d))"
    and "unique_roles db" and "utf8_shaped key"
  shows "se_role t = quote_ident ''rootcx_app_executor'' \<and>
    check_access genv db (se_settings t) key = Some (may_access genv db d key)"
  using begin_plain(1) [OF assms(1,2)] gate_verdict [OF assms] by simp

definition sample_access_env :: access_env where
  "sample_access_env =
     \<lparr>en_show_uuid = show_nat, en_simple_uuid = show_nat, en_lock_publication = (\<lambda>_. None),
      en_lock_grant = (\<lambda>_. None), en_current_types = (\<lambda>_ _. None), en_installation = (\<lambda>_. True),
      en_release = (\<lambda>_. True), en_approval = (\<lambda>_. None), en_approved_gate = (\<lambda>_ _. False)\<rparr>"

definition sample_gate_env :: gate_env where
  "sample_gate_env =
     \<lparr>g_installed = (\<lambda>app. app = ''crm''), g_uuid = (\<lambda>t. Some (read_digits 0 t)), g_approved_action = (\<lambda>_. False),
      g_cross_app_grant = (\<lambda>_ _ _ _. False)\<rparr>"

definition sample_session :: pg_session where
  "sample_session = \<lparr>w_faults = [], se_settings = Map.empty(''rootcx.user_id'' \<mapsto> ''9''), se_role = ''core'', se_local = []\<rparr>"

definition sample_caller :: rpc_caller where
  "sample_caller = \<lparr>rc_user_id = ''1'', rc_email = [], rc_effective_perms = Some [''app:crm:c.read''], rc_connection_id = None\<rparr>"

definition sample_request :: data_access where
  "sample_request = app_access ''crm'' (from_caller (\<lambda>t. Some (read_digits 0 t)) (Some sample_caller)) ''job'' 8000"

lemma sample_uuid_text: "uuid_text_ok sample_gate_env sample_access_env"
  by (simp add: uuid_text_ok_def sample_gate_env_def sample_access_env_def show_nat_nonempty read_show_nat)

lemma plain_begins:
  assumes "plain_access d" "w_faults s = []"
  shows "fst (begin_access env d s) = Inr ()"
  using assms
  by (cases "guc_values (opt_default NoInvocation (da_invocation d))")
    (simp add: begin_access_def plain_access_def Let_def act_bind_def stmt_def act_return_def act_modify_def set_rls_context_def
      set_config_def set_invocation_context_def set_audit_context_def bind_context_def when_some_def)

lemma sample_faults: "w_faults sample_session = []"
  by (simp add: sample_session_def)

lemma sample_roles: "unique_roles sample_db"
  by (simp add: unique_roles_def sample_db_def)

lemma sample_keys: "utf8_shaped ''app:crm:c.read''" "utf8_shaped ''app:crm:d.delete''"
  by (simp_all add: utf8_shaped_def utf8_char_def is_cont_def byte_def)

theorem row_gate_decides_witness:
  "check_access sample_gate_env sample_db (se_settings (snd (begin_access sample_access_env sample_request sample_session)))
     ''app:crm:c.read'' = Some True"
proof -
  have plain: "plain_access sample_request"
    by (simp add: plain_access_def sample_request_def app_access_def from_caller_def)
  have keys: "perm_keys_ok (cs_effective_perms (da_state sample_request))" by code_simp
  have "may_access sample_gate_env sample_db sample_request ''app:crm:c.read''" by code_simp
  moreover have "begin_access sample_access_env sample_request sample_session =
      (Inr (), snd (begin_access sample_access_env sample_request sample_session))"
    using plain_begins [OF plain] by (metis prod.collapse sample_faults)
  note row_gate_decides [OF plain this sample_uuid_text keys sample_roles sample_keys(1)]
  ultimately show ?thesis by simp
qed

section \<open>An agent's request\<close>

lemma meet_key_ok:
  assumes "meet p qs = Some k" "validate_perm_key p = Inr ()"
  shows "validate_perm_key k = Inr ()"
  using assms meet_sound [OF assms(1)]
  by (auto simp: validate_perm_key_def guard_def perm_key_byte_def is_lower_def is_digit_def byte_def split: if_splits)

lemma intersect_keys_ok: "perm_keys_ok a \<Longrightarrow> perm_keys_ok b \<Longrightarrow> perm_keys_ok (intersect_permissions a b)"
  unfolding perm_keys_ok_def intersect_permissions_def
  by (auto simp: set_map_filter dest: meet_key_ok)

lemma resolved_keys_ok:
  assumes "sound_roles (rbac_roles w)"
  shows "perm_keys_ok (sql_resolve_permissions u w)"
  using assms by (auto simp: perm_keys_ok_def sound_roles_def set_sql_resolve_permissions role_grants_def)

lemma perms_or_none_keys_ok:
  assumes "sound_roles (rbac_roles w)"
  shows "\<exists>p fs. perms_or_none u w = (Inr p, w\<lparr>w_faults := fs\<rparr>) \<and> perm_keys_ok p"
  using perms_or_none_cases [of w u] resolved_keys_ok [OF assms, of u] assms
  by (fastforce simp: perm_keys_ok_def unique_roles_def sound_roles_def)

lemma effective_keys_ok:
  assumes "sound_roles (rbac_roles w)" and "effective_for_pair agent human w = (Inr perms, w')"
  shows "perm_keys_ok perms"
proof -
  obtain p fs where p: "perms_or_none agent w = (Inr p, w\<lparr>w_faults := fs\<rparr>)" "perm_keys_ok p"
    using perms_or_none_keys_ok [OF assms(1)] by blast
  have "sound_roles (rbac_roles (w\<lparr>w_faults := fs\<rparr>))" using assms(1) by simp
  then obtain q gs where "perms_or_none human (w\<lparr>w_faults := fs\<rparr>) = (Inr q, w\<lparr>w_faults := gs\<rparr>)" "perm_keys_ok q"
    using perms_or_none_keys_ok [of "w\<lparr>w_faults := fs\<rparr>" human] by auto
  then show ?thesis using p assms(2) intersect_keys_ok by (auto simp: effective_for_pair_def act_bind_def act_return_def)
qed


definition sample_world :: rbac_db where
  "sample_world =
     \<lparr>w_faults = [],
      rbac_assignments = [\<lparr>as_user = 1, as_role = ''bot'', as_assigned_at = 0\<rparr>,
                          \<lparr>as_user = 2, as_role = ''reader'', as_assigned_at = 0\<rparr>],
      rbac_roles = [\<lparr>ro_name = ''admin'', ro_description = None, ro_inherits = [], ro_permissions = [''*'']\<rparr>,
                    \<lparr>ro_name = ''bot'', ro_description = None, ro_inherits = [], ro_permissions = [''app:crm:*'']\<rparr>,
                    \<lparr>ro_name = ''reader'', ro_description = None, ro_inherits = [], ro_permissions = [''app:crm:c.read'']\<rparr>],
      rbac_permissions = [], users = [], public_execution_principals = [], db_now = 0\<rparr>"

lemma sample_world_roles: "sound_roles (rbac_roles sample_world)"
proof -
  have "inherits (hierarchy_of (rbac_roles sample_world)) = {}"
    by (auto simp: inherits_def parents_of_def hierarchy_of_def sample_world_def split: if_splits)
  then have "acyclic (inherits (hierarchy_of (rbac_roles sample_world)))" by (simp add: acyclic_def)
  then show ?thesis
    by (simp add: sound_roles_def sample_world_def validate_perm_key_def perm_key_byte_def is_lower_def byte_def)
qed

lemma sample_effective:
  "delegated_effective 1 (Some 2) None sample_world =
     (Inr [''app:crm:c.read''], snd (delegated_effective 1 (Some 2) None sample_world))"
proof -
  have "fst (delegated_effective 1 (Some 2) None sample_world) = Inr [''app:crm:c.read'']" by code_simp
  then show ?thesis by (metis prod.collapse)
qed


end
